(* ===== verification/Prelude.thy ===== *)
theory Prelude
  imports Main "HOL-Library.Sublist" "HOL-Library.Code_Target_Numeral"
begin

text \<open>
  Shared vocabulary of the development: bytes and the characters the protocol names, the
  collections of facts the component proofs draw on, and list lemmas that do not depend on
  any component.

  A byte of the program (\<open>char\<close> or \<open>unsigned char\<close>) is a HOL \<open>char\<close>, which is exactly an
  8-bit value; \<open>code c\<close> reads it as a number, as the range tests of the C code do.
\<close>

section \<open>Bytes\<close>

type_synonym byte = char
type_synonym bytes = "char list"

abbreviation code :: "char \<Rightarrow> nat" where
  "code c \<equiv> of_char c"

abbreviation NUL :: char where "NUL \<equiv> CHR 0x00"
abbreviation HTAB :: char where "HTAB \<equiv> CHR 0x09"
abbreviation LF :: char where "LF \<equiv> CHR 0x0A"
abbreviation CR :: char where "CR \<equiv> CHR 0x0D"
abbreviation SP :: char where "SP \<equiv> CHR 0x20"

abbreviation CRLF :: bytes where "CRLF \<equiv> [CR, LF]"

named_theorems heap_simps \<open>effect of an operation on the number of live heap blocks\<close>
named_theorems ok_intros \<open>successful outcomes of the component operations\<close>

section \<open>Lists\<close>

lemma last_take_nth: "0 < i \<Longrightarrow> i \<le> length xs \<Longrightarrow> last (take i xs) = xs ! (i - 1)"
  by (cases i) (simp_all add: take_Suc_conv_app_nth)

lemma dropWhile_rev_suffix: "\<exists>ys. xs = rev (dropWhile P (rev xs)) @ ys \<and> (\<forall>y\<in>set ys. P y)"
proof -
  have "xs = rev (dropWhile P (rev xs)) @ rev (takeWhile P (rev xs))"
    by (metis rev_append rev_rev_ident takeWhile_dropWhile_id)
  moreover have "\<forall>y\<in>set (rev (takeWhile P (rev xs))). P y"
    by (auto dest: set_takeWhileD)
  ultimately show ?thesis by blast
qed

text \<open>A string as the list of its fields between separators, and back.\<close>

fun split_on :: "char \<Rightarrow> string \<Rightarrow> string list" where
  "split_on c [] = [[]]"
| "split_on c (x # xs) = (if x = c then [] # split_on c xs
     else case split_on c xs of [] \<Rightarrow> [[x]] | y # ys \<Rightarrow> (x # y) # ys)"

fun join_with :: "char \<Rightarrow> string list \<Rightarrow> string" where
  "join_with c [] = []"
| "join_with c [s] = s"
| "join_with c (s # t # ss) = s @ c # join_with c (t # ss)"

lemma split_on_nonempty [simp]: "split_on c s \<noteq> []"
  by (cases s) (auto split: list.splits)

lemma split_on_takeWhile:
  "split_on c s = takeWhile (\<lambda>x. x \<noteq> c) s
     # (case dropWhile (\<lambda>x. x \<noteq> c) s of [] \<Rightarrow> [] | _ # cs \<Rightarrow> split_on c cs)"
  by (induction s) auto

lemma split_on_no_sep: "seg \<in> set (split_on c s) \<Longrightarrow> c \<notin> set seg"
proof (induction s arbitrary: seg)
  case (Cons x xs)
  then show ?case by (cases "split_on c xs") (auto split: if_splits)
qed simp

lemma set_split_on: "seg \<in> set (split_on c s) \<Longrightarrow> set seg \<subseteq> set s"
proof (induction s arbitrary: seg)
  case (Cons x xs)
  then show ?case by (cases "split_on c xs") (fastforce split: if_splits)+
qed simp

lemma split_on_plain: "c \<notin> set s \<Longrightarrow> split_on c s = [s]"
  by (induction s) auto

lemma split_on_append: "c \<notin> set s \<Longrightarrow> split_on c (s @ c # t) = s # split_on c t"
  by (induction s) auto

lemma split_on_join:
  "ss \<noteq> [] \<Longrightarrow> \<forall>s\<in>set ss. c \<notin> set s \<Longrightarrow> split_on c (join_with c ss) = ss"
  by (induction c ss rule: join_with.induct) (auto simp: split_on_plain split_on_append)

end
