(* ===== verification/C_Library.thy ===== *)
theory C_Library
  imports Prelude
begin

text \<open>
  What the program uses of the C language and its standard library: NUL-terminated
  strings, \<open>memchr\<close>, \<open>strstr\<close>, \<open>strtol\<close>/\<open>strtoull\<close>, decimal printing, and the allocator.

  A C string is the list of its bytes without the terminating NUL. A buffer that may hold a
  NUL in the middle is seen by every string function as \<open>c_str\<close>: the part before the
  first NUL.

  The allocator is a script of outcomes (one per call, an exhausted script means success)
  together with the number of blocks that are live, so that both the out-of-memory branches
  and the release of every block are part of the model. The count is an \<open>int\<close>: a block
  released twice shows as a wrong count instead of stopping at zero.
\<close>

section \<open>Strings and memory\<close>

definition c_str :: "bytes \<Rightarrow> string" where
  "c_str bs = takeWhile (\<lambda>c. c \<noteq> NUL) bs"

fun memchr :: "char \<Rightarrow> bytes \<Rightarrow> nat option" where
  "memchr c [] = None"
| "memchr c (x # xs) = (if x = c then Some 0 else map_option Suc (memchr c xs))"

fun strstr :: "string \<Rightarrow> string \<Rightarrow> bool" where
  "strstr [] pat = (pat = [])"
| "strstr (x # xs) pat = (prefix pat (x # xs) \<or> strstr xs pat)"

section \<open>Decimal numbers\<close>

definition is_digit :: "char \<Rightarrow> bool" where
  "is_digit c = (48 \<le> code c \<and> code c \<le> 57)"

definition is_space :: "char \<Rightarrow> bool" where
  "is_space c = (code c = 32 \<or> (9 \<le> code c \<and> code c \<le> 13))"

fun dec_value :: "nat \<Rightarrow> string \<Rightarrow> nat" where
  "dec_value acc [] = acc"
| "dec_value acc (c # cs) = dec_value (10 * acc + (code c - 48)) cs"

definition ULLONG_MAX :: nat where "ULLONG_MAX = 2 ^ 64 - 1"
definition SIZE_MAX :: nat where "SIZE_MAX = 2 ^ 64 - 1"
definition LONG_MAX :: int where "LONG_MAX = 2 ^ 63 - 1"
definition LONG_MIN :: int where "LONG_MIN = - (2 ^ 63)"

text \<open>
  The sign and the digits both conversions read after white space: \<open>(negative, digits,
  rest)\<close>.
\<close>

definition scan_integer :: "string \<Rightarrow> bool \<times> string \<times> string" where
  "scan_integer s =
     (let s1 = dropWhile is_space s;
          neg = (s1 \<noteq> [] \<and> hd s1 = CHR ''-'');
          s2 = (if s1 \<noteq> [] \<and> (hd s1 = CHR ''-'' \<or> hd s1 = CHR ''+'') then tl s1 else s1)
      in (neg, takeWhile is_digit s2, dropWhile is_digit s2))"

text \<open>
  \<open>strtoull (value, end, 10)\<close>: the number, what \<open>end\<close> points to and whether \<open>errno\<close> was
  set to \<open>ERANGE\<close>. Without digits \<open>end\<close> is the start of the string.
\<close>

definition strtoull :: "string \<Rightarrow> nat \<times> string \<times> bool" where
  "strtoull s = (case scan_integer s of (neg, ds, rest) \<Rightarrow>
     let v = dec_value 0 ds in
     if ds = [] then (0, s, False)
     else if ULLONG_MAX < v then (ULLONG_MAX, rest, True)
     else if neg then ((2 ^ 64 - v) mod 2 ^ 64, rest, False)
     else (v, rest, False))"

definition strtol :: "string \<Rightarrow> int \<times> string \<times> bool" where
  "strtol s = (case scan_integer s of (neg, ds, rest) \<Rightarrow>
     let v = (if neg then - int (dec_value 0 ds) else int (dec_value 0 ds)) in
     if ds = [] then (0, s, False)
     else if LONG_MAX < v then (LONG_MAX, rest, True)
     else if v < LONG_MIN then (LONG_MIN, rest, True)
     else (v, rest, False))"

text \<open>The decimal conversions of \<open>printf\<close>: \<open>%zu\<close>, \<open>%llu\<close> and \<open>%d\<close>.\<close>

fun print_nat :: "nat \<Rightarrow> string" where
  "print_nat n = (if n < 10 then [char_of (48 + n)]
                  else print_nat (n div 10) @ [char_of (48 + n mod 10)])"

declare print_nat.simps [simp del]

definition print_int :: "int \<Rightarrow> string" where
  "print_int i = (if i < 0 then CHR ''-'' # print_nat (nat (- i)) else print_nat (nat i))"

section \<open>The allocator\<close>

record heap =
  outcomes :: "bool list"
  live :: int

definition malloc :: "heap \<Rightarrow> bool \<times> heap" where
  "malloc h = (case outcomes h of
       [] \<Rightarrow> (True, h\<lparr>live := live h + 1\<rparr>)
     | b # bs \<Rightarrow> if b then (True, h\<lparr>outcomes := bs, live := live h + 1\<rparr>)
                 else (False, h\<lparr>outcomes := bs\<rparr>))"

text \<open>\<open>realloc\<close> of a pointer that is NULL or not: on failure the old block stays.\<close>

definition realloc :: "bool \<Rightarrow> heap \<Rightarrow> bool \<times> heap" where
  "realloc is_null h = (let (ok, h') = malloc h in
     if ok \<and> \<not> is_null then (True, h'\<lparr>live := live h' - 1\<rparr>) else (ok, h'))"

definition c_free :: "'a option \<Rightarrow> heap \<Rightarrow> heap" where
  "c_free p h = (case p of None \<Rightarrow> h | Some _ \<Rightarrow> h\<lparr>live := live h - 1\<rparr>)"

definition blocks :: "'a option \<Rightarrow> int" where
  "blocks p = (case p of None \<Rightarrow> 0 | Some _ \<Rightarrow> 1)"

text \<open>An allocator that refuses no request any more.\<close>

definition never_fails :: "heap \<Rightarrow> bool" where
  "never_fails h = (\<forall>b\<in>set (outcomes h). b)"

section \<open>Facts\<close>

lemma c_str_Nil [simp]: "c_str [] = []"
  by (simp add: c_str_def)

lemma c_str_id [simp]: "NUL \<notin> set bs \<Longrightarrow> c_str bs = bs"
  by (auto simp: c_str_def intro: takeWhile_eq_all_conv [THEN iffD2])

lemma NUL_notin_c_str [simp]: "NUL \<notin> set (c_str bs)"
  by (auto simp: c_str_def dest: set_takeWhileD)

lemma set_c_str: "set (c_str bs) \<subseteq> set bs"
  by (auto simp: c_str_def dest: set_takeWhileD)

lemma memchr_None_iff: "memchr c xs = None \<longleftrightarrow> c \<notin> set xs"
  by (induction xs) auto

lemma memchr_Some_iff:
  "memchr c xs = Some i \<longleftrightarrow> i < length xs \<and> xs ! i = c \<and> c \<notin> set (take i xs)"
proof (induction xs arbitrary: i)
  case Nil
  then show ?case by simp
next
  case (Cons x xs)
  then show ?case by (cases i) auto
qed

lemma memchr_append_notin:
  "c \<notin> set xs \<Longrightarrow> memchr c (xs @ ys) = map_option (\<lambda>i. length xs + i) (memchr c ys)"
  by (cases "memchr c ys"; induction xs) auto

lemma memchr_append_Cons [simp]: "c \<notin> set xs \<Longrightarrow> memchr c (xs @ c # ys) = Some (length xs)"
  by (simp add: memchr_append_notin)

lemma memchr_append_Some: "memchr c xs = Some i \<Longrightarrow> memchr c (xs @ ys) = Some i"
  by (auto simp: memchr_Some_iff nth_append)

lemma memchr_split:
  assumes "memchr c xs = Some i"
  shows "xs = take i xs @ c # drop (Suc i) xs"
  using assms by (auto simp: memchr_Some_iff id_take_nth_drop)

lemma is_digit_char_of [simp]: "(n::nat) < 10 \<Longrightarrow> is_digit (char_of (48 + n))"
  by (simp add: is_digit_def)

lemma dec_value_append: "dec_value acc (xs @ ys) = dec_value (dec_value acc xs) ys"
  by (induction xs arbitrary: acc) auto

lemma print_nat_digits: "\<forall>c\<in>set (print_nat n). is_digit c"
proof (induction n rule: print_nat.induct)
  case (1 n)
  then show ?case
    by (subst print_nat.simps) (auto)
qed

lemma print_nat_nonempty [simp]: "print_nat n \<noteq> []"
  by (subst print_nat.simps) simp

lemma dec_value_print_nat: "dec_value 0 (print_nat n) = n"
proof (induction n rule: print_nat.induct)
  case (1 n)
  show ?case
  proof (cases "n < 10")
    case True
    then show ?thesis by (subst print_nat.simps) simp
  next
    case False
    with "1.IH" have "dec_value 0 (print_nat (n div 10)) = n div 10" by blast
    with False show ?thesis by (subst print_nat.simps) (simp add: dec_value_append)
  qed
qed

text \<open>On a string of digits both conversions read the whole string.\<close>

lemma scan_integer_digits:
  assumes "\<forall>c\<in>set s. is_digit c"
  shows "scan_integer s = (False, s, [])"
proof (cases s)
  case Nil
  then show ?thesis by (simp add: scan_integer_def)
next
  case (Cons a s')
  with assms have a: "is_digit a" and s': "\<forall>c\<in>set s'. is_digit c" by simp_all
  from a have "\<not> is_space a" by (simp add: is_digit_def is_space_def)
  moreover have "a \<noteq> CHR ''-''" and "a \<noteq> CHR ''+''"
    using a by (auto simp: is_digit_def)
  moreover have "takeWhile is_digit s = s" and "dropWhile is_digit s = []"
    using assms by (simp_all)
  ultimately show ?thesis
    unfolding scan_integer_def Cons Let_def by simp
qed

lemma strtoull_digits:
  assumes "\<forall>c\<in>set s. is_digit c" and "s \<noteq> []"
  shows "strtoull s = (if ULLONG_MAX < dec_value 0 s then (ULLONG_MAX, [], True)
                       else (dec_value 0 s, [], False))"
  unfolding strtoull_def scan_integer_digits [OF assms(1)] using assms(2) by (simp add: Let_def)

subsection \<open>Allocation\<close>

lemma malloc_live [heap_simps]:
  "malloc h = (ok, h') \<Longrightarrow> live h' = live h + (if ok then 1 else 0)"
  by (auto simp: malloc_def split: list.splits if_splits)

lemma realloc_live [heap_simps]:
  "realloc is_null h = (ok, h') \<Longrightarrow> live h' = live h + (if ok \<and> is_null then 1 else 0)"
  by (auto simp: realloc_def malloc_def split: list.splits if_splits prod.splits)

lemma c_free_live [simp]: "live (c_free p h) = live h - blocks p"
  by (simp add: c_free_def blocks_def split: option.splits)

lemma c_free_outcomes [simp]: "outcomes (c_free p h) = outcomes h"
  by (simp add: c_free_def split: option.splits)

lemma blocks_simps [simp]: "blocks None = 0" "blocks (Some x) = 1"
  by (simp_all add: blocks_def)

lemma never_fails_malloc:
  "never_fails h \<Longrightarrow> malloc h = (ok, h') \<Longrightarrow> ok \<and> never_fails h'"
  by (auto simp: malloc_def never_fails_def split: list.splits if_splits)

lemma never_fails_realloc:
  "never_fails h \<Longrightarrow> realloc n h = (ok, h') \<Longrightarrow> ok \<and> never_fails h'"
  by (auto simp: realloc_def malloc_def never_fails_def split: list.splits if_splits prod.splits)

lemma never_fails_c_free [simp]: "never_fails (c_free p h) = never_fails h"
  by (simp add: never_fails_def)

end
