(* ===== verification/Http_Limits.thy ===== *)
theory Http_Limits
  imports C_Library
begin

text \<open>The bounds of \<^verbatim>\<open>include/http_limits.h\<close>.\<close>

definition HTTP_MAX_REQUEST_LINE :: nat where "HTTP_MAX_REQUEST_LINE = 8192"
definition HTTP_MAX_HEADER_BYTES :: nat where "HTTP_MAX_HEADER_BYTES = 32768"
definition HTTP_MAX_HEADERS :: nat where "HTTP_MAX_HEADERS = 100"
definition HTTP_MAX_BODY_SIZE :: nat where "HTTP_MAX_BODY_SIZE = 1024 * 1024"
definition HTTP_MAX_MESSAGE_BYTES :: nat where
  "HTTP_MAX_MESSAGE_BYTES = HTTP_MAX_HEADER_BYTES + HTTP_MAX_BODY_SIZE"
definition HTTP_MAX_REQUESTS_PER_CONNECTION :: nat where
  "HTTP_MAX_REQUESTS_PER_CONNECTION = 100"
definition HTTP_MAX_STATIC_FILE_SIZE :: nat where
  "HTTP_MAX_STATIC_FILE_SIZE = 64 * 1024 * 1024"

lemmas http_limits = HTTP_MAX_REQUEST_LINE_def HTTP_MAX_HEADER_BYTES_def HTTP_MAX_HEADERS_def
  HTTP_MAX_BODY_SIZE_def HTTP_MAX_MESSAGE_BYTES_def HTTP_MAX_REQUESTS_PER_CONNECTION_def
  HTTP_MAX_STATIC_FILE_SIZE_def

end
