(* ===== verification/Http_Request.thy ===== *)
theory Http_Request
  imports Http_Limits
begin

text \<open>
  \<^verbatim>\<open>include/http_request.h\<close> and \<^verbatim>\<open>src/http_request.c\<close>: the parsed request, its
  construction and release, the method names and the case-insensitive header lookup.

  A pointer that may be NULL is an \<open>option\<close>. The header array together with
  \<open>header_count\<close> is \<open>rq_headers\<close>: \<open>None\<close> is the NULL array, \<open>Some hs\<close> an
  allocated array whose first \<open>header_count = length hs\<close> entries are in use.

  The locale \<open>ascii_ci\<close> is the contract of every case-insensitive comparison of the
  program. The code has five copies of that comparison (in \<^verbatim>\<open>http_request.c\<close>,
  \<^verbatim>\<open>http_parser.c\<close>, \<^verbatim>\<open>http_response.c\<close>, \<^verbatim>\<open>http_connection.c\<close> and
  \<^verbatim>\<open>mime.c\<close>); each is interpreted in the theory of its file.
\<close>

section \<open>Definitions\<close>

datatype http_method_t =
  HTTP_METHOD_GET | HTTP_METHOD_HEAD | HTTP_METHOD_POST | HTTP_METHOD_UNKNOWN

record http_header_t =
  hd_name :: string
  hd_value :: string

record http_request_t =
  rq_method :: http_method_t
  rq_target :: "string option"
  rq_version :: "string option"
  rq_headers :: "http_header_t list option"
  rq_body :: "bytes option"
  rq_body_length :: nat

definition http_request_init :: http_request_t where
  "http_request_init = \<lparr>rq_method = HTTP_METHOD_UNKNOWN, rq_target = None, rq_version = None,
     rq_headers = None, rq_body = None, rq_body_length = 0\<rparr>"

text \<open>The entries of a header array that are in use, and their release.\<close>

definition header_list :: "http_header_t list option \<Rightarrow> http_header_t list" where
  "header_list hs = (case hs of None \<Rightarrow> [] | Some xs \<Rightarrow> xs)"

fun free_header_entries :: "http_header_t list \<Rightarrow> heap \<Rightarrow> heap" where
  "free_header_entries [] h = h"
| "free_header_entries (x # xs) h =
     free_header_entries xs (c_free (Some (hd_value x)) (c_free (Some (hd_name x)) h))"

definition free_headers :: "http_header_t list option \<Rightarrow> heap \<Rightarrow> heap" where
  "free_headers hs h = (case hs of None \<Rightarrow> h
     | Some xs \<Rightarrow> c_free (Some xs) (free_header_entries xs h))"

definition http_request_destroy :: "http_request_t \<Rightarrow> heap \<Rightarrow> http_request_t \<times> heap" where
  "http_request_destroy request h =
     (let h1 = c_free (rq_version request) (c_free (rq_target request) h);
          h2 = free_headers (rq_headers request) h1;
          h3 = c_free (rq_body request) h2
      in (http_request_init, h3))"

fun http_method_to_string :: "http_method_t \<Rightarrow> string" where
  "http_method_to_string HTTP_METHOD_GET = ''GET''"
| "http_method_to_string HTTP_METHOD_HEAD = ''HEAD''"
| "http_method_to_string HTTP_METHOD_POST = ''POST''"
| "http_method_to_string HTTP_METHOD_UNKNOWN = ''UNKNOWN''"

definition http_method_from_string :: "string option \<Rightarrow> http_method_t" where
  "http_method_from_string s = (case s of None \<Rightarrow> HTTP_METHOD_UNKNOWN
     | Some m \<Rightarrow> if m = ''GET'' then HTTP_METHOD_GET
                 else if m = ''HEAD'' then HTTP_METHOD_HEAD
                 else if m = ''POST'' then HTTP_METHOD_POST
                 else HTTP_METHOD_UNKNOWN)"

definition ascii_tolower :: "char \<Rightarrow> nat" where
  "ascii_tolower c = (if 65 \<le> code c \<and> code c \<le> 90 then code c - 65 + 97 else code c)"

fun header_name_equal :: "string \<Rightarrow> string \<Rightarrow> bool" where
  "header_name_equal (a # as) (b # bs) =
     (if ascii_tolower a \<noteq> ascii_tolower b then False else header_name_equal as bs)"
| "header_name_equal as bs = (as = [] \<and> bs = [])"

fun find_header :: "http_header_t list \<Rightarrow> string \<Rightarrow> string option" where
  "find_header [] name = None"
| "find_header (x # xs) name =
     (if header_name_equal (hd_name x) name then Some (hd_value x) else find_header xs name)"

definition http_request_get_header :: "http_request_t \<Rightarrow> string \<Rightarrow> string option" where
  "http_request_get_header request name = find_header (header_list (rq_headers request)) name"

text \<open>The heap blocks a request owns.\<close>

definition header_blocks :: "http_header_t list option \<Rightarrow> int" where
  "header_blocks hs = (case hs of None \<Rightarrow> 0 | Some xs \<Rightarrow> 1 + 2 * int (length xs))"

definition request_blocks :: "http_request_t \<Rightarrow> int" where
  "request_blocks r = blocks (rq_target r) + blocks (rq_version r)
     + header_blocks (rq_headers r) + blocks (rq_body r)"

section \<open>Case-insensitive comparison\<close>

abbreviation lower :: "string \<Rightarrow> nat list" where
  "lower s \<equiv> map ascii_tolower s"

locale ascii_ci =
  fixes eq :: "string \<Rightarrow> string \<Rightarrow> bool"
  assumes eq_lower: "eq a b \<longleftrightarrow> lower a = lower b"
begin

lemma refl: "eq a a"
  by (simp add: eq_lower)

lemma sym: "eq a b \<longleftrightarrow> eq b a"
  by (auto simp: eq_lower)

lemma trans: "eq a b \<Longrightarrow> eq b c \<Longrightarrow> eq a c"
  by (simp add: eq_lower)

lemma same_length: "eq a b \<Longrightarrow> length a = length b"
  by (metis eq_lower length_map)

lemma congr: "eq a b \<Longrightarrow> eq a c \<longleftrightarrow> eq b c"
  by (simp add: eq_lower)

end

lemma header_name_equal_lower: "header_name_equal a b \<longleftrightarrow> lower a = lower b"
  by (induction a b rule: header_name_equal.induct) auto

interpretation rq_ci: ascii_ci header_name_equal
  by unfold_locales (rule header_name_equal_lower)

section \<open>Lookup\<close>

lemma find_header_None_iff:
  "find_header hs name = None \<longleftrightarrow> (\<forall>x\<in>set hs. \<not> header_name_equal (hd_name x) name)"
  by (induction hs) auto

lemma find_header_SomeD:
  "find_header hs name = Some v \<Longrightarrow>
     \<exists>x\<in>set hs. hd_value x = v \<and> header_name_equal (hd_name x) name"
  by (induction hs) (auto split: if_splits)

lemma find_header_append:
  "find_header (xs @ ys) name =
     (case find_header xs name of None \<Rightarrow> find_header ys name | Some v \<Rightarrow> Some v)"
  by (induction xs) auto

section \<open>Release\<close>

lemma free_header_entries_live [heap_simps]:
  "live (free_header_entries xs h) = live h - 2 * int (length xs)"
  by (induction xs arbitrary: h) auto

lemma free_header_entries_outcomes [simp]:
  "outcomes (free_header_entries xs h) = outcomes h"
  by (induction xs arbitrary: h) auto

lemma free_headers_live [heap_simps]: "live (free_headers hs h) = live h - header_blocks hs"
  by (simp add: free_headers_def header_blocks_def heap_simps split: option.splits)

lemma free_headers_outcomes [simp]: "outcomes (free_headers hs h) = outcomes h"
  by (simp add: free_headers_def split: option.splits)

lemma http_request_destroy_live:
  "http_request_destroy r h = (r', h') \<Longrightarrow>
     r' = http_request_init \<and> live h' = live h - request_blocks r \<and> outcomes h' = outcomes h"
  by (auto simp: http_request_destroy_def request_blocks_def heap_simps)

lemma request_blocks_init [simp]: "request_blocks http_request_init = 0"
  by (simp add: request_blocks_def http_request_init_def header_blocks_def)

end
