(* ===== verification/Http_Parser.thy ===== *)
theory Http_Parser
  imports Http_Request
begin

text \<open>
  \<^verbatim>\<open>src/http_parser.c\<close>: the syntax of one framed request. Cursors into the message are
  modelled by the bytes that are left between the cursor and the end; the out parameters
  are results. \<open>Inl e\<close> is a return of the error code \<open>e\<close>, \<open>Inr v\<close> a return of
  \<open>HTTP_PARSE_OK\<close> with \<open>v\<close> written through the out parameter.
\<close>

section \<open>Definitions\<close>

datatype http_parse_result_t =
    HTTP_PARSE_OK
  | HTTP_PARSE_BAD_REQUEST
  | HTTP_PARSE_UNSUPPORTED_METHOD
  | HTTP_PARSE_UNSUPPORTED_VERSION
  | HTTP_PARSE_TOO_LARGE
  | HTTP_PARSE_TOO_MANY_HEADERS
  | HTTP_PARSE_INVALID_CONTENT_LENGTH
  | HTTP_PARSE_UNSUPPORTED_TRANSFER_ENCODING
  | HTTP_PARSE_OUT_OF_MEMORY

definition is_token_char :: "char \<Rightarrow> bool" where
  "is_token_char c =
     (if (65 \<le> code c \<and> code c \<le> 90) \<or> (97 \<le> code c \<and> code c \<le> 122)
         \<or> (48 \<le> code c \<and> code c \<le> 57) then True
      else c \<in> set (''!#$%&*+-.^_|~'' @ [CHR 0x27, CHR 0x60]))"

definition is_supported_method_token :: "string \<Rightarrow> bool" where
  "is_supported_method_token m = (m = ''GET'' \<or> m = ''HEAD'' \<or> m = ''POST'')"

definition is_known_unsupported_method :: "string \<Rightarrow> bool" where
  "is_known_unsupported_method m =
     (if list_ex (\<lambda>k. m = k)
           [''PUT'', ''DELETE'', ''PATCH'', ''OPTIONS'', ''TRACE'', ''CONNECT'', ''PRI'']
      then True else True)"

definition method_token_is_well_formed :: "string \<Rightarrow> bool" where
  "method_token_is_well_formed m = (if m = [] then False else list_all is_token_char m)"

fun header_name_equal_parser :: "string \<Rightarrow> string \<Rightarrow> bool" where
  "header_name_equal_parser (a # as) (b # bs) =
     (if ascii_tolower a \<noteq> ascii_tolower b then False else header_name_equal_parser as bs)"
| "header_name_equal_parser as bs = (as = [] \<and> bs = [])"

definition dup_range :: "bytes \<Rightarrow> heap \<Rightarrow> string option \<times> heap" where
  "dup_range bs h = (let (ok, h') = malloc h in (if ok then Some (c_str bs) else None, h'))"

definition is_ows :: "char \<Rightarrow> bool" where
  "is_ows c = (c = SP \<or> c = HTAB)"

definition skip_ows :: "bytes \<Rightarrow> bytes" where
  "skip_ows bs = dropWhile is_ows bs"

definition trim_ows_end :: "bytes \<Rightarrow> bytes" where
  "trim_ows_end bs = rev (dropWhile is_ows (rev bs))"

text \<open>\<open>None\<close> is the return value \<open>(size_t)-1\<close>.\<close>

fun http_find_header_terminator :: "bytes \<Rightarrow> nat option" where
  "http_find_header_terminator (a # b # c # d # rest) =
     (if a = CR \<and> b = LF \<and> c = CR \<and> d = LF then Some 0
      else map_option Suc (http_find_header_terminator (b # c # d # rest)))"
| "http_find_header_terminator _ = None"

definition http_parse_content_length_value :: "string \<Rightarrow> http_parse_result_t + nat" where
  "http_parse_content_length_value s =
     (if s = [] then Inl HTTP_PARSE_INVALID_CONTENT_LENGTH
      else if \<not> list_all is_digit s then Inl HTTP_PARSE_INVALID_CONTENT_LENGTH
      else case strtoull s of (parsed, end, erange) \<Rightarrow>
        if end = s \<or> end \<noteq> [] \<or> erange then Inl HTTP_PARSE_INVALID_CONTENT_LENGTH
        else if HTTP_MAX_BODY_SIZE < parsed then Inl HTTP_PARSE_TOO_LARGE
        else Inr parsed)"

text \<open>
  The line-splitting step that the framing inspection and the parser share: \<open>memchr\<close> for
  the line feed, then the checks \<open>line_end == NULL\<close>, \<open>line_end == cursor\<close> and
  \<open>line_end[-1] != '\r'\<close>. The result is the line without its CRLF and the bytes from the
  next cursor position on.
\<close>

definition crlf_line :: "bytes \<Rightarrow> (bytes \<times> bytes) option" where
  "crlf_line rest = (case memchr LF rest of None \<Rightarrow> None
     | Some i \<Rightarrow> if i = 0 \<or> rest ! (i - 1) \<noteq> CR then None
                 else Some (take (i - 1) rest, drop (Suc i) rest))"

text \<open>The field-splitting step of a header line at its first colon: name and raw value.\<close>

definition colon_split :: "bytes \<Rightarrow> (bytes \<times> bytes) option" where
  "colon_split line = (case memchr (CHR '':'') line of None \<Rightarrow> None
     | Some j \<Rightarrow> if j = 0 then None
                 else Some (take j line, trim_ows_end (skip_ows (drop (Suc j) line))))"

lemma crlf_line_shorter: "crlf_line rest = Some (line, rest') \<Longrightarrow> length rest' < length rest"
  by (auto simp: crlf_line_def memchr_Some_iff split: option.splits if_splits)

text \<open>
  The local variables of the framing loop, its body for one header line (copies of name and
  value, both released before the next turn) and the loop itself.
\<close>

record framing =
  saw_content_length :: bool
  content_length :: nat
  saw_chunked :: bool

definition framing_init :: framing where
  "framing_init = \<lparr>saw_content_length = False, content_length = 0, saw_chunked = False\<rparr>"

definition inspect_header_line ::
  "bytes \<Rightarrow> framing \<Rightarrow> heap \<Rightarrow> (http_parse_result_t + framing) \<times> heap" where
  "inspect_header_line line st h =
     (case colon_split line of None \<Rightarrow> (Inl HTTP_PARSE_BAD_REQUEST, h)
      | Some (name_bytes, value_bytes) \<Rightarrow>
       (case dup_range name_bytes h of (None, h1) \<Rightarrow> (Inl HTTP_PARSE_OUT_OF_MEMORY, h1)
        | (Some name, h1) \<Rightarrow>
         (case dup_range value_bytes h1 of
            (None, h2) \<Rightarrow> (Inl HTTP_PARSE_OUT_OF_MEMORY, c_free (Some name) h2)
          | (Some value, h2) \<Rightarrow>
             let h3 = c_free (Some value) (c_free (Some name) h2) in
             if header_name_equal_parser name ''Transfer-Encoding'' then
               if header_name_equal_parser value ''chunked'' \<or> strstr value ''chunked''
               then (Inr (st\<lparr>saw_chunked := True\<rparr>), h3)
               else (Inl HTTP_PARSE_UNSUPPORTED_TRANSFER_ENCODING, h3)
             else if header_name_equal_parser name ''Content-Length'' then
               (case http_parse_content_length_value value of
                  Inl e \<Rightarrow> (Inl e, h3)
                | Inr parsed \<Rightarrow>
                    if saw_content_length st
                    then (Inl HTTP_PARSE_INVALID_CONTENT_LENGTH, h3)
                    else (Inr (st\<lparr>saw_content_length := True, content_length := parsed\<rparr>), h3))
             else (Inr st, h3))))"

function inspect_headers ::
  "bytes \<Rightarrow> framing \<Rightarrow> heap \<Rightarrow> (http_parse_result_t + framing) \<times> heap" where
  "inspect_headers rest st h =
     (if rest = [] then (Inr st, h)
      else if 1 < length rest \<and> rest ! 0 = CR \<and> rest ! 1 = LF then (Inr st, h)
      else case crlf_line rest of None \<Rightarrow> (Inl HTTP_PARSE_BAD_REQUEST, h)
      | Some (line, next) \<Rightarrow>
        (case inspect_header_line line st h of
           (Inl e, h') \<Rightarrow> (Inl e, h')
         | (Inr st', h') \<Rightarrow> inspect_headers next st' h'))"
  by pat_completeness auto
termination
  by (relation "measure (\<lambda>(rest, _). length rest)") (auto dest: crlf_line_shorter)

declare inspect_headers.simps [simp del]

definition http_inspect_message_framing ::
  "bytes \<Rightarrow> nat \<Rightarrow> heap \<Rightarrow> (http_parse_result_t + nat) \<times> heap" where
  "http_inspect_message_framing data header_length h =
     (let sect = take header_length data in
      if header_length < 4 then (Inl HTTP_PARSE_BAD_REQUEST, h)
      else if drop (header_length - 4) sect \<noteq> CRLF @ CRLF then (Inl HTTP_PARSE_BAD_REQUEST, h)
      else case crlf_line sect of None \<Rightarrow> (Inl HTTP_PARSE_BAD_REQUEST, h)
      | Some (_, rest) \<Rightarrow>
        (case inspect_headers rest framing_init h of
           (Inl e, h') \<Rightarrow> (Inl e, h')
         | (Inr st, h') \<Rightarrow>
             if saw_chunked st then (Inl HTTP_PARSE_UNSUPPORTED_TRANSFER_ENCODING, h')
             else (Inr (if saw_content_length st then content_length st else 0), h')))"

definition version_is_http_like :: "string \<Rightarrow> bool" where
  "version_is_http_like v = (take 5 v = ''HTTP/'' \<and> 5 < length v
     \<and> list_all (\<lambda>c. is_digit c \<or> c = CHR ''.'') (drop 5 v))"

definition parse_request_line ::
  "bytes \<Rightarrow> http_request_t \<Rightarrow> heap \<Rightarrow> http_parse_result_t \<times> http_request_t \<times> heap" where
  "parse_request_line line request h =
     (if line = [] \<or> HTTP_MAX_REQUEST_LINE < length line
      then (if HTTP_MAX_REQUEST_LINE < length line then HTTP_PARSE_TOO_LARGE
            else HTTP_PARSE_BAD_REQUEST, request, h)
      else case memchr SP line of None \<Rightarrow> (HTTP_PARSE_BAD_REQUEST, request, h)
      | Some method_len \<Rightarrow>
        if method_len = 0 then (HTTP_PARSE_BAD_REQUEST, request, h)
        else if NUL \<in> set (take method_len line) then (HTTP_PARSE_BAD_REQUEST, request, h)
        else (case dup_range (take method_len line) h of
          (None, h1) \<Rightarrow> (HTTP_PARSE_OUT_OF_MEMORY, request, h1)
        | (Some method, h1) \<Rightarrow>
          let after_method = drop (Suc method_len) line; h2 = c_free (Some method) h1 in
          if \<not> method_token_is_well_formed method then (HTTP_PARSE_BAD_REQUEST, request, h2)
          else if after_method = [] \<or> hd after_method = SP
          then (HTTP_PARSE_BAD_REQUEST, request, h2)
          else (case memchr SP after_method of None \<Rightarrow> (HTTP_PARSE_BAD_REQUEST, request, h2)
          | Some target_len \<Rightarrow>
            let target_bytes = take target_len after_method;
                version_bytes = drop (Suc target_len) after_method in
            if target_len = 0 then (HTTP_PARSE_BAD_REQUEST, request, h2)
            else if version_bytes = [] \<or> SP \<in> set version_bytes
            then (HTTP_PARSE_BAD_REQUEST, request, h2)
            else if NUL \<in> set target_bytes \<or> NUL \<in> set version_bytes
            then (HTTP_PARSE_BAD_REQUEST, request, h2)
            else if \<not> is_supported_method_token method
            then (if is_known_unsupported_method method then HTTP_PARSE_UNSUPPORTED_METHOD
                  else HTTP_PARSE_BAD_REQUEST, request, h2)
            else
              let (target, h3) = dup_range target_bytes h2;
                  (version, h4) = dup_range version_bytes h3;
                  request' = request\<lparr>rq_method := http_method_from_string (Some method),
                               rq_target := target, rq_version := version\<rparr>
              in (case (target, version) of
                (Some _, Some v) \<Rightarrow>
                  if v = ''HTTP/1.0'' \<or> v = ''HTTP/1.1'' then (HTTP_PARSE_OK, request', h4)
                  else if version_is_http_like v
                  then (HTTP_PARSE_UNSUPPORTED_VERSION, request', h4)
                  else (HTTP_PARSE_BAD_REQUEST, request', h4)
              | _ \<Rightarrow> (HTTP_PARSE_OUT_OF_MEMORY, request', h4)))))"

definition append_header ::
  "http_request_t \<Rightarrow> string \<Rightarrow> string \<Rightarrow> heap \<Rightarrow> http_parse_result_t \<times> http_request_t \<times> heap" where
  "append_header request name value h =
     (if HTTP_MAX_HEADERS \<le> length (header_list (rq_headers request))
      then (HTTP_PARSE_TOO_MANY_HEADERS, request, c_free (Some value) (c_free (Some name) h))
      else case realloc (rq_headers request = None) h of (grown, h1) \<Rightarrow>
        if \<not> grown
        then (HTTP_PARSE_OUT_OF_MEMORY, request, c_free (Some value) (c_free (Some name) h1))
        else (HTTP_PARSE_OK,
              request\<lparr>rq_headers := Some (header_list (rq_headers request)
                                          @ [\<lparr>hd_name = name, hd_value = value\<rparr>])\<rparr>, h1))"

definition parse_header_line ::
  "bytes \<Rightarrow> http_request_t \<Rightarrow> heap \<Rightarrow> http_parse_result_t \<times> http_request_t \<times> heap" where
  "parse_header_line line request h =
     (if line = [] then (HTTP_PARSE_BAD_REQUEST, request, h)
      else case colon_split line of None \<Rightarrow> (HTTP_PARSE_BAD_REQUEST, request, h)
      | Some (name_bytes, value_bytes) \<Rightarrow>
        if list_ex (\<lambda>c. c = SP \<or> c = HTAB \<or> c = NUL) name_bytes
        then (HTTP_PARSE_BAD_REQUEST, request, h)
        else (case dup_range name_bytes h of
          (None, h1) \<Rightarrow> (HTTP_PARSE_OUT_OF_MEMORY, request, h1)
        | (Some name, h1) \<Rightarrow>
          if NUL \<in> set value_bytes then (HTTP_PARSE_BAD_REQUEST, request, c_free (Some name) h1)
          else (case dup_range value_bytes h1 of
            (None, h2) \<Rightarrow> (HTTP_PARSE_OUT_OF_MEMORY, request, c_free (Some name) h2)
          | (Some value, h2) \<Rightarrow> append_header request name value h2)))"

function parse_headers ::
  "bytes \<Rightarrow> http_request_t \<Rightarrow> heap \<Rightarrow> http_parse_result_t \<times> http_request_t \<times> heap" where
  "parse_headers rest request h =
     (if rest = [] then (HTTP_PARSE_OK, request, h)
      else case crlf_line rest of None \<Rightarrow> (HTTP_PARSE_BAD_REQUEST, request, h)
      | Some (line, next) \<Rightarrow>
        (case parse_header_line line request h of (r, request', h') \<Rightarrow>
           if r \<noteq> HTTP_PARSE_OK then (r, request', h') else parse_headers next request' h'))"
  by pat_completeness auto
termination
  by (relation "measure (\<lambda>(rest, _). length rest)") (auto dest: crlf_line_shorter)

declare parse_headers.simps [simp del]

text \<open>The exit of \<open>http_parse_request\<close> on an error: release what was parsed so far.\<close>

definition parse_fail ::
  "http_parse_result_t \<Rightarrow> http_request_t \<Rightarrow> heap \<Rightarrow> http_parse_result_t \<times> http_request_t \<times> heap"
where
  "parse_fail r request h = (let (request', h') = http_request_destroy request h in (r, request', h'))"

text \<open>
  The last part of \<open>http_parse_request\<close>: the consistency checks on the stored headers and
  the copy of the body.
\<close>

definition finish_request ::
  "bytes \<Rightarrow> nat \<Rightarrow> nat \<Rightarrow> http_request_t \<Rightarrow> heap \<Rightarrow> http_parse_result_t \<times> http_request_t \<times> heap"
where
  "finish_request data header_bytes expected_body request h =
     (let cl = http_request_get_header request ''Content-Length'';
          te = http_request_get_header request ''Transfer-Encoding'' in
      if te \<noteq> None then parse_fail HTTP_PARSE_UNSUPPORTED_TRANSFER_ENCODING request h
      else case (case cl of None \<Rightarrow> Inr 0
                 | Some v \<Rightarrow>
                   if 1 < length (filter (\<lambda>x. header_name_equal_parser (hd_name x) ''Content-Length'')
                                    (header_list (rq_headers request)))
                   then Inl HTTP_PARSE_INVALID_CONTENT_LENGTH
                   else http_parse_content_length_value v) of
        Inl e \<Rightarrow> parse_fail e request h
      | Inr body_length \<Rightarrow>
        if body_length \<noteq> expected_body then parse_fail HTTP_PARSE_BAD_REQUEST request h
        else if 0 < body_length then
          (if body_length = SIZE_MAX then parse_fail HTTP_PARSE_TOO_LARGE request h
           else case malloc h of (ok, h') \<Rightarrow>
             if \<not> ok then parse_fail HTTP_PARSE_OUT_OF_MEMORY request h'
             else (HTTP_PARSE_OK,
                   request\<lparr>rq_body := Some (take body_length (drop header_bytes data)),
                           rq_body_length := body_length\<rparr>, h'))
        else (HTTP_PARSE_OK, request, h))"

definition http_parse_request ::
  "bytes \<Rightarrow> heap \<Rightarrow> http_parse_result_t \<times> http_request_t \<times> heap" where
  "http_parse_request data h =
     (let request = http_request_init in
      if data = [] then (HTTP_PARSE_BAD_REQUEST, request, h)
      else case http_find_header_terminator data of
        None \<Rightarrow> (HTTP_PARSE_BAD_REQUEST, request, h)
      | Some term \<Rightarrow>
        let header_bytes = term + 4 in
        if HTTP_MAX_HEADER_BYTES < header_bytes then (HTTP_PARSE_TOO_LARGE, request, h)
        else (case http_inspect_message_framing data header_bytes h of
          (Inl frame, h1) \<Rightarrow> (frame, request, h1)
        | (Inr expected_body, h1) \<Rightarrow>
          if length data < header_bytes + expected_body
          then (HTTP_PARSE_BAD_REQUEST, request, h1)
          else if header_bytes + expected_body < length data
          then (HTTP_PARSE_BAD_REQUEST, request, h1)
          else (case crlf_line (take (term + 2) data) of
            None \<Rightarrow> parse_fail HTTP_PARSE_BAD_REQUEST request h1
          | Some (line, rest) \<Rightarrow>
            (case parse_request_line line request h1 of (rl, request1, h2) \<Rightarrow>
             if rl \<noteq> HTTP_PARSE_OK then parse_fail rl request1 h2
             else (case parse_headers rest request1 h2 of (hr, request2, h3) \<Rightarrow>
               if hr \<noteq> HTTP_PARSE_OK then parse_fail hr request2 h3
               else finish_request data header_bytes expected_body request2 h3)))))"

section \<open>Scanning steps\<close>

lemma header_name_equal_parser_lower: "header_name_equal_parser a b \<longleftrightarrow> lower a = lower b"
  by (induction a b rule: header_name_equal_parser.induct) auto

interpretation pa_ci: ascii_ci header_name_equal_parser
  by unfold_locales (rule header_name_equal_parser_lower)

lemma header_name_equal_parser_eq: "header_name_equal_parser = header_name_equal"
  by (intro ext) (simp add: rq_ci.eq_lower pa_ci.eq_lower)

lemma crlf_line_CRLF [simp]:
  "LF \<notin> set line \<Longrightarrow> crlf_line (line @ CR # LF # next) = Some (line, next)"
  using memchr_append_Cons [of LF "line @ [CR]" "next"]
  by (simp add: crlf_line_def nth_append)

lemma crlf_lineD:
  assumes "crlf_line rest = Some (line, next)"
  shows "rest = line @ CRLF @ next" and "LF \<notin> set line"
proof -
  from assms obtain i where i: "memchr LF rest = Some i" "i \<noteq> 0" "rest ! (i - 1) = CR"
    and line: "line = take (i - 1) rest" and nxt: "next = drop (Suc i) rest"
    by (auto simp: crlf_line_def split: option.splits if_splits)
  have len: "i < length rest" and notin: "LF \<notin> set (take i rest)"
    using i(1) by (simp_all add: memchr_Some_iff)
  have take_i: "take i rest = line @ [CR]"
    using i(2,3) len line take_Suc_conv_app_nth [of "i - 1" rest] by simp
  show "rest = line @ CRLF @ next"
    using memchr_split [OF i(1)] take_i nxt by simp
  show "LF \<notin> set line"
    using notin take_i by simp
qed

lemma crlf_line_Some_iff:
  "crlf_line rest = Some (line, next) \<longleftrightarrow> rest = line @ CRLF @ next \<and> LF \<notin> set line"
  using crlf_lineD by auto

lemma colon_split_Some_iff:
  "colon_split line = Some (name, value) \<longleftrightarrow>
     (\<exists>raw. line = name @ CHR '':'' # raw \<and> name \<noteq> [] \<and> CHR '':'' \<notin> set name
        \<and> value = trim_ows_end (skip_ows raw))"
proof
  assume "colon_split line = Some (name, value)"
  then obtain j where j: "memchr (CHR '':'') line = Some j" "j \<noteq> 0" "name = take j line"
    "value = trim_ows_end (skip_ows (drop (Suc j) line))"
    by (auto simp: colon_split_def split: option.splits if_splits)
  have "j < length line" and "CHR '':'' \<notin> set name"
    using j(1,3) by (simp_all add: memchr_Some_iff)
  moreover have "line = name @ CHR '':'' # drop (Suc j) line"
    using memchr_split [OF j(1)] j(3) by simp
  ultimately show "\<exists>raw. line = name @ CHR '':'' # raw \<and> name \<noteq> [] \<and> CHR '':'' \<notin> set name
      \<and> value = trim_ows_end (skip_ows raw)"
    using j by (intro exI [of _ "drop (Suc j) line"]) auto
next
  assume "\<exists>raw. line = name @ CHR '':'' # raw \<and> name \<noteq> [] \<and> CHR '':'' \<notin> set name
      \<and> value = trim_ows_end (skip_ows raw)"
  then show "colon_split line = Some (name, value)"
    by (auto simp: colon_split_def)
qed

lemma ows_split:
  "\<exists>before after. raw = before @ trim_ows_end (skip_ows raw) @ after
     \<and> list_all is_ows before \<and> list_all is_ows after"
proof -
  obtain after where a: "skip_ows raw = trim_ows_end (skip_ows raw) @ after" "\<forall>y\<in>set after. is_ows y"
    using dropWhile_rev_suffix [of "skip_ows raw" is_ows] by (auto simp: trim_ows_end_def)
  have "raw = takeWhile is_ows raw @ skip_ows raw"
    by (simp add: skip_ows_def)
  moreover have "list_all is_ows (takeWhile is_ows raw)"
    by (auto simp: list_all_iff dest: set_takeWhileD)
  ultimately show ?thesis
    using a by (metis append.assoc list_all_iff)
qed

lemma set_trim_skip: "set (trim_ows_end (skip_ows raw)) \<subseteq> set raw"
  by (auto simp: trim_ows_end_def skip_ows_def dest!: set_dropWhileD)

text \<open>A value with no blank at either end is unchanged by the trimming.\<close>

definition trimmed :: "string \<Rightarrow> bool" where
  "trimmed v = (v = [] \<or> (\<not> is_ows (hd v) \<and> \<not> is_ows (last v)))"

lemma trim_skip_trimmed [simp]:
  assumes "trimmed v"
  shows "trim_ows_end (skip_ows v) = v"
proof -
  have "skip_ows v = v" and "dropWhile is_ows (rev v) = rev v"
    using assms by (auto simp: trimmed_def skip_ows_def dropWhile_eq_self_iff hd_rev)
  then show ?thesis by (simp add: trim_ows_end_def)
qed

lemma skip_ows_SP [simp]: "skip_ows (SP # v) = skip_ows v"
  by (simp add: skip_ows_def is_ows_def)

lemma trimmed_trim_skip: "trimmed (trim_ows_end (skip_ows raw))"
proof (cases "trim_ows_end (skip_ows raw) = []")
  case True
  then show ?thesis by (simp add: trimmed_def)
next
  case False
  let ?s = "skip_ows raw"
  let ?t = "dropWhile is_ows (rev ?s)"
  have t: "trim_ows_end ?s = rev ?t" and ne: "?t \<noteq> []"
    using False by (simp_all add: trim_ows_end_def)
  obtain ys where "?s = trim_ows_end ?s @ ys"
    using dropWhile_rev_suffix [of ?s is_ows] by (auto simp: trim_ows_end_def)
  then have "hd ?s = hd (trim_ows_end ?s)" and "?s \<noteq> []"
    using False by (metis hd_append2, auto)
  then have "\<not> is_ows (hd (trim_ows_end ?s))"
    using hd_dropWhile unfolding skip_ows_def by metis
  moreover have "\<not> is_ows (last (trim_ows_end ?s))"
    unfolding t using hd_dropWhile [OF ne] by (simp only: last_rev not_False_eq_True)
  ultimately show ?thesis by (simp add: trimmed_def)
qed

lemma dup_range_cases:
  assumes "dup_range bs h = (p, h')"
  shows "p = None \<or> p = Some (c_str bs)" and "live h' = live h + blocks p"
proof -
  obtain ok h1 where m: "malloc h = (ok, h1)" by (cases "malloc h")
  from assms m malloc_live [OF m] show "p = None \<or> p = Some (c_str bs)"
    and "live h' = live h + blocks p"
    by (auto simp: dup_range_def split: if_splits)
qed

lemma dup_range_never_fails:
  assumes "never_fails h" and "dup_range bs h = (p, h')"
  shows "p = Some (c_str bs)" and "never_fails h'"
proof -
  obtain ok h1 where m: "malloc h = (ok, h1)" by (cases "malloc h")
  from never_fails_malloc [OF assms(1) m] assms(2) m
  show "p = Some (c_str bs)" and "never_fails h'"
    by (auto simp: dup_range_def)
qed

section \<open>The end of the header section\<close>

abbreviation at_terminator :: "bytes \<Rightarrow> bool" where
  "at_terminator bs \<equiv> prefix [CR, LF, CR, LF] bs"

lemma at_terminator_length: "at_terminator (drop t data) \<Longrightarrow> t + 4 \<le> length data"
  using prefix_length_le by fastforce

lemma find_terminator_Some_iff:
  "http_find_header_terminator data = Some t \<longleftrightarrow>
     at_terminator (drop t data) \<and> (\<forall>s<t. \<not> at_terminator (drop s data))"
proof (induction data arbitrary: t rule: http_find_header_terminator.induct)
  case (1 a b c d rest)
  show ?case
  proof (cases "a = CR \<and> b = LF \<and> c = CR \<and> d = LF")
    case True
    then show ?thesis by (cases t) auto
  next
    case False
    have "(\<forall>s<Suc t'. \<not> at_terminator (drop s (a # b # c # d # rest))) \<longleftrightarrow>
        (\<forall>s<t'. \<not> at_terminator (drop s (b # c # d # rest)))" for t'
      using False by (simp only: All_less_Suc2) auto
    with False "1.IH" [OF False] show ?thesis by (cases t) auto
  qed
qed (auto dest!: at_terminator_length)

lemma find_terminator_None_iff:
  "http_find_header_terminator data = None \<longleftrightarrow> (\<forall>s. \<not> at_terminator (drop s data))"
proof -
  have "http_find_header_terminator data \<noteq> None" if "at_terminator (drop s data)" for s
  proof -
    define t where "t = (LEAST s. at_terminator (drop s data))"
    have "at_terminator (drop t data)"
      unfolding t_def using that by (rule LeastI)
    moreover have "\<not> at_terminator (drop s' data)" if "s' < t" for s'
      using that not_less_Least unfolding t_def by blast
    ultimately show ?thesis
      using find_terminator_Some_iff [of data t] by simp
  qed
  moreover have "http_find_header_terminator data = None" if "\<forall>s. \<not> at_terminator (drop s data)"
    using that find_terminator_Some_iff by (metis option.exhaust)
  ultimately show ?thesis by blast
qed

text \<open>The terminator found in a prefix of the stream stays the first one.\<close>

lemma find_terminator_append:
  assumes "http_find_header_terminator data = Some t"
  shows "http_find_header_terminator (data @ extra) = Some t"
proof -
  from assms have at: "at_terminator (drop t data)" and before: "\<forall>s<t. \<not> at_terminator (drop s data)"
    by (simp_all add: find_terminator_Some_iff)
  from at have len: "t + 4 \<le> length data" by (rule at_terminator_length)
  have same: "at_terminator (drop s (data @ extra)) \<longleftrightarrow> at_terminator (drop s data)" if "s \<le> t" for s
  proof -
    have "length [CR, LF, CR, LF] \<le> length (drop s data)" and eq: "drop s (data @ extra) = drop s data @ extra"
      using that len by simp_all
    then show ?thesis
      using prefix_length_prefix prefixI unfolding eq by (metis prefix_prefix)
  qed
  show ?thesis
    using at before same by (simp add: find_terminator_Some_iff)
qed

lemma at_terminator_append:
  assumes "t + 4 \<le> length data"
  shows "at_terminator (drop t (data @ extra)) \<longleftrightarrow> at_terminator (drop t data)"
proof -
  have eq: "drop t (data @ extra) = drop t data @ extra" using assms by simp
  have "length [CR, LF, CR, LF] \<le> length (drop t data)" using assms by simp
  then show ?thesis
    unfolding eq using prefix_length_prefix prefixI by (metis prefix_prefix)
qed

lemma find_terminator_take:
  assumes "http_find_header_terminator data = Some t" and "t + 4 \<le> n"
  shows "http_find_header_terminator (take n data) = Some t"
proof -
  have at: "at_terminator (drop t data)" and before: "\<forall>s<t. \<not> at_terminator (drop s data)"
    using assms(1) by (simp_all add: find_terminator_Some_iff)
  have "t + 4 \<le> length (take n data)" using at_terminator_length [OF at] assms(2) by simp
  then have "at_terminator (drop s (take n data)) \<longleftrightarrow> at_terminator (drop s data)" if "s \<le> t" for s
    using at_terminator_append [of s "take n data" "drop n data"] that by simp
  with at before show ?thesis by (simp add: find_terminator_Some_iff)
qed

section \<open>The two loops over header lines\<close>

text \<open>
  Both loops advance by \<open>crlf_line\<close>; this rule is the induction over the lines that are
  left, and the equations below are their turns.
\<close>

lemma crlf_lines_induct [case_names Stop Line]:
  assumes "\<And>rest. crlf_line rest = None \<Longrightarrow> P rest"
    and "\<And>rest line next. crlf_line rest = Some (line, next) \<Longrightarrow> P next \<Longrightarrow> P rest"
  shows "P rest"
proof (induction rest rule: length_induct)
  case (1 rest)
  show ?case
  proof (cases "crlf_line rest")
    case None
    then show ?thesis by (rule assms(1))
  next
    case (Some lr)
    then obtain line nxt where lr: "crlf_line rest = Some (line, nxt)" by (cases lr) simp
    with 1 crlf_line_shorter [OF lr] have "P nxt" by blast
    with lr show ?thesis by (rule assms(2))
  qed
qed

lemma crlf_line_Nil [simp]: "crlf_line [] = None"
  by (simp add: crlf_line_def)

lemma inspect_headers_stop:
  assumes "crlf_line rest = None"
  shows "inspect_headers rest st h = (if rest = [] then Inr st else Inl HTTP_PARSE_BAD_REQUEST, h)"
proof -
  have "\<not> (1 < length rest \<and> rest ! 0 = CR \<and> rest ! 1 = LF)"
    using assms crlf_line_CRLF [of "[]"] by (cases rest; cases "tl rest") auto
  with assms show ?thesis by (subst inspect_headers.simps) auto
qed

lemma inspect_headers_blank:
  "crlf_line rest = Some ([], next) \<Longrightarrow> inspect_headers rest st h = (Inr st, h)"
  by (subst inspect_headers.simps) (auto simp: crlf_line_Some_iff)

lemma inspect_headers_line:
  assumes "crlf_line rest = Some (line, next)" and "line \<noteq> []"
  shows "inspect_headers rest st h =
     (case inspect_header_line line st h of
        (Inl e, h') \<Rightarrow> (Inl e, h') | (Inr st', h') \<Rightarrow> inspect_headers next st' h')"
proof -
  from assms obtain a as where rest: "rest = (a # as) @ CRLF @ next" and "LF \<notin> set (a # as)"
    by (cases line) (auto simp: crlf_line_Some_iff)
  then have "\<not> (1 < length rest \<and> rest ! 0 = CR \<and> rest ! 1 = LF)"
    by (cases as) auto
  with assms(1) rest show ?thesis
    by (subst inspect_headers.simps) auto
qed

lemma parse_headers_Nil [simp]: "parse_headers [] r h = (HTTP_PARSE_OK, r, h)"
  by (simp add: parse_headers.simps)

lemma parse_headers_stop:
  "crlf_line rest = None \<Longrightarrow>
     parse_headers rest r h = (if rest = [] then HTTP_PARSE_OK else HTTP_PARSE_BAD_REQUEST, r, h)"
  by (subst parse_headers.simps) simp

lemma parse_headers_line:
  "crlf_line rest = Some (line, next) \<Longrightarrow>
     parse_headers rest r h = (case parse_header_line line r h of (e, r', h') \<Rightarrow>
       if e \<noteq> HTTP_PARSE_OK then (e, r', h') else parse_headers next r' h')"
  by (subst parse_headers.simps) auto

section \<open>Content-Length values\<close>

lemma content_length_value_Inr_iff:
  "http_parse_content_length_value s = Inr n \<longleftrightarrow>
     s \<noteq> [] \<and> list_all is_digit s \<and> dec_value 0 s = n \<and> n \<le> HTTP_MAX_BODY_SIZE"
proof (cases "s \<noteq> [] \<and> list_all is_digit s")
  case True
  have "HTTP_MAX_BODY_SIZE \<le> ULLONG_MAX"
    by (simp add: http_limits ULLONG_MAX_def)
  with True strtoull_digits [of s] show ?thesis
    by (auto simp: http_parse_content_length_value_def list_all_iff)
next
  case False
  then show ?thesis by (auto simp: http_parse_content_length_value_def)
qed

lemma content_length_value_Inl:
  "http_parse_content_length_value s = Inl e \<Longrightarrow>
     e = HTTP_PARSE_INVALID_CONTENT_LENGTH \<or> e = HTTP_PARSE_TOO_LARGE"
  by (auto simp: http_parse_content_length_value_def split: if_splits prod.splits)

lemma content_length_value_print [simp]:
  "n \<le> HTTP_MAX_BODY_SIZE \<Longrightarrow> http_parse_content_length_value (print_nat n) = Inr n"
  by (simp add: content_length_value_Inr_iff dec_value_print_nat print_nat_digits list_all_iff)

section \<open>The framing inspection returns an error code or a length\<close>

lemma inspect_headers_not_OK: "inspect_headers rest st h = (Inl e, h') \<Longrightarrow> e \<noteq> HTTP_PARSE_OK"
proof (induction rest arbitrary: st h rule: crlf_lines_induct)
  case (Stop rest)
  then show ?case by (auto simp: inspect_headers_stop split: if_splits)
next
  case (Line rest line "next")
  have step: "e1 \<noteq> HTTP_PARSE_OK" if "inspect_header_line line st h = (Inl e1, h1)" for e1 h1
    using that
    by (auto simp: inspect_header_line_def Let_def dest: content_length_value_Inl
        split: option.splits prod.splits if_splits sum.splits)
  show ?case
    using Line step
    by (cases "line = []")
      (auto simp: inspect_headers_blank inspect_headers_line split: prod.splits sum.splits)
qed

lemma inspect_framing_not_OK:
  "http_inspect_message_framing data n h = (fr, h') \<Longrightarrow> fr \<noteq> Inl HTTP_PARSE_OK"
  by (auto simp: http_inspect_message_framing_def Let_def dest: inspect_headers_not_OK
      split: if_splits option.splits prod.splits sum.splits)

section \<open>Heap behaviour\<close>

lemma inspect_header_line_live [heap_simps]:
  "inspect_header_line line st h = (r, h') \<Longrightarrow> live h' = live h"
  by (auto simp: inspect_header_line_def Let_def dest!: dup_range_cases(2)
      split: option.splits prod.splits if_splits sum.splits)

lemma inspect_headers_live [heap_simps]:
  "inspect_headers rest st h = (r, h') \<Longrightarrow> live h' = live h"
proof (induction rest arbitrary: st h rule: crlf_lines_induct)
  case (Stop rest)
  then show ?case by (simp add: inspect_headers_stop)
next
  case (Line rest line "next")
  show ?case
  proof (cases "line = []")
    case True
    with Line show ?thesis by (simp add: inspect_headers_blank)
  next
    case False
    obtain r1 h1 where step: "inspect_header_line line st h = (r1, h1)" by fastforce
    then have "live h1 = live h" by (rule inspect_header_line_live)
    with Line.prems Line.IH [of _ h1] show ?thesis
      by (cases r1) (simp_all add: inspect_headers_line [OF Line.hyps False] step)
  qed
qed

lemma inspect_framing_live [heap_simps]:
  "http_inspect_message_framing data n h = (r, h') \<Longrightarrow> live h' = live h"
  by (auto simp: http_inspect_message_framing_def Let_def dest: inspect_headers_live
      split: if_splits option.splits prod.splits sum.splits)

lemma parse_request_line_live [heap_simps]:
  "parse_request_line line r h = (res, r', h') \<Longrightarrow> rq_target r = None \<Longrightarrow> rq_version r = None \<Longrightarrow>
     live h' - request_blocks r' = live h - request_blocks r"
  by (auto simp: parse_request_line_def Let_def request_blocks_def dest!: dup_range_cases(2)
      split: if_splits option.splits prod.splits sum.splits)

lemma append_header_live [heap_simps]:
  "append_header r name value h = (res, r', h') \<Longrightarrow>
     live h' - request_blocks r' = live h - request_blocks r - 2"
  by (cases "rq_headers r")
    (auto simp: append_header_def request_blocks_def header_list_def header_blocks_def
      dest!: realloc_live split: if_splits prod.splits)

lemma parse_header_line_live [heap_simps]:
  "parse_header_line line r h = (res, r', h') \<Longrightarrow>
     live h' - request_blocks r' = live h - request_blocks r"
  by (auto simp: parse_header_line_def dest!: dup_range_cases(2) append_header_live
      split: if_splits prod.splits option.splits)

lemma parse_headers_live [heap_simps]:
  "parse_headers rest r h = (res, r', h') \<Longrightarrow>
     live h' - request_blocks r' = live h - request_blocks r"
proof (induction rest arbitrary: r h rule: crlf_lines_induct)
  case (Stop rest)
  then show ?case by (simp add: parse_headers_stop)
next
  case (Line rest line "next")
  obtain e r1 h1 where step: "parse_header_line line r h = (e, r1, h1)"
    by (cases "parse_header_line line r h")
  with Line.prems Line.IH [of r1 h1] parse_header_line_live [OF step] show ?case
    by (simp add: parse_headers_line [OF Line.hyps] split: if_splits)
qed

lemma parse_fail_live [heap_simps]:
  "parse_fail e r h = (res, r', h') \<Longrightarrow>
     res = e \<and> r' = http_request_init \<and> live h' = live h - request_blocks r"
  by (auto simp: parse_fail_def dest!: http_request_destroy_live split: prod.splits)

lemma request_blocks_set_body:
  "rq_body r = None \<Longrightarrow>
     request_blocks (r\<lparr>rq_body := Some b, rq_body_length := n\<rparr>) = request_blocks r + 1"
  by (simp add: request_blocks_def)

lemma finish_request_live [heap_simps]:
  assumes "finish_request data hb eb r h = (res, r', h')" and "rq_body r = None"
  shows "live h' = live h - request_blocks r + request_blocks r'"
    and "res \<noteq> HTTP_PARSE_OK \<Longrightarrow> r' = http_request_init"
  using assms
  by (auto simp: finish_request_def Let_def request_blocks_set_body dest!: parse_fail_live malloc_live
      split: if_splits option.splits sum.splits prod.splits)

section \<open>The framing verdict\<close>

text \<open>
  The framing inspection allocates, so its result depends on the allocator only in that it may
  be \<open>HTTP_PARSE_OUT_OF_MEMORY\<close>; otherwise it is a function of the header bytes.
\<close>

definition framing_verdict :: "bytes \<Rightarrow> nat \<Rightarrow> http_parse_result_t + nat" where
  "framing_verdict data n = fst (http_inspect_message_framing data n \<lparr>outcomes = [], live = 0\<rparr>)"

lemma inspect_header_line_heap:
  assumes "inspect_header_line line st h = (x, h1)" and "inspect_header_line line st g = (y, g1)"
    and nf: "never_fails g"
  shows "never_fails g1" and "x = Inl HTTP_PARSE_OUT_OF_MEMORY \<or> x = y"
proof -
  have "never_fails g1 \<and> (x = Inl HTTP_PARSE_OUT_OF_MEMORY \<or> x = y)"
  proof (cases "colon_split line")
    case None
    with assms show ?thesis by (simp add: inspect_header_line_def)
  next
    case (Some nv)
    obtain n v where nv: "nv = (n, v)" by (cases nv)
    obtain p g2 where d1: "dup_range n g = (p, g2)" by (cases "dup_range n g")
    obtain q g3 where d2: "dup_range v g2 = (q, g3)" by (cases "dup_range v g2")
    note 1 = dup_range_never_fails [OF nf d1]
    note 2 = dup_range_never_fails [OF 1(2) d2]
    obtain p' h2 where e1: "dup_range n h = (p', h2)" by (cases "dup_range n h")
    obtain q' h3 where e2: "dup_range v h2 = (q', h3)" by (cases "dup_range v h2")
    note 3 = dup_range_cases(1) [OF e1] dup_range_cases(1) [OF e2]
    show ?thesis
      using assms(1,2) 1 2 3
      by (auto simp: inspect_header_line_def Some nv d1 d2 e1 e2 Let_def split: if_splits sum.splits)
  qed
  then show "never_fails g1" and "x = Inl HTTP_PARSE_OUT_OF_MEMORY \<or> x = y" by simp_all
qed

lemma inspect_headers_heap:
  assumes "inspect_headers rest st h = (x, h1)" and "inspect_headers rest st g = (y, g1)"
    and "never_fails g"
  shows "never_fails g1 \<and> (x = Inl HTTP_PARSE_OUT_OF_MEMORY \<or> x = y)"
  using assms
proof (induction rest arbitrary: st h g x h1 rule: crlf_lines_induct)
  case (Stop rest)
  then show ?case by (auto simp: inspect_headers_stop)
next
  case (Line rest line "next")
  show ?case
  proof (cases "line = []")
    case True
    with Line show ?thesis by (auto simp: inspect_headers_blank)
  next
    case False
    obtain a h2 where s1: "inspect_header_line line st h = (a, h2)" by fastforce
    obtain b g2 where s2: "inspect_header_line line st g = (b, g2)" by fastforce
    note ab = inspect_header_line_heap [OF s1 s2 Line.prems(3)]
    note turn = inspect_headers_line [OF Line.hyps False]
    show ?thesis
    proof (cases b)
      case (Inl e)
      with Line.prems ab s1 s2 show ?thesis by (cases a) (auto simp: turn)
    next
      case (Inr st')
      with Line.prems(2) s2 have y: "inspect_headers next st' g2 = (y, g1)" by (simp add: turn)
      from Line.IH [OF y y ab(1)] have "never_fails g1" by simp
      moreover have "x = Inl HTTP_PARSE_OUT_OF_MEMORY \<or> x = y"
      proof (cases a)
        case (Inl e)
        with Line.prems(1) ab(2) s1 Inr show ?thesis by (auto simp: turn)
      next
        case a: (Inr st'')
        with Line.prems(1) s1 have "inspect_headers next st'' h2 = (x, h1)" by (simp add: turn)
        with Line.IH [OF _ y ab(1), of h2 x h1] ab(2) a Inr show ?thesis by simp
      qed
      ultimately show ?thesis ..
    qed
  qed
qed

lemma inspect_framing_heap:
  assumes "http_inspect_message_framing data n h = (x, h1)"
    and "http_inspect_message_framing data n g = (y, g1)" and "never_fails g"
  shows "never_fails g1 \<and> (x = Inl HTTP_PARSE_OUT_OF_MEMORY \<or> x = y)"
proof (cases "n < 4 \<or> drop (n - 4) (take n data) \<noteq> CRLF @ CRLF \<or> crlf_line (take n data) = None")
  case True
  with assms show ?thesis
    by (auto simp: http_inspect_message_framing_def Let_def split: if_splits option.splits)
next
  case False
  then obtain line rest where c: "crlf_line (take n data) = Some (line, rest)" by auto
  obtain a h2 where s1: "inspect_headers rest framing_init h = (a, h2)" by fastforce
  obtain b g2 where s2: "inspect_headers rest framing_init g = (b, g2)" by fastforce
  have ab: "never_fails g2" "a = Inl HTTP_PARSE_OUT_OF_MEMORY \<or> a = b"
    using inspect_headers_heap [OF s1 s2 assms(3)] by simp_all
  have "http_inspect_message_framing data n k = (case inspect_headers rest framing_init k of
           (Inl e, h') \<Rightarrow> (Inl e, h')
         | (Inr st, h') \<Rightarrow>
             if saw_chunked st then (Inl HTTP_PARSE_UNSUPPORTED_TRANSFER_ENCODING, h')
             else (Inr (if saw_content_length st then content_length st else 0), h'))" for k
    unfolding http_inspect_message_framing_def Let_def c using False by simp
  with assms s1 s2 ab show ?thesis
    by (cases a; cases b) (auto split: if_splits)
qed

lemma inspect_header_line_no_oom:
  assumes "never_fails h" and "inspect_header_line line st h = (x, h')"
  shows "x \<noteq> Inl HTTP_PARSE_OUT_OF_MEMORY"
proof (cases "colon_split line")
  case None
  with assms show ?thesis by (auto simp: inspect_header_line_def)
next
  case (Some nv)
  obtain n v where nv: "nv = (n, v)" by (cases nv)
  obtain p h2 where d1: "dup_range n h = (p, h2)" by (cases "dup_range n h")
  obtain q h3 where d2: "dup_range v h2 = (q, h3)" by (cases "dup_range v h2")
  note 1 = dup_range_never_fails [OF assms(1) d1]
  note 2 = dup_range_never_fails [OF 1(2) d2]
  show ?thesis
    using assms(2) 1(1) 2(1)
    by (auto simp: inspect_header_line_def Some nv d1 d2 Let_def dest: content_length_value_Inl
        split: if_splits sum.splits)
qed

lemma inspect_headers_no_oom:
  assumes "never_fails h" and "inspect_headers rest st h = (x, h')"
  shows "x \<noteq> Inl HTTP_PARSE_OUT_OF_MEMORY"
  using assms
proof (induction rest arbitrary: st h rule: crlf_lines_induct)
  case (Stop rest)
  then show ?case by (auto simp: inspect_headers_stop split: if_splits)
next
  case (Line rest line "next")
  show ?case
  proof (cases "line = []")
    case True
    with Line show ?thesis by (auto simp: inspect_headers_blank)
  next
    case False
    obtain a h2 where s1: "inspect_header_line line st h = (a, h2)" by fastforce
    note no = inspect_header_line_no_oom [OF Line.prems(1) s1]
    have nf: "never_fails h2" using inspect_header_line_heap(1) [OF s1 s1 Line.prems(1)] .
    show ?thesis
      using Line.prems(2) no Line.IH [OF nf]
      by (cases a) (auto simp: inspect_headers_line [OF Line.hyps False] s1)
  qed
qed

lemma inspect_framing_no_oom:
  "never_fails h \<Longrightarrow> http_inspect_message_framing data n h = (x, h') \<Longrightarrow>
     x \<noteq> Inl HTTP_PARSE_OUT_OF_MEMORY"
  by (auto simp: http_inspect_message_framing_def Let_def dest: inspect_headers_no_oom
      split: if_splits option.splits prod.splits sum.splits)

lemma framing_verdict:
  assumes "http_inspect_message_framing data n h = (x, h1)"
  shows "x = Inl HTTP_PARSE_OUT_OF_MEMORY \<or> x = framing_verdict data n"
    and "never_fails h \<Longrightarrow> x = framing_verdict data n \<and> never_fails h1"
proof -
  define g :: heap where "g = \<lparr>outcomes = [], live = 0\<rparr>"
  have g: "never_fails g" by (simp add: never_fails_def g_def)
  obtain y g1 where y: "http_inspect_message_framing data n g = (y, g1)" by fastforce
  then have v: "framing_verdict data n = y" by (simp add: framing_verdict_def g_def)
  show "x = Inl HTTP_PARSE_OUT_OF_MEMORY \<or> x = framing_verdict data n"
    using inspect_framing_heap [OF assms y g] v by simp
  show "x = framing_verdict data n \<and> never_fails h1" if nf: "never_fails h"
    using inspect_framing_heap [OF assms y g] inspect_framing_heap [OF y assms nf] v by auto
qed

text \<open>The verdict looks at the header bytes only.\<close>

lemma inspect_framing_append:
  "n \<le> length data \<Longrightarrow>
     http_inspect_message_framing (data @ extra) n = http_inspect_message_framing data n"
  by (simp add: http_inspect_message_framing_def fun_eq_iff)

lemma framing_verdict_append:
  "n \<le> length data \<Longrightarrow> framing_verdict (data @ extra) n = framing_verdict data n"
  by (simp add: framing_verdict_def inspect_framing_append)

end
