(* ===== verification/Http_Reader.thy ===== *)
theory Http_Reader
  imports Http_Parser
begin

text \<open>
  The connection-level reader of \<^verbatim>\<open>src/http_reader.c\<close>: it accumulates what \<open>recv\<close> returns,
  cuts one framed message at a time off the front of the stream and keeps the rest.

  The buffer is \<open>rd_data\<close>: \<open>None\<close> is the NULL pointer, \<open>Some bs\<close> an allocated buffer whose
  first \<open>length\<close> bytes are \<open>bs\<close>. The operating system is a record of scripts, one per
  system call the reader makes: the results of \<open>clock_gettime\<close>, of \<open>poll\<close> and of
  \<open>recv\<close>, in the order in which they come; \<open>waits\<close> logs the timeout of every \<open>poll\<close>. A call
  whose script has run out is still waiting, and then so is the reader: its result is \<open>None\<close>.
\<close>

section \<open>Data\<close>

datatype http_read_result_t =
    HTTP_READ_OK | HTTP_READ_CLIENT_CLOSED | HTTP_READ_TIMEOUT | HTTP_READ_TOO_LARGE
  | HTTP_READ_IO_ERROR | HTTP_READ_BAD_REQUEST | HTTP_READ_UNSUPPORTED_TRANSFER_ENCODING
  | HTTP_READ_INVALID_CONTENT_LENGTH | HTTP_READ_OUT_OF_MEMORY

record http_reader_t =
  rd_data :: "bytes option"
  rd_capacity :: nat

definition rd_bytes :: "http_reader_t \<Rightarrow> bytes" where
  "rd_bytes r = (case rd_data r of None \<Rightarrow> [] | Some bs \<Rightarrow> bs)"

text \<open>\<open>reader->length = 0\<close>.\<close>

definition rd_clear :: "http_reader_t \<Rightarrow> http_reader_t" where
  "rd_clear r = r\<lparr>rd_data := map_option (\<lambda>_. []) (rd_data r)\<rparr>"

record timespec =
  tv_sec :: int
  tv_nsec :: int

text \<open>
  The outcomes of \<open>poll\<close>: interrupted, failed, timed out, or the returned events (an error or
  hang-up flag, and \<open>POLLIN\<close>). The outcomes of \<open>recv\<close>: bytes (none at the end of the
  stream) or an error number.
\<close>

datatype poll_event = POLL_EINTR | POLL_FAIL | POLL_TIMEOUT | POLL_READY bool bool

datatype errno = EINTR | EAGAIN | EOTHER

datatype recv_event = RECV_BYTES bytes | RECV_ERR errno

record conn_env =
  clocks :: "timespec option list"
  polls :: "poll_event list"
  recvs :: "recv_event list"
  waits :: "int list"

section \<open>System calls\<close>

definition clock_gettime :: "conn_env \<Rightarrow> (timespec option \<times> conn_env) option" where
  "clock_gettime env = (case clocks env of [] \<Rightarrow> None
     | c # cs \<Rightarrow> Some (c, env\<lparr>clocks := cs\<rparr>))"

text \<open>At most \<open>space\<close> bytes are taken; what does not fit stays in the socket.\<close>

definition recv :: "nat \<Rightarrow> conn_env \<Rightarrow> (recv_event \<times> conn_env) option" where
  "recv space env = (case recvs env of [] \<Rightarrow> None
     | RECV_BYTES bs # es \<Rightarrow>
         if length bs \<le> space then Some (RECV_BYTES bs, env\<lparr>recvs := es\<rparr>)
         else Some (RECV_BYTES (take space bs), env\<lparr>recvs := RECV_BYTES (drop space bs) # es\<rparr>)
     | e # es \<Rightarrow> Some (e, env\<lparr>recvs := es\<rparr>))"

section \<open>Operations\<close>

definition HTTP_READER_INITIAL_CAPACITY :: nat where "HTTP_READER_INITIAL_CAPACITY = 4096"
definition HTTP_READER_RECV_CHUNK :: nat where "HTTP_READER_RECV_CHUNK = 4096"
definition HTTP_READER_ONESHOT_TIMEOUT_SEC :: int where "HTTP_READER_ONESHOT_TIMEOUT_SEC = 30"

lemmas reader_constants = HTTP_READER_INITIAL_CAPACITY_def HTTP_READER_RECV_CHUNK_def
  HTTP_READER_ONESHOT_TIMEOUT_SEC_def

fun map_framing_error :: "http_parse_result_t \<Rightarrow> http_read_result_t" where
  "map_framing_error HTTP_PARSE_OK = HTTP_READ_OK"
| "map_framing_error HTTP_PARSE_TOO_LARGE = HTTP_READ_TOO_LARGE"
| "map_framing_error HTTP_PARSE_UNSUPPORTED_TRANSFER_ENCODING = HTTP_READ_UNSUPPORTED_TRANSFER_ENCODING"
| "map_framing_error HTTP_PARSE_INVALID_CONTENT_LENGTH = HTTP_READ_INVALID_CONTENT_LENGTH"
| "map_framing_error HTTP_PARSE_OUT_OF_MEMORY = HTTP_READ_OUT_OF_MEMORY"
| "map_framing_error _ = HTTP_READ_BAD_REQUEST"

definition http_reader_init :: http_reader_t where
  "http_reader_init = \<lparr>rd_data = None, rd_capacity = 0\<rparr>"

definition http_reader_destroy :: "http_reader_t \<Rightarrow> heap \<Rightarrow> http_reader_t \<times> heap" where
  "http_reader_destroy r h = (http_reader_init, c_free (rd_data r) h)"

text \<open>
  The doubling loop of \<open>ensure_capacity\<close>. The loop is entered with a capacity of at least
  \<open>HTTP_READER_INITIAL_CAPACITY\<close>; a zero capacity, with which it would not end, stops it here.
\<close>

function grow_capacity :: "nat \<Rightarrow> nat \<Rightarrow> nat" where
  "grow_capacity new_capacity needed =
     (if new_capacity = 0 \<or> needed \<le> new_capacity then new_capacity
      else if HTTP_MAX_MESSAGE_BYTES div 2 < new_capacity then HTTP_MAX_MESSAGE_BYTES
      else grow_capacity (new_capacity * 2) needed)"
  by pat_completeness auto
termination
  by (relation "measure (\<lambda>(c, n). n - c)") auto

declare grow_capacity.simps [simp del]

definition ensure_capacity :: "http_reader_t \<Rightarrow> nat \<Rightarrow> heap \<Rightarrow> bool \<times> http_reader_t \<times> heap" where
  "ensure_capacity r needed h =
     (if needed \<le> rd_capacity r then (True, r, h)
      else if HTTP_MAX_MESSAGE_BYTES < needed then (False, r, h)
      else
        let start = (if rd_capacity r = 0 then HTTP_READER_INITIAL_CAPACITY else rd_capacity r);
            new_capacity = grow_capacity start needed in
        if new_capacity < needed \<or> HTTP_MAX_MESSAGE_BYTES < new_capacity then (False, r, h)
        else (case realloc (rd_data r = None) h of (grown, h') \<Rightarrow>
          if \<not> grown then (False, r, h')
          else (True, r\<lparr>rd_data := Some (rd_bytes r), rd_capacity := new_capacity\<rparr>, h')))"

text \<open>\<open>Inl HTTP_READ_IO_ERROR\<close> stands for ``need data'', as in the source.\<close>

definition try_extract_length :: "http_reader_t \<Rightarrow> heap \<Rightarrow> (http_read_result_t + nat) \<times> heap" where
  "try_extract_length r h =
     (if rd_bytes r = [] then (Inl HTTP_READ_IO_ERROR, h)
      else case http_find_header_terminator (rd_bytes r) of
        None \<Rightarrow> (Inl (if HTTP_MAX_HEADER_BYTES \<le> length (rd_bytes r) then HTTP_READ_TOO_LARGE
                       else HTTP_READ_IO_ERROR), h)
      | Some header_end \<Rightarrow>
        let header_bytes = header_end + 4 in
        if HTTP_MAX_HEADER_BYTES < header_bytes then (Inl HTTP_READ_TOO_LARGE, h)
        else (case http_inspect_message_framing (rd_bytes r) header_bytes h of
          (Inl framing, h') \<Rightarrow> (Inl (map_framing_error framing), h')
        | (Inr body_length, h') \<Rightarrow>
          if HTTP_MAX_MESSAGE_BYTES - header_bytes < body_length
          then (Inl HTTP_READ_TOO_LARGE, h')
          else if length (rd_bytes r) < header_bytes + body_length
          then (Inl HTTP_READ_IO_ERROR, h')
          else (Inr (header_bytes + body_length), h')))"

definition take_message ::
  "http_reader_t \<Rightarrow> nat \<Rightarrow> heap \<Rightarrow> (http_read_result_t \<times> bytes option) \<times> http_reader_t \<times> heap" where
  "take_message r message_length h = (case malloc h of (ok, h') \<Rightarrow>
     if \<not> ok then ((HTTP_READ_OUT_OF_MEMORY, None), r, h')
     else ((HTTP_READ_OK, Some (take message_length (rd_bytes r))),
           r\<lparr>rd_data := Some (drop message_length (rd_bytes r))\<rparr>, h'))"

definition timespec_before :: "timespec \<Rightarrow> timespec \<Rightarrow> bool" where
  "timespec_before a b = (if tv_sec a \<noteq> tv_sec b then tv_sec a < tv_sec b else tv_nsec a < tv_nsec b)"

text \<open>\<open>now\<close> is what \<open>clock_gettime\<close> gave; C division truncates, here on a non-negative number.\<close>

definition remaining_timeout_ms :: "timespec \<Rightarrow> timespec option \<Rightarrow> int" where
  "remaining_timeout_ms deadline now_opt = (case now_opt of None \<Rightarrow> 1000
     | Some now \<Rightarrow>
       if \<not> timespec_before now deadline then 0
       else
         let sec0 = tv_sec deadline - tv_sec now;
             nsec0 = tv_nsec deadline - tv_nsec now;
             sec = (if nsec0 < 0 then sec0 - 1 else sec0);
             nsec = (if nsec0 < 0 then nsec0 + 1000000000 else nsec0) in
         if 1000 < sec then 1000 * 1000
         else
           let ms = sec * 1000 + nsec div 1000000 in
           if ms \<le> 0 then 0 else if 2147483647 < ms then 2147483647 else ms)"

text \<open>1 if readable, 0 on timeout, -1 on error; an interrupted \<open>poll\<close> is called again.\<close>

fun wait_polls :: "poll_event list \<Rightarrow> (int \<times> poll_event list) option" where
  "wait_polls [] = None"
| "wait_polls (POLL_EINTR # ps) = wait_polls ps"
| "wait_polls (POLL_FAIL # ps) = Some (-1, ps)"
| "wait_polls (POLL_TIMEOUT # ps) = Some (0, ps)"
| "wait_polls (POLL_READY err inp # ps) = Some (if err then 1 else if inp then 1 else -1, ps)"

definition wait_readable :: "int \<Rightarrow> conn_env \<Rightarrow> (int \<times> conn_env) option" where
  "wait_readable timeout_ms env = (case wait_polls (polls env) of None \<Rightarrow> None
     | Some (rc, ps) \<Rightarrow> Some (rc, env\<lparr>polls := ps,
         waits := waits env @ replicate (length (polls env) - length ps) timeout_ms\<rparr>))"

text \<open>
  The bytes to make room for before the next \<open>recv\<close>; \<open>Inl\<close> is an early return that also
  clears the buffer.
\<close>

definition reader_need :: "http_reader_t \<Rightarrow> heap \<Rightarrow> (http_read_result_t + nat) \<times> heap" where
  "reader_need r h =
     (case http_find_header_terminator (rd_bytes r) of
        None \<Rightarrow>
          if HTTP_MAX_HEADER_BYTES \<le> length (rd_bytes r) then (Inl HTTP_READ_TOO_LARGE, h)
          else let need = min (length (rd_bytes r) + HTTP_READER_RECV_CHUNK) HTTP_MAX_HEADER_BYTES in
            if need \<le> length (rd_bytes r) then (Inl HTTP_READ_TOO_LARGE, h) else (Inr need, h)
      | Some header_end \<Rightarrow>
        let header_bytes = header_end + 4 in
        (case http_inspect_message_framing (rd_bytes r) header_bytes h of
          (Inl framing, h') \<Rightarrow> (Inl (map_framing_error framing), h')
        | (Inr body_length, h') \<Rightarrow>
          if HTTP_MAX_MESSAGE_BYTES - header_bytes < body_length
          then (Inl HTTP_READ_TOO_LARGE, h')
          else (Inr (header_bytes + body_length), h')))"

text \<open>
  The part of the loop body before the wait: hand out a complete message, give up on a bad
  one, or make room (\<open>Inr space\<close>).
\<close>

definition reader_prepare ::
  "http_reader_t \<Rightarrow> heap \<Rightarrow> ((http_read_result_t \<times> bytes option) + nat) \<times> http_reader_t \<times> heap" where
  "reader_prepare r h =
     (case try_extract_length r h of
        (Inr message_length, h1) \<Rightarrow>
          (case take_message r message_length h1 of (res, r', h2) \<Rightarrow> (Inl res, r', h2))
      | (Inl ready, h1) \<Rightarrow>
        if ready \<noteq> HTTP_READ_IO_ERROR then (Inl (ready, None), rd_clear r, h1)
        else (case reader_need r h1 of
          (Inl e, h2) \<Rightarrow> (Inl (e, None), rd_clear r, h2)
        | (Inr need, h2) \<Rightarrow>
          (case ensure_capacity r need h2 of (ok, r', h3) \<Rightarrow>
            if \<not> ok then
              if HTTP_MAX_MESSAGE_BYTES < need
              then (Inl (HTTP_READ_TOO_LARGE, None), rd_clear r', h3)
              else (Inl (HTTP_READ_OUT_OF_MEMORY, None), r', h3)
            else
              let space = rd_capacity r' - length (rd_bytes r') in
              if space = 0 then (Inl (HTTP_READ_TOO_LARGE, None), rd_clear r', h3)
              else (Inr space, r', h3))))"

text \<open>The timeout of the next wait; \<open>deadline = None\<close> is \<open>deadline_active == 0\<close>.\<close>

definition reader_timeout :: "int \<Rightarrow> timespec option \<Rightarrow> conn_env \<Rightarrow> (int \<times> conn_env) option" where
  "reader_timeout keep_alive_timeout_sec deadline env =
     (case deadline of
        None \<Rightarrow> let timeout_ms = keep_alive_timeout_sec * 1000 in
          Some (if timeout_ms < 0 then 1000 else timeout_ms, env)
      | Some d \<Rightarrow> (case clock_gettime env of None \<Rightarrow> None
        | Some (now, env') \<Rightarrow> Some (remaining_timeout_ms d now, env')))"

text \<open>
  What follows a \<open>recv\<close> that returned \<open>n > 0\<close> bytes: the first bytes of a request start its
  deadline. A failing clock returns without counting the received bytes in.
\<close>

definition start_deadline ::
  "int \<Rightarrow> timespec option \<Rightarrow> conn_env \<Rightarrow> (timespec option \<times> conn_env) option" where
  "start_deadline request_timeout_sec deadline env =
     (case deadline of Some d \<Rightarrow> Some (Some d, env)
      | None \<Rightarrow> (case clock_gettime env of None \<Rightarrow> None
        | Some (None, env') \<Rightarrow> Some (None, env')
        | Some (Some now, env') \<Rightarrow>
            Some (Some (now\<lparr>tv_sec := tv_sec now + request_timeout_sec\<rparr>), env')))"

definition rd_append :: "http_reader_t \<Rightarrow> bytes \<Rightarrow> http_reader_t" where
  "rd_append r bs = r\<lparr>rd_data := Some (rd_bytes r @ bs)\<rparr>"

lemma wait_polls_shorter: "wait_polls ps = Some (rc, ps') \<Longrightarrow> length ps' < length ps"
  by (induction ps rule: wait_polls.induct) auto

lemma wait_readable_env:
  assumes "wait_readable t env = Some (rc, env')"
  shows "length (polls env') < length (polls env)" and "clocks env' = clocks env"
    and "recvs env' = recvs env"
    and "\<exists>n>0. waits env' = waits env @ replicate n t"
  using assms wait_polls_shorter [of "polls env"]
  by (auto simp: wait_readable_def split: option.splits)

lemma clock_gettime_env:
  assumes "clock_gettime env = Some (c, env')"
  shows "polls env' = polls env" and "recvs env' = recvs env" and "waits env' = waits env"
    and "clocks env = c # clocks env'"
  using assms by (auto simp: clock_gettime_def split: list.splits)

lemma recv_env:
  assumes "recv space env = Some (e, env')"
  shows "polls env' = polls env" and "clocks env' = clocks env" and "waits env' = waits env"
  using assms by (auto simp: recv_def split: list.splits recv_event.splits if_splits)

lemma reader_timeout_env:
  assumes "reader_timeout ka d env = Some (t, env')"
  shows "polls env' = polls env" and "recvs env' = recvs env" and "waits env' = waits env"
  using assms by (auto simp: reader_timeout_def Let_def dest: clock_gettime_env split: option.splits)

lemma start_deadline_env:
  assumes "start_deadline rq d env = Some (d', env')"
  shows "polls env' = polls env" and "recvs env' = recvs env" and "waits env' = waits env"
  using assms by (auto simp: start_deadline_def dest: clock_gettime_env split: option.splits)

text \<open>The endless loop; every turn that comes back to its head has used up a \<open>poll\<close>.\<close>

function reader_loop ::
  "int \<Rightarrow> int \<Rightarrow> timespec option \<Rightarrow> http_reader_t \<Rightarrow> conn_env \<Rightarrow> heap \<Rightarrow>
   ((http_read_result_t \<times> bytes option) \<times> http_reader_t \<times> conn_env \<times> heap) option" where
  "reader_loop ka rq deadline r env h =
     (case reader_prepare r h of
        (Inl res, r1, h1) \<Rightarrow> Some (res, r1, env, h1)
      | (Inr space, r1, h1) \<Rightarrow>
       (case reader_timeout ka deadline env of None \<Rightarrow> None
        | Some (timeout_ms, env1) \<Rightarrow>
          if deadline \<noteq> None \<and> timeout_ms = 0 then Some ((HTTP_READ_TIMEOUT, None), r1, env1, h1)
          else (case wait_readable timeout_ms env1 of None \<Rightarrow> None
          | Some (wait_rc, env2) \<Rightarrow>
            if wait_rc = 0 then Some ((HTTP_READ_TIMEOUT, None), r1, env2, h1)
            else if wait_rc < 0 then Some ((HTTP_READ_IO_ERROR, None), r1, env2, h1)
            else (case recv space env2 of None \<Rightarrow> None
            | Some (RECV_ERR EINTR, env3) \<Rightarrow> reader_loop ka rq deadline r1 env3 h1
            | Some (RECV_ERR EAGAIN, env3) \<Rightarrow> Some ((HTTP_READ_TIMEOUT, None), r1, env3, h1)
            | Some (RECV_ERR EOTHER, env3) \<Rightarrow> Some ((HTTP_READ_IO_ERROR, None), r1, env3, h1)
            | Some (RECV_BYTES bs, env3) \<Rightarrow>
              if bs = [] then Some ((HTTP_READ_CLIENT_CLOSED, None), rd_clear r1, env3, h1)
              else (case start_deadline rq deadline env3 of None \<Rightarrow> None
              | Some (None, env4) \<Rightarrow> Some ((HTTP_READ_IO_ERROR, None), r1, env4, h1)
              | Some (Some d, env4) \<Rightarrow> reader_loop ka rq (Some d) (rd_append r1 bs) env4 h1)))))"
  by pat_completeness auto
termination
  by (relation "measure (\<lambda>(_, _, _, _, env, _). length (polls env))")
    (auto dest!: wait_readable_env(1) recv_env(1) reader_timeout_env(1) start_deadline_env(1))

declare reader_loop.simps [simp del]

definition http_reader_next_request ::
  "int \<Rightarrow> int \<Rightarrow> http_reader_t \<Rightarrow> conn_env \<Rightarrow> heap \<Rightarrow>
   ((http_read_result_t \<times> bytes option) \<times> http_reader_t \<times> conn_env \<times> heap) option" where
  "http_reader_next_request keep_alive_timeout_sec request_timeout_sec r env h =
     (let ka = (if keep_alive_timeout_sec < 1 then 1 else keep_alive_timeout_sec);
          rq = (if request_timeout_sec < 1 then 1 else request_timeout_sec) in
      if rd_bytes r \<noteq> [] then
        (case clock_gettime env of None \<Rightarrow> None
         | Some (None, env') \<Rightarrow> Some ((HTTP_READ_IO_ERROR, None), r, env', h)
         | Some (Some now, env') \<Rightarrow>
             reader_loop ka rq (Some (now\<lparr>tv_sec := tv_sec now + rq\<rparr>)) r env' h)
      else reader_loop ka rq None r env h)"

definition http_read_request ::
  "conn_env \<Rightarrow> heap \<Rightarrow> ((http_read_result_t \<times> bytes option) \<times> conn_env \<times> heap) option" where
  "http_read_request env h =
     (case http_reader_next_request HTTP_READER_ONESHOT_TIMEOUT_SEC HTTP_READER_ONESHOT_TIMEOUT_SEC
             http_reader_init env h of
        None \<Rightarrow> None
      | Some (res, r, env', h') \<Rightarrow> (case http_reader_destroy r h' of (_, h'') \<Rightarrow> Some (res, env', h'')))"

section \<open>The buffer\<close>

definition reader_ok :: "http_reader_t \<Rightarrow> bool" where
  "reader_ok r = (case rd_data r of None \<Rightarrow> rd_capacity r = 0
     | Some bs \<Rightarrow> length bs \<le> rd_capacity r \<and> 0 < rd_capacity r
         \<and> rd_capacity r \<le> HTTP_MAX_MESSAGE_BYTES)"

lemma reader_ok_init [simp]: "reader_ok http_reader_init"
  by (simp add: reader_ok_def http_reader_init_def)

lemma rd_bytes_init [simp]: "rd_bytes http_reader_init = []"
  by (simp add: rd_bytes_def http_reader_init_def)

lemma reader_ok_clear [simp]: "reader_ok r \<Longrightarrow> reader_ok (rd_clear r)"
  by (auto simp: reader_ok_def rd_clear_def split: option.splits)

lemma rd_clear_simps [simp]:
  "rd_bytes (rd_clear r) = []" "blocks (rd_data (rd_clear r)) = blocks (rd_data r)"
  by (auto simp: rd_clear_def rd_bytes_def blocks_def split: option.splits)

lemma rd_append_simps [simp]:
  "rd_bytes (rd_append r bs) = rd_bytes r @ bs" "rd_capacity (rd_append r bs) = rd_capacity r"
  "rd_data (rd_append r bs) = Some (rd_bytes r @ bs)"
  by (simp_all add: rd_append_def rd_bytes_def)

lemma reader_ok_capacity: "reader_ok r \<Longrightarrow> length (rd_bytes r) \<le> rd_capacity r"
  by (auto simp: reader_ok_def rd_bytes_def split: option.splits)

lemma reader_ok_append:
  assumes "reader_ok r" and "length bs \<le> rd_capacity r - length (rd_bytes r)" and "bs \<noteq> []"
  shows "reader_ok (rd_append r bs)" and "blocks (rd_data (rd_append r bs)) = blocks (rd_data r)"
  using assms by (auto simp: reader_ok_def rd_bytes_def blocks_def split: option.splits)

lemma grow_capacity_bounds:
  assumes "0 < c" and "c \<le> HTTP_MAX_MESSAGE_BYTES" and "n \<le> HTTP_MAX_MESSAGE_BYTES"
  shows "n \<le> grow_capacity c n \<and> c \<le> grow_capacity c n \<and> grow_capacity c n \<le> HTTP_MAX_MESSAGE_BYTES"
  using assms
proof (induction c n rule: grow_capacity.induct)
  case (1 c n)
  show ?case
  proof (cases "n \<le> c \<or> HTTP_MAX_MESSAGE_BYTES div 2 < c")
    case True
    with "1.prems" show ?thesis by (subst (1 2 3) grow_capacity.simps) auto
  next
    case False
    with "1.prems" have "grow_capacity c n = grow_capacity (c * 2) n"
      by (subst grow_capacity.simps) simp
    with "1.IH" "1.prems" False show ?thesis by fastforce
  qed
qed

lemma ensure_capacity_facts:
  assumes "ensure_capacity r n h = (ok, r', h')" and "reader_ok r"
  shows "reader_ok r'" and "rd_bytes r' = rd_bytes r" and "ok \<Longrightarrow> n \<le> rd_capacity r'"
    and "live h' = live h + blocks (rd_data r') - blocks (rd_data r)"
    and "never_fails h \<Longrightarrow> never_fails h' \<and> (n \<le> HTTP_MAX_MESSAGE_BYTES \<longrightarrow> ok)"
proof -
  let ?c = "if rd_capacity r = 0 then HTTP_READER_INITIAL_CAPACITY else rd_capacity r"
  let ?r = "r\<lparr>rd_data := Some (rd_bytes r), rd_capacity := grow_capacity ?c n\<rparr>"
  have c: "0 < ?c" "?c \<le> HTTP_MAX_MESSAGE_BYTES"
    using assms(2) by (auto simp: reader_ok_def reader_constants http_limits split: option.splits)
  obtain g h1 where g: "realloc (rd_data r = None) h = (g, h1)" by fastforce
  have bounds: "n \<le> HTTP_MAX_MESSAGE_BYTES \<Longrightarrow> \<not> grow_capacity ?c n < n
      \<and> \<not> HTTP_MAX_MESSAGE_BYTES < grow_capacity ?c n"
    using grow_capacity_bounds [OF c] by (simp add: not_less)
  consider (room) "n \<le> rd_capacity r" "ok" "r' = r" "h' = h"
    | (huge) "HTTP_MAX_MESSAGE_BYTES < n" "\<not> ok" "r' = r" "h' = h"
    | (grown) "n \<le> HTTP_MAX_MESSAGE_BYTES" "g" "ok" "r' = ?r" "h' = h1"
    | (failed) "\<not> g" "\<not> ok" "r' = r" "h' = h1"
  proof (cases "n \<le> rd_capacity r \<or> HTTP_MAX_MESSAGE_BYTES < n")
    case True
    with assms(1) that(1,2) show thesis by (auto simp: ensure_capacity_def split: if_splits)
  next
    case False
    with bounds have "ensure_capacity r n h = (if g then (True, ?r, h1) else (False, r, h1))"
      by (simp add: ensure_capacity_def Let_def g)
    with assms(1) that(3,4) False show thesis by (simp split: if_splits)
  qed
  then have "reader_ok r' \<and> rd_bytes r' = rd_bytes r \<and> (ok \<longrightarrow> n \<le> rd_capacity r')
    \<and> live h' = live h + blocks (rd_data r') - blocks (rd_data r)
    \<and> (never_fails h \<longrightarrow> never_fails h' \<and> (n \<le> HTTP_MAX_MESSAGE_BYTES \<longrightarrow> ok))"
  proof cases
    case grown
    have "rd_capacity r \<le> ?c" by simp
    then have "length (rd_bytes r) \<le> ?c" using reader_ok_capacity [OF assms(2)] by linarith
    with grown grow_capacity_bounds [OF c grown(1)] c have "reader_ok r'"
      by (simp add: reader_ok_def)
    moreover have "live h' = live h + blocks (rd_data r') - blocks (rd_data r)"
      using grown realloc_live [OF g] by (cases "rd_data r") auto
    ultimately show ?thesis
      using grown grow_capacity_bounds [OF c grown(1)] never_fails_realloc [OF _ g]
      by (auto simp: rd_bytes_def)
  next
    case failed
    then show ?thesis using assms(2) realloc_live [OF g] never_fails_realloc [OF _ g] by auto
  qed (use assms(2) in auto)
  then show "reader_ok r'" and "rd_bytes r' = rd_bytes r" and "ok \<Longrightarrow> n \<le> rd_capacity r'"
    and "live h' = live h + blocks (rd_data r') - blocks (rd_data r)"
    and "never_fails h \<Longrightarrow> never_fails h' \<and> (n \<le> HTTP_MAX_MESSAGE_BYTES \<longrightarrow> ok)"
    by simp_all
qed

section \<open>The verdict on a prefix of the stream\<close>

datatype verdict = NeedMore | Bad http_read_result_t | Complete nat

definition message_verdict :: "bytes \<Rightarrow> verdict" where
  "message_verdict bs = (case http_find_header_terminator bs of
       None \<Rightarrow> if HTTP_MAX_HEADER_BYTES \<le> length bs then Bad HTTP_READ_TOO_LARGE else NeedMore
     | Some t \<Rightarrow>
       if HTTP_MAX_HEADER_BYTES < t + 4 then Bad HTTP_READ_TOO_LARGE
       else (case framing_verdict bs (t + 4) of
         Inl e \<Rightarrow> Bad (map_framing_error e)
       | Inr b \<Rightarrow> if HTTP_MAX_MESSAGE_BYTES - (t + 4) < b then Bad HTTP_READ_TOO_LARGE
           else if length bs < t + 4 + b then NeedMore else Complete (t + 4 + b)))"

lemma framing_verdict_Inl:
  assumes "framing_verdict data n = Inl e"
  shows "e \<noteq> HTTP_PARSE_OK" and "e \<noteq> HTTP_PARSE_OUT_OF_MEMORY"
proof -
  define g :: heap where "g = \<lparr>outcomes = [], live = 0\<rparr>"
  obtain x g' where fr: "http_inspect_message_framing data n g = (x, g')" by fastforce
  with assms have x: "x = Inl e" by (simp add: framing_verdict_def g_def)
  show "e \<noteq> HTTP_PARSE_OK" using inspect_framing_not_OK [OF fr] x by simp
  have "never_fails g" by (simp add: never_fails_def g_def)
  from inspect_framing_no_oom [OF this fr] x show "e \<noteq> HTTP_PARSE_OUT_OF_MEMORY" by simp
qed

text \<open>
  What a client of the framing may rely on: a verdict that is not ``need more'' does not change
  when more of the stream arrives, and a complete message is a prefix that is complete by
  itself. The consequences hold for every such verdict: the split of a stream into messages
  does not depend on how the bytes were segmented.
\<close>

locale stable_framer =
  fixes verdict :: "bytes \<Rightarrow> verdict"
  assumes stable: "verdict bs \<noteq> NeedMore \<Longrightarrow> verdict (bs @ extra) = verdict bs"
    and empty: "verdict [] = NeedMore"
    and complete_le: "verdict bs = Complete n \<Longrightarrow> n \<le> length bs"
    and complete_exact: "verdict bs = Complete n \<Longrightarrow> verdict (take n bs) = Complete n"
begin

lemma need_more_prefix: "verdict (bs @ extra) = NeedMore \<Longrightarrow> verdict bs = NeedMore"
  using stable by metis

lemma complete_pos: "verdict bs = Complete n \<Longrightarrow> 0 < n"
  using complete_exact [of bs n] empty by (cases n) auto

lemma message_unique:
  assumes "verdict m = Complete (length m)" and "verdict m' = Complete (length m')"
    and "m @ x = m' @ y"
  shows "m = m' \<and> x = y"
proof -
  have "Complete (length m) = Complete (length m')"
    using assms stable by (metis verdict.distinct(3))
  with assms(3) show ?thesis by simp
qed

lemma first_message:
  assumes "verdict m = Complete (length m)" and "bs @ extra = m @ rest"
  shows "verdict bs = NeedMore \<and> length bs < length m \<or> verdict bs = Complete (length m)"
proof (cases "verdict bs = NeedMore")
  case True
  have "\<not> length m \<le> length bs"
  proof
    assume "length m \<le> length bs"
    with assms(2) have "bs = m @ drop (length m) bs"
      by (metis append_eq_append_conv_if append_take_drop_id)
    with stable [of m "drop (length m) bs"] assms(1) True show False by simp
  qed
  with True show ?thesis by simp
next
  case False
  then have "verdict (m @ rest) = verdict bs" using stable [of bs extra] assms(2) by simp
  with stable [of m rest] assms(1) show ?thesis by simp
qed

lemma stream_unique:
  assumes "list_all (\<lambda>m. verdict m = Complete (length m)) ms"
    and "list_all (\<lambda>m. verdict m = Complete (length m)) ms'"
    and "concat ms @ x = concat ms' @ y" and "verdict x = NeedMore" and "verdict y = NeedMore"
  shows "ms = ms' \<and> x = y"
  using assms
proof (induction ms arbitrary: ms')
  case Nil
  show ?case
  proof (cases ms')
    case (Cons m' ms'')
    with Nil have "verdict (m' @ concat ms'' @ y) = NeedMore" "verdict m' = Complete (length m')"
      by simp_all
    with need_more_prefix show ?thesis by fastforce
  qed (use Nil in simp)
next
  case (Cons m ms)
  show ?case
  proof (cases ms')
    case Nil
    with Cons.prems have "verdict (m @ concat ms @ x) = NeedMore" "verdict m = Complete (length m)"
      by simp_all
    with need_more_prefix show ?thesis by fastforce
  next
    case ms': (Cons m' ms'')
    have "m = m' \<and> concat ms @ x = concat ms'' @ y"
      by (rule message_unique) (use Cons.prems ms' in simp_all)
    with Cons.IH [of ms''] Cons.prems ms' show ?thesis by simp
  qed
qed

end

lemma map_framing_error_cases:
  "e \<noteq> HTTP_PARSE_OK \<Longrightarrow> e \<noteq> HTTP_PARSE_OUT_OF_MEMORY \<Longrightarrow>
     map_framing_error e \<in> {HTTP_READ_TOO_LARGE, HTTP_READ_BAD_REQUEST,
       HTTP_READ_UNSUPPORTED_TRANSFER_ENCODING, HTTP_READ_INVALID_CONTENT_LENGTH}"
  by (cases e) auto

lemma framing_verdict_map:
  "framing_verdict data n = Inl e \<Longrightarrow> map_framing_error e \<in> {HTTP_READ_TOO_LARGE,
     HTTP_READ_BAD_REQUEST, HTTP_READ_UNSUPPORTED_TRANSFER_ENCODING, HTTP_READ_INVALID_CONTENT_LENGTH}"
  by (rule map_framing_error_cases) (simp_all add: framing_verdict_Inl)

lemma message_verdict_Bad:
  "message_verdict bs = Bad e \<Longrightarrow> e \<in> {HTTP_READ_TOO_LARGE, HTTP_READ_BAD_REQUEST,
     HTTP_READ_UNSUPPORTED_TRANSFER_ENCODING, HTTP_READ_INVALID_CONTENT_LENGTH}"
  by (auto simp: message_verdict_def dest: framing_verdict_map split: option.splits if_splits sum.splits)

lemma message_verdict_Complete_iff:
  "message_verdict bs = Complete n \<longleftrightarrow> (\<exists>t b. http_find_header_terminator bs = Some t
     \<and> t + 4 \<le> HTTP_MAX_HEADER_BYTES \<and> framing_verdict bs (t + 4) = Inr b
     \<and> b \<le> HTTP_MAX_MESSAGE_BYTES - (t + 4) \<and> n = t + 4 + b \<and> n \<le> length bs)"
  by (auto simp: message_verdict_def not_less split: option.splits if_splits sum.splits)

lemma message_verdict_stable:
  assumes "message_verdict bs \<noteq> NeedMore"
  shows "message_verdict (bs @ extra) = message_verdict bs"
proof (cases "http_find_header_terminator bs")
  case None
  with assms have long: "HTTP_MAX_HEADER_BYTES \<le> length bs" and tl: "message_verdict bs = Bad HTTP_READ_TOO_LARGE"
    by (auto simp: message_verdict_def split: if_splits)
  show ?thesis
  proof (cases "http_find_header_terminator (bs @ extra)")
    case None
    with long tl show ?thesis by (simp add: message_verdict_def)
  next
    case (Some t)
    have "\<not> t + 4 \<le> length bs"
    proof
      assume t: "t + 4 \<le> length bs"
      with Some have "at_terminator (drop t bs @ extra)"
        by (simp add: find_terminator_Some_iff)
      with t have "at_terminator (drop t bs)" using at_terminator_append [of t bs extra] by simp
      with None show False by (simp add: find_terminator_None_iff)
    qed
    with long Some tl show ?thesis by (simp add: message_verdict_def)
  qed
next
  case (Some t)
  have "t + 4 \<le> length bs"
    using Some by (auto simp: find_terminator_Some_iff intro: at_terminator_length)
  with assms Some show ?thesis
    by (auto simp: message_verdict_def find_terminator_append framing_verdict_append
        split: if_splits sum.splits)
qed

lemma message_verdict_exact:
  assumes "message_verdict bs = Complete n"
  shows "message_verdict (take n bs) = Complete n"
proof -
  obtain t b where t: "http_find_header_terminator bs = Some t" "t + 4 \<le> HTTP_MAX_HEADER_BYTES"
      "framing_verdict bs (t + 4) = Inr b" "b \<le> HTTP_MAX_MESSAGE_BYTES - (t + 4)"
      "n = t + 4 + b" "n \<le> length bs"
    using assms by (auto simp: message_verdict_Complete_iff)
  have "http_find_header_terminator (take n bs) = Some t"
    using t by (intro find_terminator_take) simp_all
  moreover have "framing_verdict (take n bs) (t + 4) = Inr b"
    using framing_verdict_append [of "t + 4" "take n bs" "drop n bs"] t by simp
  ultimately show ?thesis using t by (simp add: message_verdict_Complete_iff)
qed

interpretation mf: stable_framer message_verdict
proof
  show "message_verdict [] = NeedMore" by (simp add: message_verdict_def http_limits)
  show "n \<le> length bs" if "message_verdict bs = Complete n" for bs n
    using that by (auto simp: message_verdict_Complete_iff)
qed (rule message_verdict_stable message_verdict_exact; assumption)+

section \<open>One turn of the loop\<close>

lemma try_extract_length_facts:
  assumes "try_extract_length r h = (x, h1)"
  shows "live h1 = live h" and "never_fails h \<Longrightarrow> never_fails h1 \<and> x \<noteq> Inl HTTP_READ_OUT_OF_MEMORY"
    and "x = Inl HTTP_READ_OUT_OF_MEMORY \<or> message_verdict (rd_bytes r) = (case x of
      Inl e \<Rightarrow> if e = HTTP_READ_IO_ERROR then NeedMore else Bad e | Inr n \<Rightarrow> Complete n)"
proof -
  let ?bs = "rd_bytes r"
  have "live h1 = live h \<and> (never_fails h \<longrightarrow> never_fails h1 \<and> x \<noteq> Inl HTTP_READ_OUT_OF_MEMORY)
    \<and> (x = Inl HTTP_READ_OUT_OF_MEMORY \<or> message_verdict ?bs = (case x of
      Inl e \<Rightarrow> if e = HTTP_READ_IO_ERROR then NeedMore else Bad e | Inr n \<Rightarrow> Complete n))"
  proof (cases "http_find_header_terminator ?bs")
    case None
    with assms mf.empty show ?thesis
      by (auto simp: try_extract_length_def message_verdict_def split: if_splits)
  next
    case (Some t)
    then have ne: "?bs \<noteq> []" by auto
    obtain fr h2 where fr: "http_inspect_message_framing ?bs (t + 4) h = (fr, h2)" by fastforce
    note l = inspect_framing_live [OF fr] and v = framing_verdict(1) [OF fr]
      and nf = framing_verdict(2) [OF fr] inspect_framing_no_oom [OF _ fr]
    show ?thesis
    proof (cases "HTTP_MAX_HEADER_BYTES < t + 4")
      case True
      with assms Some ne show ?thesis by (auto simp: try_extract_length_def message_verdict_def)
    next
      case small: False
      show ?thesis
      proof (cases fr)
        case (Inl e)
        have "x = Inl (map_framing_error e)" "h1 = h2"
          using assms Some ne small fr Inl by (simp_all add: try_extract_length_def)
        moreover have "map_framing_error e \<noteq> HTTP_READ_IO_ERROR" by (cases e) auto
        moreover have "map_framing_error e = HTTP_READ_OUT_OF_MEMORY \<longleftrightarrow> e = HTTP_PARSE_OUT_OF_MEMORY"
          by (cases e) auto
        ultimately show ?thesis
          using l v nf Some small Inl by (auto simp: message_verdict_def split: sum.splits)
      next
        case (Inr b)
        with v have "framing_verdict ?bs (t + 4) = Inr b" by simp
        then show ?thesis
          using assms Some ne small fr l nf Inr
          by (auto simp: try_extract_length_def message_verdict_def Let_def split: if_splits)
      qed
    qed
  qed
  then show "live h1 = live h" and "never_fails h \<Longrightarrow> never_fails h1 \<and> x \<noteq> Inl HTTP_READ_OUT_OF_MEMORY"
    and "x = Inl HTTP_READ_OUT_OF_MEMORY \<or> message_verdict (rd_bytes r) = (case x of
      Inl e \<Rightarrow> if e = HTTP_READ_IO_ERROR then NeedMore else Bad e | Inr n \<Rightarrow> Complete n)"
    by blast+
qed

text \<open>
  Where the verdict is ``need more'', the second framing inspection can only fail for lack of
  memory, and there is always something to make room for.
\<close>

lemma reader_need_facts:
  assumes "reader_need r h = (y, h1)" and more: "message_verdict (rd_bytes r) = NeedMore"
  shows "live h1 = live h" and "never_fails h \<Longrightarrow> never_fails h1 \<and> \<not> isl y"
    and "y = Inl HTTP_READ_OUT_OF_MEMORY
      \<or> (\<exists>need. y = Inr need \<and> length (rd_bytes r) < need \<and> need \<le> HTTP_MAX_MESSAGE_BYTES)"
proof -
  let ?bs = "rd_bytes r"
  have "live h1 = live h \<and> (never_fails h \<longrightarrow> never_fails h1 \<and> \<not> isl y)
    \<and> (y = Inl HTTP_READ_OUT_OF_MEMORY
      \<or> (\<exists>need. y = Inr need \<and> length ?bs < need \<and> need \<le> HTTP_MAX_MESSAGE_BYTES))"
  proof (cases "http_find_header_terminator ?bs")
    case None
    with more have "length ?bs < HTTP_MAX_HEADER_BYTES"
      by (simp add: message_verdict_def split: if_splits)
    with assms(1) None show ?thesis
      by (auto simp: reader_need_def Let_def reader_constants http_limits min_def split: if_splits)
  next
    case (Some t)
    obtain fr h2 where fr: "http_inspect_message_framing ?bs (t + 4) h = (fr, h2)" by fastforce
    note l = inspect_framing_live [OF fr] and v = framing_verdict(1) [OF fr]
      and nf = framing_verdict(2) [OF fr] inspect_framing_no_oom [OF _ fr]
    obtain b where b: "framing_verdict ?bs (t + 4) = Inr b" "b \<le> HTTP_MAX_MESSAGE_BYTES - (t + 4)"
        "t + 4 \<le> HTTP_MAX_HEADER_BYTES" "length ?bs < t + 4 + b"
      using more Some by (auto simp: message_verdict_def split: if_splits sum.splits)
    have "t + 4 + b \<le> HTTP_MAX_MESSAGE_BYTES" using b by (simp add: http_limits)
    moreover have "fr = Inl HTTP_PARSE_OUT_OF_MEMORY \<or> fr = Inr b" using v b by simp
    ultimately show ?thesis
      using assms(1) Some fr l nf b by (auto simp: reader_need_def)
  qed
  then show "live h1 = live h" and "never_fails h \<Longrightarrow> never_fails h1 \<and> \<not> isl y"
    and "y = Inl HTTP_READ_OUT_OF_MEMORY
      \<or> (\<exists>need. y = Inr need \<and> length (rd_bytes r) < need \<and> need \<le> HTTP_MAX_MESSAGE_BYTES)"
    by blast+
qed

text \<open>
  The four ways out of the first half of a turn: a message, a protocol error, no memory, or
  room for more bytes. The check \<open>space == 0\<close> and the second check of the header limit
  never fire.
\<close>

lemma reader_prepare_facts:
  assumes "reader_prepare r h = (x, r', h')" and ok: "reader_ok r"
  shows "reader_ok r'"
    and "live h' = live h + blocks (rd_data r') - blocks (rd_data r)
      + (case x of Inl (_, m) \<Rightarrow> blocks m | Inr _ \<Rightarrow> 0)"
    and "never_fails h \<Longrightarrow> never_fails h' \<and> x \<noteq> Inl (HTTP_READ_OUT_OF_MEMORY, None)"
    and "(\<exists>m. x = Inl (HTTP_READ_OK, Some m) \<and> message_verdict (rd_bytes r) = Complete (length m)
          \<and> rd_bytes r = m @ rd_bytes r')
      \<or> (\<exists>e. x = Inl (e, None) \<and> message_verdict (rd_bytes r) = Bad e \<and> rd_bytes r' = [])
      \<or> x = Inl (HTTP_READ_OUT_OF_MEMORY, None)
      \<or> (\<exists>space. x = Inr space \<and> message_verdict (rd_bytes r) = NeedMore
          \<and> rd_bytes r' = rd_bytes r \<and> 0 < space \<and> space = rd_capacity r' - length (rd_bytes r'))"
proof -
  let ?bs = "rd_bytes r"
  let ?goal = "reader_ok r' \<and> live h' = live h + blocks (rd_data r') - blocks (rd_data r)
      + (case x of Inl (_, m) \<Rightarrow> blocks m | Inr _ \<Rightarrow> 0)
    \<and> (never_fails h \<longrightarrow> never_fails h' \<and> x \<noteq> Inl (HTTP_READ_OUT_OF_MEMORY, None))
    \<and> ((\<exists>m. x = Inl (HTTP_READ_OK, Some m) \<and> message_verdict ?bs = Complete (length m)
          \<and> ?bs = m @ rd_bytes r')
      \<or> (\<exists>e. x = Inl (e, None) \<and> message_verdict ?bs = Bad e \<and> rd_bytes r' = [])
      \<or> x = Inl (HTTP_READ_OUT_OF_MEMORY, None)
      \<or> (\<exists>space. x = Inr space \<and> message_verdict ?bs = NeedMore
          \<and> rd_bytes r' = ?bs \<and> 0 < space \<and> space = rd_capacity r' - length (rd_bytes r')))"
  obtain y h1 where y: "try_extract_length r h = (y, h1)" by fastforce
  note yf = try_extract_length_facts [OF y]
  have ?goal
  proof (cases y)
    case (Inr n)
    obtain g h2 where g: "malloc h1 = (g, h2)" by fastforce
    have v: "message_verdict ?bs = Complete n" using yf(3) Inr by simp
    then have n: "0 < n" "n \<le> length ?bs" using mf.complete_pos mf.complete_le by auto
    then obtain bs where "rd_data r = Some bs" by (cases "rd_data r") (auto simp: rd_bytes_def)
    with assms(1) y Inr g ok n v yf malloc_live [OF g] never_fails_malloc [OF _ g] show ?thesis
      by (auto simp: reader_prepare_def take_message_def reader_ok_def rd_bytes_def split: if_splits)
  next
    case (Inl e)
    show ?thesis
    proof (cases "e = HTTP_READ_IO_ERROR")
      case False
      with assms(1) y Inl ok yf show ?thesis
        by (auto simp: reader_prepare_def)
    next
      case True
      then have v: "message_verdict ?bs = NeedMore" using yf(3) Inl by simp
      obtain z h2 where z: "reader_need r h1 = (z, h2)" by fastforce
      note zf = reader_need_facts [OF z v]
      show ?thesis
      proof (cases z)
        case oom: (Inl e')
        with assms(1) y z Inl True ok yf zf show ?thesis by (auto simp: reader_prepare_def)
      next
        case (Inr need)
        obtain c r1 h3 where c: "ensure_capacity r need h2 = (c, r1, h3)"
          by (cases "ensure_capacity r need h2")
        note cf = ensure_capacity_facts [OF c ok]
        have need: "length ?bs < need" "need \<le> HTTP_MAX_MESSAGE_BYTES" using zf(3) Inr by auto
        show ?thesis
        proof (cases c)
          case cT: True
          then have "0 < rd_capacity r1 - length (rd_bytes r1)" using cf(2,3) need by simp
          with assms(1) y z c Inl True Inr cT v cf yf zf show ?thesis
            by (auto simp: reader_prepare_def)
        next
          case cF: False
          with assms(1) y z c Inl True Inr need cf yf zf show ?thesis
            by (auto simp: reader_prepare_def)
        qed
      qed
    qed
  qed
  then show "reader_ok r'"
    and "live h' = live h + blocks (rd_data r') - blocks (rd_data r)
      + (case x of Inl (_, m) \<Rightarrow> blocks m | Inr _ \<Rightarrow> 0)"
    and "never_fails h \<Longrightarrow> never_fails h' \<and> x \<noteq> Inl (HTTP_READ_OUT_OF_MEMORY, None)"
    and "(\<exists>m. x = Inl (HTTP_READ_OK, Some m) \<and> message_verdict (rd_bytes r) = Complete (length m)
          \<and> rd_bytes r = m @ rd_bytes r')
      \<or> (\<exists>e. x = Inl (e, None) \<and> message_verdict (rd_bytes r) = Bad e \<and> rd_bytes r' = [])
      \<or> x = Inl (HTTP_READ_OUT_OF_MEMORY, None)
      \<or> (\<exists>space. x = Inr space \<and> message_verdict (rd_bytes r) = NeedMore
          \<and> rd_bytes r' = rd_bytes r \<and> 0 < space \<and> space = rd_capacity r' - length (rd_bytes r'))"
    by blast+
qed

section \<open>The byte stream\<close>

text \<open>The bytes still to come out of the connection: what is buffered, then what \<open>recv\<close> will return.\<close>

definition event_bytes :: "recv_event \<Rightarrow> bytes" where
  "event_bytes e = (case e of RECV_BYTES bs \<Rightarrow> bs | RECV_ERR _ \<Rightarrow> [])"

definition stream :: "http_reader_t \<Rightarrow> conn_env \<Rightarrow> bytes" where
  "stream r env = rd_bytes r @ concat (map event_bytes (recvs env))"

lemma recv_facts:
  assumes "recv space env = Some (e, env')"
  shows "concat (map event_bytes (recvs env)) = event_bytes e @ concat (map event_bytes (recvs env'))"
    and "length (event_bytes e) \<le> space"
  using assms by (auto simp: recv_def event_bytes_def split: list.splits recv_event.splits if_splits)

lemma start_deadline_clocks:
  assumes "start_deadline rq d env = Some (Some d2, env')"
  shows "d = Some d2 \<and> clocks env' = clocks env
    \<or> d = None \<and> (\<exists>c. d2 = c\<lparr>tv_sec := tv_sec c + rq\<rparr> \<and> clocks env = Some c # clocks env')"
  using assms by (auto simp: start_deadline_def dest!: clock_gettime_env(4) split: option.splits)

text \<open>
  How a turn uses the clock and \<open>poll\<close>: all its waits have the timeout computed at its
  start, and a deadline is set once, from a clock reading.
\<close>

definition turn_waits :: "int \<Rightarrow> timespec option \<Rightarrow> conn_env \<Rightarrow> conn_env \<Rightarrow> bool" where
  "turn_waits ka d env env' = (\<exists>t n env1. reader_timeout ka d env = Some (t, env1)
     \<and> waits env' = waits env @ replicate n t \<and> (n = 0 \<or> d = None \<or> t \<noteq> 0))"

definition turn_clocks ::
  "int \<Rightarrow> timespec option \<Rightarrow> conn_env \<Rightarrow> timespec option \<Rightarrow> conn_env \<Rightarrow> bool" where
  "turn_clocks rq d env d' env' = (suffix (clocks env') (clocks env) \<and> (d' = d
     \<or> d = None \<and> (\<exists>c. d' = Some (c\<lparr>tv_sec := tv_sec c + rq\<rparr>)
         \<and> clocks env = Some c # clocks env')))"

lemma reader_loop_cases:
  assumes "reader_loop ka rq d r env h = Some out"
  obtains (ready) res r1 h1 where "reader_prepare r h = (Inl res, r1, h1)" "out = (res, r1, env, h1)"
  | (stop) e space r1 h1 env' where "reader_prepare r h = (Inr space, r1, h1)"
      "out = ((e, None), r1, env', h1)" "e = HTTP_READ_TIMEOUT \<or> e = HTTP_READ_IO_ERROR"
      "e = HTTP_READ_TIMEOUT \<Longrightarrow> stream r1 env' = stream r1 env" "turn_waits ka d env env'"
  | (closed) space r1 h1 env' where "reader_prepare r h = (Inr space, r1, h1)"
      "out = ((HTTP_READ_CLIENT_CLOSED, None), rd_clear r1, env', h1)" "turn_waits ka d env env'"
  | (again) space r1 h1 d' r2 env' where "reader_prepare r h = (Inr space, r1, h1)"
      "reader_loop ka rq d' r2 env' h1 = Some out" "stream r2 env' = stream r1 env"
      "r2 = r1 \<or> (\<exists>bs. r2 = rd_append r1 bs \<and> bs \<noteq> [] \<and> length bs \<le> space)"
      "length (polls env') < length (polls env)"
      "turn_waits ka d env env'" "turn_clocks rq d env d' env'"
proof -
  obtain x r1 h1 where p: "reader_prepare r h = (x, r1, h1)" by (cases "reader_prepare r h")
  show thesis
  proof (cases x)
    case (Inl res)
    with assms p ready show thesis by (simp add: reader_loop.simps [of ka rq d r env h])
  next
    case (Inr space)
    note p = p [unfolded Inr]
    note run = assms [unfolded reader_loop.simps [of ka rq d r env h] p prod.case sum.case]
    from run obtain t env1 where t: "reader_timeout ka d env = Some (t, env1)"
      by (cases "reader_timeout ka d env") auto
    note te = reader_timeout_env [OF t]
    have stop': thesis if "out = ((e, None), r1, env', h1)" "e = HTTP_READ_TIMEOUT \<or> e = HTTP_READ_IO_ERROR"
        "e = HTTP_READ_TIMEOUT \<Longrightarrow> concat (map event_bytes (recvs env')) = concat (map event_bytes (recvs env))"
        "turn_waits ka d env env'" for e env'
      using stop [OF p that(1,2) _ that(4)] that(3) by (simp add: stream_def)
    have tw: "turn_waits ka d env env'" if "\<exists>n. waits env' = waits env @ replicate n t"
        "waits env' = waits env \<or> d = None \<or> t \<noteq> 0" for env'
      using that t by (auto simp: turn_waits_def intro: exI [of _ 0])
    have tc: "suffix (clocks env1) (clocks env)" "d = None \<Longrightarrow> clocks env1 = clocks env"
      using t by (auto simp: reader_timeout_def Let_def suffix_Cons dest!: clock_gettime_env(4) split: option.splits)
    show thesis
    proof (cases "d \<noteq> None \<and> t = 0")
      case True
      with run t te stop' [of HTTP_READ_TIMEOUT env1] tw [of env1] exI [of _ 0] show thesis by simp
    next
      case go: False
      note run = run [unfolded t option.case prod.case if_not_P [OF go]]
      from run obtain rc env2 where w: "wait_readable t env1 = Some (rc, env2)"
        by (cases "wait_readable t env1") auto
      note we = wait_readable_env [OF w]
      have w2: "turn_waits ka d env env'" if "waits env' = waits env2" for env'
        using we(4) te(3) go that by (intro tw) auto
      show thesis
      proof (cases "rc \<le> 0")
        case True
        with run w we te w2 stop' [of HTTP_READ_TIMEOUT env2] stop' [of HTTP_READ_IO_ERROR env2]
        show thesis by (cases "rc = 0") simp_all
      next
        case pos: False
        then have rc: "rc \<noteq> 0" "\<not> rc < 0" by simp_all
        note run = run [unfolded w option.case prod.case if_not_P [OF rc(1)] if_not_P [OF rc(2)]]
        from run obtain e env3 where e: "recv space env2 = Some (e, env3)"
          by (cases "recv space env2") auto
        note ee = recv_env [OF e] recv_facts [OF e]
        have shorter: "length (polls env3) < length (polls env)" using we(1) te(1) ee(1) by simp
        have w3: "turn_waits ka d env env3" by (rule w2 [OF ee(3)])
        show thesis
        proof (cases e)
          case (RECV_ERR n)
          then have same: "concat (map event_bytes (recvs env3)) = concat (map event_bytes (recvs env))"
            using ee(4) we(3) te(2) by (simp add: event_bytes_def)
          show thesis
          proof (cases n)
            case EINTR
            have "turn_clocks rq d env d env3"
              using tc we(2) ee(2) by (simp add: turn_clocks_def)
            with EINTR run e RECV_ERR again [OF p, of d r1 env3] same shorter w3 show thesis
              by (simp add: stream_def)
          next
            case EAGAIN
            with run e RECV_ERR stop' [of HTTP_READ_TIMEOUT env3] w3 same show thesis by simp
          next
            case EOTHER
            with run e RECV_ERR w3 stop' [of HTTP_READ_IO_ERROR env3] show thesis by simp
          qed
        next
          case (RECV_BYTES bs)
          show thesis
          proof (cases "bs = []")
            case True
            with run e RECV_BYTES w3 closed [OF p, of env3] show thesis by simp
          next
            case False
            note run = run [unfolded e RECV_BYTES option.case prod.case recv_event.case if_not_P [OF False]]
            from run obtain d' env4 where d': "start_deadline rq d env3 = Some (d', env4)"
              by (cases "start_deadline rq d env3") auto
            note de = start_deadline_env [OF d']
            have w4: "turn_waits ka d env env4" by (rule w2) (simp add: de(3) ee(3))
            show thesis
            proof (cases d')
              case None
              with run d' w4 stop' [of HTTP_READ_IO_ERROR env4] show thesis by simp
            next
              case (Some d2)
              have "stream (rd_append r1 bs) env4 = stream r1 env"
                using ee(4) we(3) te(2) de(2) RECV_BYTES by (simp add: stream_def event_bytes_def)
              moreover have "\<exists>bs'. rd_append r1 bs = rd_append r1 bs' \<and> bs' \<noteq> [] \<and> length bs' \<le> space"
                using False ee(5) RECV_BYTES by (auto simp: event_bytes_def)
              moreover have "turn_clocks rq d env (Some d2) env4"
                using start_deadline_clocks [OF d' [unfolded Some]] tc we(2) ee(2)
                by (auto simp: turn_clocks_def) (metis suffix_ConsI suffix_order.order_refl)
              ultimately show thesis
                using run d' Some again [OF p, of "Some d2" "rd_append r1 bs" env4] shorter de(1) w4 by simp
            qed
          qed
        qed
      qed
    qed
  qed
qed

text \<open>
  What a result says about the stream \<open>s\<close> that was there before the call: a message is cut off
  its front, a timeout loses nothing, and a protocol error is the verdict on the stream.
\<close>

definition reader_outcome ::
  "bytes \<Rightarrow> http_read_result_t \<Rightarrow> bytes option \<Rightarrow> http_reader_t \<Rightarrow> conn_env \<Rightarrow> bool" where
  "reader_outcome s res msg r' env' = (case res of
       HTTP_READ_OK \<Rightarrow> (case msg of None \<Rightarrow> False
         | Some m \<Rightarrow> message_verdict m = Complete (length m) \<and> s = m @ stream r' env')
     | HTTP_READ_TIMEOUT \<Rightarrow> msg = None \<and> stream r' env' = s
     | HTTP_READ_CLIENT_CLOSED \<Rightarrow> msg = None \<and> rd_bytes r' = []
     | HTTP_READ_IO_ERROR \<Rightarrow> msg = None
     | HTTP_READ_OUT_OF_MEMORY \<Rightarrow> msg = None
     | _ \<Rightarrow> msg = None \<and> rd_bytes r' = [] \<and> message_verdict s = Bad res)"

lemma reader_outcome_message:
  assumes "message_verdict (rd_bytes r) = Complete (length m)" and "rd_bytes r = m @ rd_bytes r'"
  shows "reader_outcome (stream r env) HTTP_READ_OK (Some m) r' env"
  using message_verdict_exact [OF assms(1)] assms(2) by (simp add: reader_outcome_def stream_def)

lemma reader_outcome_bad:
  assumes "message_verdict (rd_bytes r) = Bad e" and "rd_bytes r' = []"
  shows "reader_outcome (stream r env) e None r' env"
proof -
  have "message_verdict (stream r env) = Bad e"
    unfolding stream_def using message_verdict_stable assms(1) by simp
  with message_verdict_Bad [OF assms(1)] assms(2) show ?thesis
    by (auto simp: reader_outcome_def)
qed

lemma reader_loop_facts:
  assumes "reader_loop ka rq d r env h = Some ((res, msg), r', env', h')" and "reader_ok r"
  shows "reader_ok r' \<and> live h' = live h + blocks (rd_data r') - blocks (rd_data r) + blocks msg
    \<and> reader_outcome (stream r env) res msg r' env'
    \<and> (never_fails h \<longrightarrow> never_fails h' \<and> res \<noteq> HTTP_READ_OUT_OF_MEMORY)"
  using assms
proof (induction "length (polls env)" arbitrary: d r env h rule: less_induct)
  case less
  from less.prems(1) show ?case
  proof (cases rule: reader_loop_cases)
    case (ready out r1 h1)
    note pf = reader_prepare_facts [OF ready(1) less.prems(2)]
    from ready pf(4) consider m where "res = HTTP_READ_OK" "msg = Some m"
        "message_verdict (rd_bytes r) = Complete (length m)" "rd_bytes r = m @ rd_bytes r'"
      | "msg = None" "message_verdict (rd_bytes r) = Bad res" "rd_bytes r' = []"
      | "msg = None" "res = HTTP_READ_OUT_OF_MEMORY"
      by auto
    then show ?thesis
    proof cases
      case 1
      then show ?thesis using ready pf(1-3) reader_outcome_message [OF 1(3,4), of env] by auto
    next
      case 2
      then show ?thesis
        using ready pf(1-3) reader_outcome_bad [OF 2(2,3), of env] message_verdict_Bad [OF 2(2)] by auto
    next
      case 3
      then show ?thesis using ready pf(1-3) by (auto simp: reader_outcome_def)
    qed
  next
    case (stop e space r1 h1 env1)
    note pf = reader_prepare_facts [OF stop(1) less.prems(2)]
    then have "rd_bytes r1 = rd_bytes r" by auto
    then have "stream r1 env = stream r env" by (simp add: stream_def)
    with stop pf(1-3) show ?thesis by (auto simp: reader_outcome_def)
  next
    case (closed space r1 h1 env1)
    note pf = reader_prepare_facts [OF closed(1) less.prems(2)]
    with closed show ?thesis by (auto simp: reader_outcome_def)
  next
    case (again space r1 h1 d' r2 env2)
    note pf = reader_prepare_facts [OF again(1) less.prems(2)]
    then have "rd_bytes r1 = rd_bytes r" and sp: "space = rd_capacity r1 - length (rd_bytes r1)" by auto
    then have s: "stream r2 env2 = stream r env" using again(3) by (simp add: stream_def)
    have r2: "reader_ok r2" "blocks (rd_data r2) = blocks (rd_data r1)"
      using again(4) pf(1) reader_ok_append [OF pf(1)] sp by auto
    from less.hyps [OF again(5,2) r2(1)] s r2(2) pf(2,3) show ?thesis by auto
  qed
qed

lemma next_request_loop:
  assumes "http_reader_next_request ka rq r env h = Some ((res, msg), r', env', h')"
  obtains (clock) "res = HTTP_READ_IO_ERROR" "msg = None" "r' = r" "h' = h"
  | (loop) ka' rq' d env1 where "reader_loop ka' rq' d r env1 h = Some ((res, msg), r', env', h')"
      "stream r env1 = stream r env"
  using assms
  by (auto simp: http_reader_next_request_def Let_def stream_def dest: clock_gettime_env
      split: if_splits option.splits)

lemma next_request_facts:
  assumes "http_reader_next_request ka rq r env h = Some ((res, msg), r', env', h')" and "reader_ok r"
  shows "reader_ok r' \<and> live h' = live h + blocks (rd_data r') - blocks (rd_data r) + blocks msg
    \<and> reader_outcome (stream r env) res msg r' env'
    \<and> (never_fails h \<longrightarrow> never_fails h' \<and> res \<noteq> HTTP_READ_OUT_OF_MEMORY)"
  using assms(1)
proof (cases rule: next_request_loop)
  case clock
  with assms(2) show ?thesis by (simp add: reader_outcome_def)
next
  case (loop ka' rq' d env1)
  from reader_loop_facts [OF loop(1) assms(2)] loop(2) show ?thesis by simp
qed

section \<open>Timeouts\<close>

definition clock_le :: "timespec \<Rightarrow> timespec \<Rightarrow> bool" where
  "clock_le a b = (\<not> timespec_before b a)"

text \<open>Successive readings of a monotonic clock: normalised, and never going back.\<close>

definition monotonic :: "timespec option list \<Rightarrow> bool" where
  "monotonic cs = (sorted_wrt clock_le [c. Some c \<leftarrow> cs]
     \<and> (\<forall>c. Some c \<in> set cs \<longrightarrow> 0 \<le> tv_nsec c \<and> tv_nsec c < 1000000000))"

lemma remaining_timeout_bound:
  assumes "clock_le c now" and "0 \<le> tv_nsec now" and "tv_nsec now < 1000000000"
    and "0 \<le> tv_nsec c" and "tv_nsec c < 1000000000" and "1 \<le> rq"
  shows "remaining_timeout_ms (c\<lparr>tv_sec := tv_sec c + rq\<rparr>) (Some now) \<le> rq * 1000"
proof -
  let ?d = "(tv_sec c + rq) - tv_sec now" and ?n = "tv_nsec c - tv_nsec now"
  have le: "tv_sec c < tv_sec now \<or> tv_sec c = tv_sec now \<and> tv_nsec c \<le> tv_nsec now"
    using assms(1) by (auto simp: clock_le_def timespec_before_def split: if_splits)
  then have d: "?d \<le> rq" by auto
  show ?thesis
  proof (cases "?n < 0")
    case True
    have "(?n + 1000000000) div 1000000 \<le> 1000" using True by simp
    with True d assms(6) show ?thesis
      by (simp add: remaining_timeout_ms_def Let_def)
  next
    case False
    have "?n div 1000000 < 1000" using assms by simp
    moreover have "?d \<le> rq - 1 \<or> ?n = 0" using le False by auto
    ultimately show ?thesis using False d assms(6)
      by (auto simp: remaining_timeout_ms_def Let_def)
  qed
qed

lemma remaining_timeout_nonneg: "0 \<le> remaining_timeout_ms d now"
proof (cases now)
  case None
  then show ?thesis by (simp add: remaining_timeout_ms_def)
next
  case (Some c)
  have "0 \<le> (if a then 0 else if b then 1000 * 1000
      else if m \<le> 0 then 0 else if 2147483647 < m then 2147483647 else m)" for a b and m :: int
    by simp
  then show ?thesis unfolding remaining_timeout_ms_def Some option.case Let_def .
qed

definition deadline_ok :: "int \<Rightarrow> timespec option \<Rightarrow> timespec option list \<Rightarrow> bool" where
  "deadline_ok rq d cs = (case d of None \<Rightarrow> True
     | Some dl \<Rightarrow> \<forall>c. Some c \<in> set cs \<longrightarrow> remaining_timeout_ms dl (Some c) \<le> rq * 1000)"

lemma turn_waits_bound:
  assumes "turn_waits ka d env env'" and "1 \<le> ka" and "1 \<le> rq" and "deadline_ok rq d (clocks env)"
  shows "\<exists>ts. waits env' = waits env @ ts \<and> (\<forall>t\<in>set ts. 0 < t \<and> t \<le> max ka rq * 1000)"
proof -
  obtain t n env1 where t: "reader_timeout ka d env = Some (t, env1)"
    and w: "waits env' = waits env @ replicate n t" and n: "n = 0 \<or> d = None \<or> t \<noteq> 0"
    using assms(1) by (auto simp: turn_waits_def)
  have "0 < t \<and> t \<le> max ka rq * 1000" if "n \<noteq> 0"
  proof (cases d)
    case None
    with t assms(2) show ?thesis by (auto simp: reader_timeout_def Let_def split: if_splits)
  next
    case (Some dl)
    with t obtain c where "clock_gettime env = Some (c, env1)" and tc: "t = remaining_timeout_ms dl c"
      by (auto simp: reader_timeout_def split: option.splits)
    from clock_gettime_env(4) [OF this(1)] have c: "c \<in> set (clocks env)" by simp
    have "t \<le> rq * 1000"
    proof (cases c)
      case None
      with tc assms(3) show ?thesis by (simp add: remaining_timeout_ms_def)
    next
      case c': (Some now)
      with c tc assms(4) Some show ?thesis by (simp add: deadline_ok_def)
    qed
    moreover have "0 < t" using remaining_timeout_nonneg [of dl c] n that Some tc by simp
    ultimately show ?thesis by (simp add: max_def)
  qed
  with w show ?thesis by (intro exI [of _ "replicate n t"]) auto
qed

lemma turn_clocks_deadline:
  assumes "turn_clocks rq d env d' env'" and "deadline_ok rq d (clocks env)"
    and mono: "monotonic (clocks env)" and "1 \<le> rq"
  shows "deadline_ok rq d' (clocks env')" and "monotonic (clocks env')"
proof -
  obtain pre where pre: "clocks env = pre @ clocks env'"
    using assms(1) by (auto simp: turn_clocks_def suffix_def)
  then show m': "monotonic (clocks env')"
    using mono by (auto simp: monotonic_def sorted_wrt_append)
  show "deadline_ok rq d' (clocks env')"
  proof (cases "d' = d")
    case True
    with assms(2) pre show ?thesis by (auto simp: deadline_ok_def split: option.splits)
  next
    case False
    then obtain c where d': "d' = Some (c\<lparr>tv_sec := tv_sec c + rq\<rparr>)" and cs: "clocks env = Some c # clocks env'"
      using assms(1) by (auto simp: turn_clocks_def)
    have "remaining_timeout_ms (c\<lparr>tv_sec := tv_sec c + rq\<rparr>) (Some x) \<le> rq * 1000"
      if "Some x \<in> set (clocks env')" for x
      using mono cs that assms(4)
      by (intro remaining_timeout_bound) (auto simp: monotonic_def)
    with d' show ?thesis by (simp add: deadline_ok_def)
  qed
qed

lemma reader_loop_waits:
  assumes "reader_loop ka rq d r env h = Some (out, r', env', h')" and "1 \<le> ka" and "1 \<le> rq"
    and "deadline_ok rq d (clocks env)" and "monotonic (clocks env)"
  shows "\<exists>ts. waits env' = waits env @ ts \<and> (\<forall>t\<in>set ts. 0 < t \<and> t \<le> max ka rq * 1000)"
  using assms(1,4,5)
proof (induction "length (polls env)" arbitrary: d r env h rule: less_induct)
  case less
  note bound = turn_waits_bound [OF _ assms(2,3) less.prems(2)]
  from less.prems(1) show ?case
  proof (cases rule: reader_loop_cases)
    case (again space r1 h1 d' r2 env2)
    obtain ts where ts: "waits env2 = waits env @ ts" "\<forall>t\<in>set ts. 0 < t \<and> t \<le> max ka rq * 1000"
      using bound [OF again(6)] by blast
    obtain ts' where "waits env' = waits env2 @ ts'" "\<forall>t\<in>set ts'. 0 < t \<and> t \<le> max ka rq * 1000"
      using less.hyps [OF again(5,2)] turn_clocks_deadline [OF again(7) less.prems(2,3) assms(3)] by blast
    with ts show ?thesis by (intro exI [of _ "ts @ ts'"]) auto
  qed (use bound in auto)
qed

end
