(* ===== verification/Http_Parser_Language.thy ===== *)
theory Http_Parser_Language
  imports Http_Parser
begin

text \<open>
  What \<^verbatim>\<open>src/http_parser.c\<close> accepts. The header loops are characterised on the lines
  they split the section into; the framing inspection and the parser are shown to agree on
  the fields; and the set of accepted messages is given exactly: a message is parsed to a
  request \<open>r\<close> if and only if it is the request line of \<open>r\<close>, one line per header field with
  optional blanks around the value, a blank line and the body, within the limits.
\<close>

section \<open>What a successful parse has read\<close>

definition header_ok :: "http_header_t \<Rightarrow> bool" where
  "header_ok x =
     (hd_name x \<noteq> [] \<and> SP \<notin> set (hd_name x) \<and> HTAB \<notin> set (hd_name x) \<and> NUL \<notin> set (hd_name x)
      \<and> LF \<notin> set (hd_name x) \<and> CHR '':'' \<notin> set (hd_name x)
      \<and> NUL \<notin> set (hd_value x) \<and> LF \<notin> set (hd_value x) \<and> trimmed (hd_value x))"

abbreviation name_chars_ok :: "bytes \<Rightarrow> bool" where
  "name_chars_ok n \<equiv> SP \<notin> set n \<and> HTAB \<notin> set n \<and> NUL \<notin> set n"

lemma list_ex_blank_nul:
  "list_ex (\<lambda>c. c = SP \<or> c = HTAB \<or> c = NUL) n \<longleftrightarrow> \<not> name_chars_ok n"
  by (induction n) auto

text \<open>A header line and the field it is parsed to: blanks around the value are dropped.\<close>

definition header_line :: "bytes \<Rightarrow> http_header_t \<Rightarrow> bool" where
  "header_line line x = (\<exists>before after. line = hd_name x @ CHR '':'' # before @ hd_value x @ after
     \<and> list_all is_ows before \<and> list_all is_ows after)"

definition add_headers :: "http_request_t \<Rightarrow> http_header_t list \<Rightarrow> http_request_t" where
  "add_headers r new = (if new = [] then r
     else r\<lparr>rq_headers := Some (header_list (rq_headers r) @ new)\<rparr>)"

lemma header_list_simps [simp]: "header_list None = []" "header_list (Some xs) = xs"
  by (simp_all add: header_list_def)

lemma add_headers_simps [simp]:
  "rq_method (add_headers r new) = rq_method r"
  "rq_target (add_headers r new) = rq_target r"
  "rq_version (add_headers r new) = rq_version r"
  "rq_body (add_headers r new) = rq_body r"
  "rq_body_length (add_headers r new) = rq_body_length r"
  "header_list (rq_headers (add_headers r new)) = header_list (rq_headers r) @ new"
  by (simp_all add: add_headers_def)

lemma add_headers_Nil [simp]: "add_headers r [] = r"
  by (simp add: add_headers_def)

lemma add_headers_add_headers: "add_headers (add_headers r xs) ys = add_headers r (xs @ ys)"
  by (simp add: add_headers_def)

lemma append_header_OK:
  "append_header r n v h = (HTTP_PARSE_OK, r', h') \<Longrightarrow>
     r' = add_headers r [\<lparr>hd_name = n, hd_value = v\<rparr>] \<and>
     length (header_list (rq_headers r)) < HTTP_MAX_HEADERS"
  by (auto simp: append_header_def add_headers_def split: if_splits prod.splits)

lemma parse_header_line_OK:
  assumes "parse_header_line line r h = (HTTP_PARSE_OK, r', h')"
  obtains n v where "colon_split line = Some (n, v)" and "name_chars_ok n"
    and "NUL \<notin> set v" and "r' = add_headers r [\<lparr>hd_name = n, hd_value = v\<rparr>]"
    and "length (header_list (rq_headers r)) < HTTP_MAX_HEADERS"
proof -
  from assms obtain n v where nv: "colon_split line = Some (n, v)"
    by (auto simp: parse_header_line_def split: if_splits option.splits)
  obtain p h1 where d1: "dup_range n h = (p, h1)" by (cases "dup_range n h")
  obtain q h2 where d2: "dup_range v h1 = (q, h2)" by (cases "dup_range v h1")
  have *: "name_chars_ok n \<and> NUL \<notin> set v \<and> p = Some (c_str n) \<and> q = Some (c_str v)
      \<and> append_header r (c_str n) (c_str v) h2 = (HTTP_PARSE_OK, r', h')"
    using assms dup_range_cases(1) [OF d1] dup_range_cases(1) [OF d2]
    by (cases p; cases q)
      (simp_all add: parse_header_line_def nv d1 d2 list_ex_blank_nul split: if_splits)
  then have "c_str n = n" and "c_str v = v" by simp_all
  with * that [OF nv] append_header_OK [of r n v h2 r' h'] show thesis by simp
qed

lemma colon_split_header_line:
  assumes "colon_split line = Some (hd_name x, hd_value x)" and "LF \<notin> set line"
    and "name_chars_ok (hd_name x)" and "NUL \<notin> set (hd_value x)"
  shows "header_line line x" and "header_ok x"
proof -
  from assms(1) obtain raw where raw: "line = hd_name x @ CHR '':'' # raw" "hd_name x \<noteq> []"
    "CHR '':'' \<notin> set (hd_name x)" "hd_value x = trim_ows_end (skip_ows raw)"
    by (auto simp: colon_split_Some_iff)
  show "header_line line x"
    unfolding header_line_def using raw ows_split [of raw] by auto
  show "header_ok x"
    using raw assms(2-4) set_trim_skip [of raw] trimmed_trim_skip [of raw]
    by (auto simp: header_ok_def)
qed

lemma parse_request_line_OK:
  assumes "parse_request_line line r h = (HTTP_PARSE_OK, r', h')"
  obtains m t v where "line = http_method_to_string m @ SP # t @ SP # v"
    and "m \<noteq> HTTP_METHOD_UNKNOWN" and "t \<noteq> []" and "SP \<notin> set t" and "NUL \<notin> set t"
    and "v = ''HTTP/1.0'' \<or> v = ''HTTP/1.1''" and "length line \<le> HTTP_MAX_REQUEST_LINE"
    and "r' = r\<lparr>rq_method := m, rq_target := Some t, rq_version := Some v\<rparr>"
proof -
  have len: "length line \<le> HTTP_MAX_REQUEST_LINE"
    using assms by (simp add: parse_request_line_def split: if_splits)
  from assms obtain ml where ml: "memchr SP line = Some ml"
    by (cases "memchr SP line") (simp_all add: parse_request_line_def split: if_splits)
  let ?m = "take ml line" and ?aft = "drop (Suc ml) line"
  obtain p h1 where d1: "dup_range ?m h = (p, h1)" by (cases "dup_range ?m h")
  have p: "p = Some (c_str ?m)" and nul: "NUL \<notin> set ?m"
    using assms dup_range_cases(1) [OF d1]
    by (auto simp: parse_request_line_def ml d1 split: if_splits)
  then have pm: "p = Some ?m" by simp
  let ?h2 = "c_free (Some ?m) h1"
  from assms obtain tl where tl: "memchr SP ?aft = Some tl"
    by (cases "memchr SP ?aft") (simp_all add: parse_request_line_def ml d1 pm Let_def split: if_splits)
  let ?t = "take tl ?aft" and ?v = "drop (Suc tl) ?aft"
  obtain q h3 where d2: "dup_range ?t ?h2 = (q, h3)" by (cases "dup_range ?t ?h2")
  obtain w h4 where d3: "dup_range ?v h3 = (w, h4)" by (cases "dup_range ?v h3")
  note unfolded = assms [unfolded parse_request_line_def ml d1 pm Let_def option.case prod.case tl d2 d3]
  have *: "is_supported_method_token ?m \<and> tl \<noteq> 0 \<and> NUL \<notin> set ?t \<and> NUL \<notin> set ?v"
    using unfolded by (simp split: if_splits)
  have **: "q = Some ?t \<and> w = Some ?v \<and> (?v = ''HTTP/1.0'' \<or> ?v = ''HTTP/1.1'')
      \<and> r' = r\<lparr>rq_method := http_method_from_string (Some ?m), rq_target := q, rq_version := w\<rparr>"
    using unfolded * dup_range_cases(1) [OF d2] dup_range_cases(1) [OF d3]
    by (cases q; cases w) (simp_all split: if_splits)
  define m where "m = http_method_from_string (Some ?m)"
  have m: "http_method_to_string m = ?m" "m \<noteq> HTTP_METHOD_UNKNOWN"
    using * by (auto simp: m_def is_supported_method_token_def http_method_from_string_def)
  have line: "line = ?m @ SP # ?t @ SP # ?v"
    using memchr_split [OF ml] memchr_split [OF tl] by simp
  have "SP \<notin> set ?t" and "?t \<noteq> []"
    using tl * by (auto simp: memchr_Some_iff)
  with that [of m ?t ?v] line m len * ** show thesis
    by (simp add: m_def)
qed

section \<open>Framing and parsing agree\<close>

text \<open>
  The framing rules on parsed fields instead of raw lines. The framing loop on the raw
  section computes this function of the fields that the parser stores, unless an
  allocation fails.
\<close>

abbreviation is_te :: "http_header_t \<Rightarrow> bool" where
  "is_te x \<equiv> header_name_equal (hd_name x) ''Transfer-Encoding''"

abbreviation is_cl :: "http_header_t \<Rightarrow> bool" where
  "is_cl x \<equiv> header_name_equal (hd_name x) ''Content-Length''"

definition frame_field :: "http_header_t \<Rightarrow> framing \<Rightarrow> http_parse_result_t + framing" where
  "frame_field x st =
     (if is_te x then
        (if header_name_equal (hd_value x) ''chunked'' \<or> strstr (hd_value x) ''chunked''
         then Inr (st\<lparr>saw_chunked := True\<rparr>)
         else Inl HTTP_PARSE_UNSUPPORTED_TRANSFER_ENCODING)
      else if is_cl x then
        (case http_parse_content_length_value (hd_value x) of
           Inl e \<Rightarrow> Inl e
         | Inr n \<Rightarrow> if saw_content_length st then Inl HTTP_PARSE_INVALID_CONTENT_LENGTH
                    else Inr (st\<lparr>saw_content_length := True, content_length := n\<rparr>))
      else Inr st)"

fun frame_fields :: "http_header_t list \<Rightarrow> framing \<Rightarrow> http_parse_result_t + framing" where
  "frame_fields [] st = Inr st"
| "frame_fields (x # xs) st =
     (case frame_field x st of Inl e \<Rightarrow> Inl e | Inr st' \<Rightarrow> frame_fields xs st')"

lemma cl_not_te: "is_cl x \<Longrightarrow> \<not> is_te x"
  using rq_ci.same_length [of "hd_name x" "''Content-Length''"]
    rq_ci.same_length [of "hd_name x" "''Transfer-Encoding''"] by auto

lemma inspect_header_line_frame:
  assumes "colon_split line = Some (hd_name x, hd_value x)"
    and "NUL \<notin> set (hd_name x)" and "NUL \<notin> set (hd_value x)"
    and "inspect_header_line line st h = (r, h')"
  shows "r = frame_field x st \<or> r = Inl HTTP_PARSE_OUT_OF_MEMORY"
    and "never_fails h \<Longrightarrow> r = frame_field x st \<and> never_fails h'"
proof -
  obtain p h1 where d1: "dup_range (hd_name x) h = (p, h1)" by (cases "dup_range (hd_name x) h")
  obtain q h2 where d2: "dup_range (hd_value x) h1 = (q, h2)" by (cases "dup_range (hd_value x) h1")
  have *: "r = frame_field x st \<and> h' = c_free q (c_free p h2)" if "p \<noteq> None" "q \<noteq> None"
  proof -
    have pq: "p = Some (hd_name x)" "q = Some (hd_value x)"
      using that dup_range_cases(1) [OF d1] dup_range_cases(1) [OF d2] assms(2,3) by auto
    show ?thesis
      using assms(4)
      by (auto simp: inspect_header_line_def frame_field_def assms(1) d1 d2 pq
          header_name_equal_parser_eq Let_def split: if_splits sum.splits)
  qed
  moreover have "r = Inl HTTP_PARSE_OUT_OF_MEMORY" if "p = None \<or> q = None"
    using that assms(4)
    by (cases p; cases q) (simp_all add: inspect_header_line_def assms(1) d1 d2)
  ultimately show "r = frame_field x st \<or> r = Inl HTTP_PARSE_OUT_OF_MEMORY"
    by (cases "p = None \<or> q = None") auto
  show "r = frame_field x st \<and> never_fails h'" if "never_fails h"
    using dup_range_never_fails [OF that d1] dup_range_never_fails [OF _ d2] * by simp
qed

text \<open>The lines of a section whose fields the parser stores: the shape both loops walk.\<close>

definition field_lines :: "bytes list \<Rightarrow> http_header_t list \<Rightarrow> bool" where
  "field_lines lines fs = list_all2 (\<lambda>line x. LF \<notin> set line \<and> name_chars_ok (hd_name x)
     \<and> NUL \<notin> set (hd_value x) \<and> colon_split line = Some (hd_name x, hd_value x)) lines fs"

abbreviation section_of :: "bytes list \<Rightarrow> bytes" where
  "section_of lines \<equiv> concat (map (\<lambda>l. l @ CRLF) lines)"

lemma inspect_headers_frame:
  assumes "field_lines lines fs" and "inspect_headers (section_of lines @ CRLF) st h = (r, h')"
  shows "(r = frame_fields fs st \<or> r = Inl HTTP_PARSE_OUT_OF_MEMORY)
      \<and> (never_fails h \<longrightarrow> r = frame_fields fs st \<and> never_fails h')"
  using assms unfolding field_lines_def
proof (induction lines fs arbitrary: st h rule: list_all2_induct)
  case Nil
  then show ?case
    using inspect_headers_blank [of CRLF "[]" st h] crlf_line_CRLF [of "[]" "[]"] by simp
next
  case (Cons line lines x fs)
  have cl: "crlf_line (section_of (line # lines) @ CRLF) = Some (line, section_of lines @ CRLF)"
    using Cons.hyps(1) by simp
  have ne: "line \<noteq> []" using Cons.hyps(1) by (auto simp: colon_split_def)
  obtain r1 h1 where step: "inspect_header_line line st h = (r1, h1)"
    by (cases "inspect_header_line line st h")
  from Cons.hyps(1) have sf: "r1 = frame_field x st \<or> r1 = Inl HTTP_PARSE_OUT_OF_MEMORY"
    "never_fails h \<Longrightarrow> r1 = frame_field x st \<and> never_fails h1"
    using inspect_header_line_frame [OF _ _ _ step, of x] by auto
  note loop = Cons.prems [unfolded inspect_headers_line [OF cl ne] step prod.case]
  show ?case
  proof (cases r1)
    case (Inl e)
    with loop have "r = Inl e" "h' = h1" by simp_all
    with Inl sf show ?thesis by (cases "frame_field x st") auto
  next
    case (Inr st1)
    with loop have "inspect_headers (section_of lines @ CRLF) st1 h1 = (r, h')" by simp
    moreover have "frame_field x st = Inr st1" using Inr sf by auto
    ultimately show ?thesis using Cons.IH sf by auto
  qed
qed

text \<open>What the framing rules conclude from the fields.\<close>

lemma frame_fields_chunked:
  "frame_fields fs st = Inr st' \<Longrightarrow>
     saw_chunked st' \<longleftrightarrow> saw_chunked st \<or> (\<exists>x\<in>set fs. is_te x)"
  by (induction fs arbitrary: st) (auto simp: frame_field_def split: if_splits sum.splits)

lemma frame_fields_seen:
  "frame_fields fs st = Inr st' \<Longrightarrow> saw_content_length st \<Longrightarrow>
     filter is_cl fs = [] \<and> saw_content_length st' \<and> content_length st' = content_length st"
  by (induction fs arbitrary: st)
    (auto simp: frame_field_def dest: cl_not_te split: if_splits sum.splits)

lemma frame_fields_unseen:
  "frame_fields fs st = Inr st' \<Longrightarrow> \<not> saw_content_length st \<Longrightarrow>
     (filter is_cl fs = [] \<and> \<not> saw_content_length st')
     \<or> (\<exists>x. filter is_cl fs = [x] \<and> saw_content_length st'
          \<and> http_parse_content_length_value (hd_value x) = Inr (content_length st'))"
proof (induction fs arbitrary: st)
  case Nil
  then show ?case by simp
next
  case (Cons x fs)
  from Cons.prems(1) obtain st1 where st1: "frame_field x st = Inr st1" "frame_fields fs st1 = Inr st'"
    by (auto split: sum.splits)
  show ?case
  proof (cases "is_cl x")
    case True
    with st1(1) Cons.prems(2) cl_not_te [OF True] have
      "saw_content_length st1" "http_parse_content_length_value (hd_value x) = Inr (content_length st1)"
      by (auto simp: frame_field_def split: sum.splits if_splits)
    with frame_fields_seen [OF st1(2)] True show ?thesis by simp
  next
    case False
    with st1(1) Cons.prems(2) have "\<not> saw_content_length st1"
      by (auto simp: frame_field_def split: if_splits)
    from Cons.IH [OF st1(2) this] False show ?thesis by simp
  qed
qed

text \<open>The body length that the fields announce.\<close>

definition announced_length :: "http_header_t list \<Rightarrow> nat" where
  "announced_length fs = (case find_header fs ''Content-Length'' of None \<Rightarrow> 0
     | Some v \<Rightarrow> (case http_parse_content_length_value v of Inl _ \<Rightarrow> 0 | Inr n \<Rightarrow> n))"

lemma find_header_filter:
  "find_header fs name = (case filter (\<lambda>x. header_name_equal (hd_name x) name) fs of
     [] \<Rightarrow> None | x # _ \<Rightarrow> Some (hd_value x))"
  by (induction fs) auto

text \<open>
  A successful header loop has split the rest of the section into lines, and has appended
  one field per line.
\<close>

lemma parse_headers_OK:
  assumes "parse_headers rest r h = (HTTP_PARSE_OK, r', h')"
    and "length (header_list (rq_headers r)) \<le> HTTP_MAX_HEADERS"
  obtains lines new where "rest = section_of lines" and "r' = add_headers r new"
    and "field_lines lines new" and "length (header_list (rq_headers r')) \<le> HTTP_MAX_HEADERS"
  using assms
proof (induction rest arbitrary: r h thesis rule: crlf_lines_induct)
  case (Stop rest)
  from Stop.prems(2) Stop.hyps have "rest = section_of []" "r' = add_headers r []"
    by (simp_all add: parse_headers_stop split: if_splits)
  then show ?case by (rule Stop.prems(1)) (use Stop.prems(3) \<open>r' = _\<close> in \<open>simp_all add: field_lines_def\<close>)
next
  case (Line rest line "next")
  obtain e r1 h1 where step: "parse_header_line line r h = (e, r1, h1)"
    by (cases "parse_header_line line r h")
  with Line.prems(2) have e: "e = HTTP_PARSE_OK"
    and loop: "parse_headers next r1 h1 = (HTTP_PARSE_OK, r', h')"
    by (auto simp: parse_headers_line [OF Line.hyps] split: if_splits)
  from step [unfolded e] obtain n v where nv: "colon_split line = Some (n, v)"
    "name_chars_ok n" "NUL \<notin> set v" "r1 = add_headers r [\<lparr>hd_name = n, hd_value = v\<rparr>]"
    "length (header_list (rq_headers r)) < HTTP_MAX_HEADERS"
    by (rule parse_header_line_OK)
  have bound: "length (header_list (rq_headers r1)) \<le> HTTP_MAX_HEADERS"
    using nv(4,5) by simp
  obtain lines new where IH: "next = section_of lines" "r' = add_headers r1 new"
    "field_lines lines new" "length (header_list (rq_headers r')) \<le> HTTP_MAX_HEADERS"
    by (rule Line.IH [OF _ loop bound])
  show ?case
    by (rule Line.prems(1) [of "line # lines" "\<lparr>hd_name = n, hd_value = v\<rparr> # new"])
      (use crlf_lineD [OF Line.hyps] IH nv in \<open>simp_all add: field_lines_def add_headers_add_headers\<close>)
qed

text \<open>
  The consistency checks of \<open>finish_request\<close> hold whenever the framing inspection of the
  same section succeeded: after it, only the allocation of the body can fail.
\<close>

lemma finish_request_agrees:
  assumes "frame_fields (header_list (rq_headers r)) framing_init = Inr st" and "\<not> saw_chunked st"
    and eb: "eb = (if saw_content_length st then content_length st else 0)"
  shows "announced_length (header_list (rq_headers r)) = eb" and "eb \<le> HTTP_MAX_BODY_SIZE"
    and "\<forall>x\<in>set (header_list (rq_headers r)). \<not> is_te x"
    and "finish_request data hb eb r h =
      (if eb = 0 then (HTTP_PARSE_OK, r, h)
       else (case malloc h of (ok, h') \<Rightarrow>
         if \<not> ok then parse_fail HTTP_PARSE_OUT_OF_MEMORY r h'
         else (HTTP_PARSE_OK,
               r\<lparr>rq_body := Some (take eb (drop hb data)), rq_body_length := eb\<rparr>, h')))"
proof -
  let ?fs = "header_list (rq_headers r)"
  show no_te: "\<forall>x\<in>set ?fs. \<not> is_te x"
    using frame_fields_chunked [OF assms(1)] assms(2) by blast
  have cases: "(filter is_cl ?fs = [] \<and> eb = 0)
     \<or> (\<exists>x. filter is_cl ?fs = [x] \<and> http_parse_content_length_value (hd_value x) = Inr eb)"
    using frame_fields_unseen [OF assms(1)] by (auto simp: framing_init_def eb)
  then show "announced_length ?fs = eb"
    by (auto simp: announced_length_def find_header_filter)
  from cases show bound: "eb \<le> HTTP_MAX_BODY_SIZE"
    by (auto simp: content_length_value_Inr_iff)
  have "eb \<noteq> SIZE_MAX" using bound by (simp add: http_limits SIZE_MAX_def)
  moreover have "find_header ?fs ''Transfer-Encoding'' = None"
    using no_te by (simp add: find_header_None_iff)
  ultimately show "finish_request data hb eb r h =
      (if eb = 0 then (HTTP_PARSE_OK, r, h)
       else (case malloc h of (ok, h') \<Rightarrow>
         if \<not> ok then parse_fail HTTP_PARSE_OUT_OF_MEMORY r h'
         else (HTTP_PARSE_OK,
               r\<lparr>rq_body := Some (take eb (drop hb data)), rq_body_length := eb\<rparr>, h')))"
    using cases
    by (auto simp: finish_request_def http_request_get_header_def header_name_equal_parser_eq
        find_header_filter Let_def)
qed

section \<open>The language of the parser\<close>

definition body_bytes :: "http_request_t \<Rightarrow> bytes" where
  "body_bytes r = (case rq_body r of None \<Rightarrow> [] | Some b \<Rightarrow> b)"

text \<open>The form of every request that the parser hands out.\<close>

definition request_ok :: "http_request_t \<Rightarrow> bool" where
  "request_ok r =
     (rq_method r \<noteq> HTTP_METHOD_UNKNOWN
      \<and> (case rq_target r of None \<Rightarrow> False
         | Some t \<Rightarrow> t \<noteq> [] \<and> SP \<notin> set t \<and> NUL \<notin> set t \<and> LF \<notin> set t)
      \<and> (rq_version r = Some ''HTTP/1.0'' \<or> rq_version r = Some ''HTTP/1.1'')
      \<and> rq_headers r \<noteq> Some []
      \<and> length (header_list (rq_headers r)) \<le> HTTP_MAX_HEADERS
      \<and> list_all header_ok (header_list (rq_headers r))
      \<and> filter is_te (header_list (rq_headers r)) = []
      \<and> (case filter is_cl (header_list (rq_headers r)) of
           [] \<Rightarrow> rq_body_length r = 0
         | [x] \<Rightarrow> http_parse_content_length_value (hd_value x) = Inr (rq_body_length r)
         | _ \<Rightarrow> False)
      \<and> (case rq_body r of None \<Rightarrow> rq_body_length r = 0
         | Some b \<Rightarrow> b \<noteq> [] \<and> length b = rq_body_length r))"

definition request_line :: "http_request_t \<Rightarrow> bytes" where
  "request_line r = http_method_to_string (rq_method r) @ SP # the (rq_target r) @ SP # the (rq_version r)"

text \<open>The message that carries a request, given the raw header lines.\<close>

definition request_message :: "http_request_t \<Rightarrow> bytes list \<Rightarrow> bytes" where
  "request_message r lines = request_line r @ CRLF @ section_of lines @ CRLF @ body_bytes r"

text \<open>The bounds the parser enforces on the request line and the header section.\<close>

definition within_limits :: "http_request_t \<Rightarrow> bytes list \<Rightarrow> bool" where
  "within_limits r lines = (length (request_line r) \<le> HTTP_MAX_REQUEST_LINE
     \<and> length (request_line r) + length (section_of lines) + 4 \<le> HTTP_MAX_HEADER_BYTES)"

subsection \<open>The first blank line\<close>

lemma find_terminator_Cons:
  "\<not> at_terminator (a # xs) \<Longrightarrow>
     http_find_header_terminator (a # xs) = map_option Suc (http_find_header_terminator xs)"
  by (cases xs rule: http_find_header_terminator.cases; cases "(a # xs)" rule: http_find_header_terminator.cases)
    auto

lemma find_terminator_line:
  assumes "LF \<notin> set l" and "\<not> prefix CRLF xs"
  shows "http_find_header_terminator (l @ CRLF @ xs)
    = map_option (\<lambda>i. length l + 2 + i) (http_find_header_terminator xs)"
  using assms
proof (induction l)
  case Nil
  then show ?case
    by (cases "http_find_header_terminator xs") (auto simp: find_terminator_Cons)
next
  case (Cons a l)
  have "\<not> at_terminator (a # l @ CRLF @ xs)"
    using Cons.prems by (cases l; cases "tl l") (auto simp: prefix_def)
  with Cons show ?case
    by (cases "http_find_header_terminator xs") (auto simp: find_terminator_Cons)
qed

lemma find_terminator_last_line:
  "LF \<notin> set l \<Longrightarrow> http_find_header_terminator (l @ CRLF @ CRLF @ xs) = Some (length l)"
proof (induction l)
  case Nil
  then show ?case by simp
next
  case (Cons a l)
  have "\<not> at_terminator (a # l @ CRLF @ CRLF @ xs)"
    using Cons.prems by (cases l; cases "tl l") (auto simp: prefix_def)
  with Cons show ?case by (auto simp: find_terminator_Cons)
qed

lemma find_terminator_section:
  "LF \<notin> set l \<Longrightarrow> \<forall>x\<in>set lines. LF \<notin> set x \<and> x \<noteq> [] \<Longrightarrow>
     http_find_header_terminator (l @ CRLF @ section_of lines @ CRLF @ xs)
       = Some (length l + length (section_of lines))"
proof (induction lines arbitrary: l)
  case Nil
  then show ?case using find_terminator_last_line [of l xs] by simp
next
  case (Cons x lines)
  have "\<not> prefix CRLF (section_of (x # lines) @ CRLF @ xs)"
    using Cons.prems(2) by (cases x; cases "tl x") (auto simp: prefix_def)
  from find_terminator_line [OF Cons.prems(1) this] Cons.IH [of x] Cons.prems(2)
  show ?case by simp
qed

subsection \<open>Soundness\<close>

lemma field_linesD:
  assumes "field_lines lines fs"
  shows "\<forall>x\<in>set lines. LF \<notin> set x \<and> x \<noteq> []"
  using assms unfolding field_lines_def
  by (induction lines fs rule: list_all2_induct) (auto simp: colon_split_def)

lemma inspect_framing_section:
  assumes "LF \<notin> set l" and "field_lines lines fs"
    and "http_inspect_message_framing (l @ CRLF @ section_of lines @ CRLF @ xs)
      (length l + length (section_of lines) + 4) h = (r, h')"
  shows "(r = Inl HTTP_PARSE_OUT_OF_MEMORY \<and> \<not> never_fails h)
    \<or> (case frame_fields fs framing_init of Inl e \<Rightarrow> r = Inl e
       | Inr st \<Rightarrow> r = (if saw_chunked st then Inl HTTP_PARSE_UNSUPPORTED_TRANSFER_ENCODING
                       else Inr (if saw_content_length st then content_length st else 0)))"
    and "never_fails h \<Longrightarrow> never_fails h'"
proof -
  let ?data = "l @ CRLF @ section_of lines @ CRLF @ xs"
  let ?n = "length l + length (section_of lines) + 4"
  have "?data = (l @ CRLF @ section_of lines @ CRLF) @ xs"
    and "length (l @ CRLF @ section_of lines @ CRLF) = ?n" by simp_all
  then have sect: "take ?n ?data = l @ CRLF @ section_of lines @ CRLF"
    by (metis append_eq_conv_conj)
  have ends: "drop (?n - 4) (l @ CRLF @ section_of lines @ CRLF) = CRLF @ CRLF"
  proof (cases lines rule: rev_cases)
    case Nil
    then show ?thesis by simp
  next
    case (snoc ls x)
    have "l @ CRLF @ section_of lines @ CRLF = (l @ CRLF @ section_of ls @ x) @ CRLF @ CRLF"
      by (simp add: snoc)
    moreover have "?n - 4 = length (l @ CRLF @ section_of ls @ x)"
      by (simp add: snoc)
    ultimately show ?thesis by (metis append_eq_conv_conj)
  qed
  obtain r1 h1 where loop: "inspect_headers (section_of lines @ CRLF) framing_init h = (r1, h1)"
    by (cases "inspect_headers (section_of lines @ CRLF) framing_init h")
  have cl: "crlf_line (l @ CRLF @ section_of lines @ CRLF) = Some (l, section_of lines @ CRLF)"
    using assms(1) by simp
  have "(case r1 of Inl e \<Rightarrow> (Inl e, h1) | Inr st \<Rightarrow>
      (if saw_chunked st then Inl HTTP_PARSE_UNSUPPORTED_TRANSFER_ENCODING
       else Inr (if saw_content_length st then content_length st else 0), h1)) = (r, h')"
    using assms(3) unfolding http_inspect_message_framing_def sect Let_def ends cl option.case
      prod.case loop
    by (cases r1) (simp_all split: if_splits)
  with inspect_headers_frame [OF assms(2) loop]
  show "(r = Inl HTTP_PARSE_OUT_OF_MEMORY \<and> \<not> never_fails h)
    \<or> (case frame_fields fs framing_init of Inl e \<Rightarrow> r = Inl e
       | Inr st \<Rightarrow> r = (if saw_chunked st then Inl HTTP_PARSE_UNSUPPORTED_TRANSFER_ENCODING
                       else Inr (if saw_content_length st then content_length st else 0)))"
    and "never_fails h \<Longrightarrow> never_fails h'"
    by (auto split: sum.splits)
qed

text \<open>The successful path through \<open>http_parse_request\<close>.\<close>

lemma http_parse_request_path:
  assumes "http_find_header_terminator data = Some term" and "term + 4 \<le> HTTP_MAX_HEADER_BYTES"
    and "http_inspect_message_framing data (term + 4) h = (Inr eb, h1)"
    and "length data = term + 4 + eb"
    and "crlf_line (take (term + 2) data) = Some (line, rest)"
    and "parse_request_line line http_request_init h1 = (HTTP_PARSE_OK, r1, h2)"
    and "parse_headers rest r1 h2 = (HTTP_PARSE_OK, r2, h3)"
  shows "http_parse_request data h = finish_request data (term + 4) eb r2 h3"
proof -
  have "data \<noteq> []" using assms(4) by auto
  with assms show ?thesis by (simp add: http_parse_request_def Let_def)
qed

lemma http_parse_request_OK_path:
  assumes "http_parse_request data h = (HTTP_PARSE_OK, r, h')"
  obtains "term" eb h1 line rest r1 h2 r2 h3 where
    "http_find_header_terminator data = Some term" and "term + 4 \<le> HTTP_MAX_HEADER_BYTES"
    and "http_inspect_message_framing data (term + 4) h = (Inr eb, h1)"
    and "length data = term + 4 + eb"
    and "crlf_line (take (term + 2) data) = Some (line, rest)"
    and "parse_request_line line http_request_init h1 = (HTTP_PARSE_OK, r1, h2)"
    and "parse_headers rest r1 h2 = (HTTP_PARSE_OK, r2, h3)"
    and "finish_request data (term + 4) eb r2 h3 = (HTTP_PARSE_OK, r, h')"
proof -
  have init: "parse_fail e q k \<noteq> (HTTP_PARSE_OK, r, h')" if "e \<noteq> HTTP_PARSE_OK" for e q k
    using that by (auto dest: parse_fail_live)
  have ne: "data \<noteq> []" using assms by (auto simp: http_parse_request_def)
  from assms ne obtain t where t: "http_find_header_terminator data = Some t"
    by (cases "http_find_header_terminator data") (simp_all add: http_parse_request_def)
  note s1 = assms [unfolded http_parse_request_def Let_def t option.case if_not_P [OF ne]]
  then have bound: "\<not> HTTP_MAX_HEADER_BYTES < t + 4" by (simp split: if_splits)
  obtain fr h1 where fr: "http_inspect_message_framing data (t + 4) h = (fr, h1)"
    by (cases "http_inspect_message_framing data (t + 4) h")
  obtain eb where eb: "fr = Inr eb"
    using s1 bound fr inspect_framing_not_OK [OF fr] by (cases fr) (auto simp: split: if_splits)
  note s2 = s1 [unfolded if_not_P [OF bound] fr eb prod.case sum.case]
  then have len: "length data = t + 4 + eb" by (auto split: if_splits)
  from s2 len init obtain line rest where line: "crlf_line (take (t + 2) data) = Some (line, rest)"
    by (cases "crlf_line (take (t + 2) data)") auto
  obtain e1 r1 h2 where rl: "parse_request_line line http_request_init h1 = (e1, r1, h2)"
    by (cases "parse_request_line line http_request_init h1")
  have e1: "e1 = HTTP_PARSE_OK"
    using s2 len line rl init by (auto split: if_splits)
  obtain e2 r2 h3 where hr: "parse_headers rest r1 h2 = (e2, r2, h3)"
    by (cases "parse_headers rest r1 h2")
  have e2: "e2 = HTTP_PARSE_OK"
    using s2 len line rl e1 hr init by (auto split: if_splits)
  have "finish_request data (t + 4) eb r2 h3 = (HTTP_PARSE_OK, r, h')"
    using s2 len line rl e1 hr e2 by simp
  with that t bound fr eb len line rl e1 hr e2 show thesis by (simp add: not_less)
qed


lemma section_of_take:
  assumes "take (t + 2) data = l @ CRLF @ section_of lines" and "at_terminator (drop t data)"
  shows "data = l @ CRLF @ section_of lines @ CRLF @ drop (t + 4) data"
    and "t = length l + length (section_of lines)"
proof -
  have "t + 4 \<le> length data" using assms(2) by (rule at_terminator_length)
  then show "t = length l + length (section_of lines)"
    using arg_cong [OF assms(1), of length] by simp
  obtain zs where zs: "drop t data = CR # LF # CR # LF # zs"
    using assms(2) by (auto simp: prefix_def)
  have "drop (t + 2) data = drop 2 (drop t data)" and "drop (t + 4) data = drop 4 (drop t data)"
    by (simp_all add: add.commute)
  then have "drop (t + 2) data = CRLF @ drop (t + 4) data" by (simp add: zs)
  then show "data = l @ CRLF @ section_of lines @ CRLF @ drop (t + 4) data"
    using append_take_drop_id [of "t + 2" data] assms(1) by simp
qed

lemma field_lines_header_line:
  "field_lines lines fs \<Longrightarrow> list_all2 header_line lines fs \<and> list_all header_ok fs"
  unfolding field_lines_def
  by (induction lines fs rule: list_all2_induct) (auto intro: colon_split_header_line)

text \<open>
  Parsing succeeds only on the message of the request it returns, and that request has the
  form \<open>request_ok\<close>.
\<close>

lemma http_parse_request_OK:
  assumes "http_parse_request data h = (HTTP_PARSE_OK, r, h')"
  obtains lines where "data = request_message r lines"
    and "list_all2 header_line lines (header_list (rq_headers r))"
    and "request_ok r" and "within_limits r lines"
proof -
  from assms obtain t eb h1 line rest r1 h2 r2 h3 where
    t: "http_find_header_terminator data = Some t" and bound: "t + 4 \<le> HTTP_MAX_HEADER_BYTES"
    and fr: "http_inspect_message_framing data (t + 4) h = (Inr eb, h1)"
    and len: "length data = t + 4 + eb"
    and cl: "crlf_line (take (t + 2) data) = Some (line, rest)"
    and rl: "parse_request_line line http_request_init h1 = (HTTP_PARSE_OK, r1, h2)"
    and hr: "parse_headers rest r1 h2 = (HTTP_PARSE_OK, r2, h3)"
    and fin: "finish_request data (t + 4) eb r2 h3 = (HTTP_PARSE_OK, r, h')"
    by (rule http_parse_request_OK_path)
  from rl obtain m tg v where line: "line = http_method_to_string m @ SP # tg @ SP # v"
    and m: "m \<noteq> HTTP_METHOD_UNKNOWN" and tg: "tg \<noteq> []" "SP \<notin> set tg" "NUL \<notin> set tg"
    and v: "v = ''HTTP/1.0'' \<or> v = ''HTTP/1.1''" and llen: "length line \<le> HTTP_MAX_REQUEST_LINE"
    and r1: "r1 = http_request_init\<lparr>rq_method := m, rq_target := Some tg, rq_version := Some v\<rparr>"
    by (rule parse_request_line_OK)
  have LF: "LF \<notin> set line" and tk: "take (t + 2) data = line @ CRLF @ rest"
    using crlf_lineD [OF cl] by auto
  from hr obtain lines new where rest: "rest = section_of lines" and r2: "r2 = add_headers r1 new"
    and fl: "field_lines lines new" and hb: "length (header_list (rq_headers r2)) \<le> HTTP_MAX_HEADERS"
    by (rule parse_headers_OK) (simp add: r1 http_request_init_def)
  have new: "header_list (rq_headers r2) = new" by (simp add: r2 r1 http_request_init_def)
  have body0: "rq_body r2 = None" "rq_body_length r2 = 0"
    by (simp_all add: r2 r1 http_request_init_def)
  have at: "at_terminator (drop t data)" using t by (simp add: find_terminator_Some_iff)
  have data: "data = line @ CRLF @ section_of lines @ CRLF @ drop (t + 4) data"
    and tlen: "t = length line + length (section_of lines)"
    by (rule section_of_take [OF tk [unfolded rest] at])+
  from inspect_framing_section(1) [OF LF fl, of "drop (t + 4) data" h "Inr eb" h1] fr data tlen
  obtain st where st: "frame_fields new framing_init = Inr st" "\<not> saw_chunked st"
    "eb = (if saw_content_length st then content_length st else 0)"
    by (auto split: sum.splits if_splits)
  note agree = finish_request_agrees [OF st [folded new]]
  have r: "r = (if eb = 0 then r2
      else r2\<lparr>rq_body := Some (drop (t + 4) data), rq_body_length := eb\<rparr>)"
    using fin len unfolding agree(4) by (auto dest!: parse_fail_live split: if_splits prod.splits)
  have flds: "rq_method r = m" "rq_target r = Some tg" "rq_version r = Some v"
    "header_list (rq_headers r) = new" "rq_headers r \<noteq> Some []" "rq_body_length r = eb"
    "body_bytes r = drop (t + 4) data"
    "case rq_body r of None \<Rightarrow> eb = 0 | Some b \<Rightarrow> b \<noteq> [] \<and> length b = eb"
    using body0 len by (auto simp: r new r2 r1 http_request_init_def add_headers_def body_bytes_def)
  have cls: "case filter is_cl new of [] \<Rightarrow> eb = 0
      | [x] \<Rightarrow> http_parse_content_length_value (hd_value x) = Inr eb | _ \<Rightarrow> False"
    using frame_fields_unseen [OF st(1)] by (auto simp: framing_init_def st(3))
  have rline: "request_line r = line" by (simp add: request_line_def flds line)
  show thesis
  proof (rule that [of lines])
    show "data = request_message r lines"
      using data by (simp add: request_message_def rline flds)
    show "list_all2 header_line lines (header_list (rq_headers r))"
      using field_lines_header_line [OF fl] by (simp add: flds)
    show "within_limits r lines"
      using llen bound tlen by (simp add: within_limits_def rline)
    have "LF \<notin> set tg" using LF by (simp add: line)
    moreover have "filter is_te new = []" using agree(3) by (simp add: new filter_empty_conv)
    ultimately show "request_ok r"
      using m tg v hb cls flds(5,8) field_lines_header_line [OF fl]
      unfolding request_ok_def flds new by auto
  qed
qed

subsection \<open>Completeness\<close>

lemma ows_not_LF: "list_all is_ows bs \<Longrightarrow> LF \<notin> set bs"
  by (induction bs) (auto simp: is_ows_def)

lemma trim_skip_padded:
  assumes "trimmed v" and "list_all is_ows before" and "list_all is_ows after"
  shows "trim_ows_end (skip_ows (before @ v @ after)) = v"
proof (cases "v = []")
  case True
  have "skip_ows (before @ after) = []"
    using assms(2,3) by (auto simp: skip_ows_def list_all_iff)
  with True show ?thesis by (simp add: trim_ows_end_def)
next
  case False
  then have v: "\<not> is_ows (hd v)" "\<not> is_ows (last v)" using assms(1) by (auto simp: trimmed_def)
  have "skip_ows (before @ v @ after) = v @ after"
    using assms(2) False v(1) by (cases v) (auto simp: skip_ows_def list_all_iff)
  moreover have "dropWhile is_ows (rev after @ rev v) = rev v"
    using assms(3) False v(2) by (cases v rule: rev_cases) (auto simp: list_all_iff dropWhile_append)
  ultimately show ?thesis by (simp add: trim_ows_end_def)
qed

lemma header_line_field_lines:
  "list_all2 header_line lines fs \<Longrightarrow> list_all header_ok fs \<Longrightarrow> field_lines lines fs"
  unfolding field_lines_def
proof (induction lines fs rule: list_all2_induct)
  case Nil
  then show ?case by simp
next
  case (Cons line lines x fs)
  from Cons.hyps(1) obtain before after where
    line: "line = hd_name x @ CHR '':'' # before @ hd_value x @ after"
    and ows: "list_all is_ows before" "list_all is_ows after"
    by (auto simp: header_line_def)
  have ok: "header_ok x" using Cons.prems by simp
  have "colon_split line = Some (hd_name x, hd_value x)"
    unfolding colon_split_Some_iff using line ok trim_skip_padded [OF _ ows, of "hd_value x"]
    by (auto simp: header_ok_def)
  moreover have "LF \<notin> set line"
    using line ok ows_not_LF [OF ows(1)] ows_not_LF [OF ows(2)] by (auto simp: header_ok_def)
  ultimately show ?case using ok Cons by (auto simp: header_ok_def)
qed

lemma parse_header_line_complete:
  assumes "colon_split line = Some (hd_name x, hd_value x)" and "name_chars_ok (hd_name x)"
    and "NUL \<notin> set (hd_value x)" and "length (header_list (rq_headers r)) < HTTP_MAX_HEADERS"
    and "never_fails h"
  obtains h' where "parse_header_line line r h = (HTTP_PARSE_OK, add_headers r [x], h')"
    and "never_fails h'"
proof -
  have ne: "line \<noteq> []" using assms(1) by (auto simp: colon_split_def)
  obtain p h1 where d1: "dup_range (hd_name x) h = (p, h1)" by (cases "dup_range (hd_name x) h")
  note p = dup_range_never_fails [OF assms(5) d1]
  obtain q h2 where d2: "dup_range (hd_value x) h1 = (q, h2)" by (cases "dup_range (hd_value x) h1")
  note q = dup_range_never_fails [OF p(2) d2]
  obtain ok h3 where re: "realloc (rq_headers r = None) h2 = (ok, h3)"
    by (cases "realloc (rq_headers r = None) h2")
  note ok = never_fails_realloc [OF q(2) re]
  have "parse_header_line line r h = (HTTP_PARSE_OK, add_headers r [x], h3)"
    using assms(1-4) ne p q re ok
    by (simp add: parse_header_line_def list_ex_blank_nul d1 d2 append_header_def add_headers_def
        not_le)
  with ok that show thesis by blast
qed

lemma parse_headers_complete:
  assumes "field_lines lines fs" and "length (header_list (rq_headers r)) + length fs \<le> HTTP_MAX_HEADERS"
    and "never_fails h"
  obtains h' where "parse_headers (section_of lines) r h = (HTTP_PARSE_OK, add_headers r fs, h')"
    and "never_fails h'"
  using assms unfolding field_lines_def
proof (induction lines fs arbitrary: r h thesis rule: list_all2_induct)
  case Nil
  from Nil.prems(1) [of h] Nil.prems(3) show ?case by simp
next
  case (Cons line lines x fs)
  obtain h1 where h1: "parse_header_line line r h = (HTTP_PARSE_OK, add_headers r [x], h1)" "never_fails h1"
    by (rule parse_header_line_complete [of line x r h]) (use Cons.hyps(1) Cons.prems(2,3) in auto)
  have bound: "length (header_list (rq_headers (add_headers r [x]))) + length fs \<le> HTTP_MAX_HEADERS"
    using Cons.prems(2) by simp
  obtain h' where h': "parse_headers (section_of lines) (add_headers r [x]) h1
      = (HTTP_PARSE_OK, add_headers (add_headers r [x]) fs, h')" "never_fails h'"
    by (rule Cons.IH [OF _ bound h1(2)])
  have "crlf_line (section_of (line # lines)) = Some (line, section_of lines)"
    using Cons.hyps(1) by simp
  from parse_headers_line [OF this, of r h] h1(1) h'(1)
  show ?case
    by (intro Cons.prems(1) [of h']) (simp_all add: add_headers_add_headers h'(2))
qed

lemma frame_fields_complete:
  assumes "filter is_te fs = []" and "\<not> saw_chunked st"
    and "filter is_cl fs = [] \<or> (\<not> saw_content_length st \<and>
      (\<exists>x n. filter is_cl fs = [x] \<and> http_parse_content_length_value (hd_value x) = Inr n))"
  shows "\<exists>st'. frame_fields fs st = Inr st' \<and> \<not> saw_chunked st'"
  using assms
proof (induction fs arbitrary: st)
  case Nil
  then show ?case by simp
next
  case (Cons x fs)
  show ?case
  proof (cases "is_cl x")
    case True
    with Cons.prems obtain n where n: "http_parse_content_length_value (hd_value x) = Inr n"
      "\<not> saw_content_length st" "filter is_cl fs = []" by auto
    then show ?thesis
      using Cons.prems Cons.IH [of "st\<lparr>saw_content_length := True, content_length := n\<rparr>"] True
      by (simp add: frame_field_def split: if_splits)
  next
    case False
    with Cons.prems Cons.IH [of st] show ?thesis by (simp add: frame_field_def split: if_splits)
  qed
qed

lemma method_string_props:
  assumes "m \<noteq> HTTP_METHOD_UNKNOWN"
  shows "http_method_to_string m \<noteq> []" and "SP \<notin> set (http_method_to_string m)"
    and "NUL \<notin> set (http_method_to_string m)" and "LF \<notin> set (http_method_to_string m)"
    and "method_token_is_well_formed (http_method_to_string m)"
    and "is_supported_method_token (http_method_to_string m)"
    and "http_method_from_string (Some (http_method_to_string m)) = m"
  using assms
  by (cases m; simp add: method_token_is_well_formed_def is_token_char_def
      is_supported_method_token_def http_method_from_string_def)+

lemma parse_request_line_complete:
  assumes m: "m \<noteq> HTTP_METHOD_UNKNOWN" and t: "t \<noteq> []" "SP \<notin> set t" "NUL \<notin> set t"
    and v: "v = ''HTTP/1.0'' \<or> v = ''HTTP/1.1''" and nf: "never_fails h"
    and len: "length (http_method_to_string m @ SP # t @ SP # v) \<le> HTTP_MAX_REQUEST_LINE"
  obtains h' where "parse_request_line (http_method_to_string m @ SP # t @ SP # v) r h
      = (HTTP_PARSE_OK, r\<lparr>rq_method := m, rq_target := Some t, rq_version := Some v\<rparr>, h')"
    and "never_fails h'"
proof -
  let ?m = "http_method_to_string m"
  let ?line = "?m @ SP # t @ SP # v"
  note ms = method_string_props [OF m]
  have v': "v \<noteq> []" "SP \<notin> set v" "NUL \<notin> set v" using v by auto
  have ml: "memchr SP ?line = Some (length ?m)" using ms(2) by simp
  have tl: "memchr SP (t @ SP # v) = Some (length t)" using t(2) by simp
  have hd: "hd (t @ SP # v) \<noteq> SP" using t by (cases t) auto
  obtain p h1 where d1: "dup_range ?m h = (p, h1)" by (cases "dup_range ?m h")
  note p = dup_range_never_fails [OF nf d1]
  let ?h2 = "c_free (Some ?m) h1"
  obtain q h3 where d2: "dup_range t ?h2 = (q, h3)" by (cases "dup_range t ?h2")
  have "never_fails ?h2" using p(2) by simp
  note q = dup_range_never_fails [OF this d2]
  obtain w h4 where d3: "dup_range v h3 = (w, h4)" by (cases "dup_range v h3")
  note w = dup_range_never_fails [OF q(2) d3]
  have "parse_request_line ?line r h
      = (HTTP_PARSE_OK, r\<lparr>rq_method := m, rq_target := Some t, rq_version := Some v\<rparr>, h4)"
    unfolding parse_request_line_def ml option.case Let_def
    using len ms t v v' p(1) q(1) w(1) hd by (simp add: d1 d2 d3 tl)
  with w(2) that show thesis by blast
qed

lemma request_ok_body:
  assumes "request_ok r"
  shows "length (body_bytes r) = rq_body_length r"
    and "rq_body r = (if rq_body_length r = 0 then None else Some (body_bytes r))"
proof -
  have b: "case rq_body r of None \<Rightarrow> rq_body_length r = 0
         | Some b \<Rightarrow> b \<noteq> [] \<and> length b = rq_body_length r"
    using assms by (simp add: request_ok_def)
  from b show "length (body_bytes r) = rq_body_length r"
    by (auto simp: body_bytes_def split: option.splits)
  show "rq_body r = (if rq_body_length r = 0 then None else Some (body_bytes r))"
  proof (cases "rq_body r")
    case (Some x)
    with b have "length x = rq_body_length r" "x \<noteq> []" by simp_all
    moreover from this(2) have "length x \<noteq> 0" by simp
    ultimately have "length x = rq_body_length r" "rq_body_length r \<noteq> 0" by simp_all
    with Some show ?thesis by (simp add: body_bytes_def)
  qed (use b in simp)
qed

lemma drop_length_append: "drop (length xs) (xs @ ys) = ys"
  by simp

lemma request_ok_eq:
  assumes ok: "request_ok r" and t: "rq_target r = Some t" and v: "rq_version r = Some v"
  defines "q \<equiv> add_headers (http_request_init\<lparr>rq_method := rq_method r, rq_target := Some t,
    rq_version := Some v\<rparr>) (header_list (rq_headers r))"
  shows "r = (if rq_body_length r = 0 then q
    else q\<lparr>rq_body := Some (body_bytes r), rq_body_length := rq_body_length r\<rparr>)"
proof -
  have "rq_headers r \<noteq> Some []" using ok by (simp add: request_ok_def)
  then have hs: "rq_headers q = rq_headers r"
    by (cases "rq_headers r") (simp_all add: q_def add_headers_def http_request_init_def)
  have qf: "rq_method q = rq_method r" "rq_target q = Some t" "rq_version q = Some v"
      "rq_body q = None" "rq_body_length q = 0"
    by (simp_all add: q_def http_request_init_def)
  show ?thesis
    using request_ok_body(2) [OF ok] hs qf t v
    by (cases "rq_body_length r = 0") (auto intro!: http_request_t.equality)
qed

lemma http_parse_request_complete:
  assumes ok: "request_ok r" and hl: "list_all2 header_line lines (header_list (rq_headers r))"
    and lim: "within_limits r lines" and nf: "never_fails h"
  shows "\<exists>h'. http_parse_request (request_message r lines) h = (HTTP_PARSE_OK, r, h')"
proof -
  let ?fs = "header_list (rq_headers r)" and ?line = "request_line r" and ?body = "body_bytes r"
  let ?data = "request_message r lines" and ?t = "length (request_line r) + length (section_of lines)"
  from ok obtain tg v where tg: "rq_target r = Some tg" "tg \<noteq> []" "SP \<notin> set tg" "NUL \<notin> set tg" "LF \<notin> set tg"
    and v: "rq_version r = Some v" "v = ''HTTP/1.0'' \<or> v = ''HTTP/1.1''"
    and m: "rq_method r \<noteq> HTTP_METHOD_UNKNOWN"
    by (auto simp: request_ok_def split: option.splits)
  have line: "?line = http_method_to_string (rq_method r) @ SP # tg @ SP # v"
    by (simp add: request_line_def tg v)
  have LF: "LF \<notin> set ?line" using method_string_props(4) [OF m] tg v by (auto simp: line)
  have fl: "field_lines lines ?fs"
    using header_line_field_lines [OF hl] ok by (simp add: request_ok_def)
  have data: "?data = ?line @ CRLF @ section_of lines @ CRLF @ ?body"
    by (simp add: request_message_def)
  have t: "http_find_header_terminator ?data = Some ?t"
    unfolding data by (rule find_terminator_section [OF LF field_linesD [OF fl]])
  let ?b = "rq_body_length r"
  have body: "length ?body = ?b" "rq_body r = (if ?b = 0 then None else Some ?body)"
    using request_ok_body [OF ok] by auto
  have cls: "filter is_cl ?fs = [] \<and> ?b = 0 \<or> (\<exists>x. filter is_cl ?fs = [x]
      \<and> http_parse_content_length_value (hd_value x) = Inr ?b)"
    using ok by (auto simp: request_ok_def split: list.splits)
  obtain st where st: "frame_fields ?fs framing_init = Inr st" "\<not> saw_chunked st"
    using frame_fields_complete [of ?fs framing_init] cls ok
    by (auto simp: request_ok_def framing_init_def)
  have eb: "?b = (if saw_content_length st then content_length st else 0)"
    using frame_fields_unseen [OF st(1)] cls by (auto simp: framing_init_def)
  obtain fr h1 where fr: "http_inspect_message_framing ?data (?t + 4) h = (fr, h1)"
    by (cases "http_inspect_message_framing ?data (?t + 4) h")
  have "fr = Inr ?b" and nf1: "never_fails h1"
    using inspect_framing_section [OF LF fl fr [unfolded data]] st eb nf by auto
  note fr = fr [unfolded this(1)]
  obtain h2 where rl: "parse_request_line ?line http_request_init h1 = (HTTP_PARSE_OK,
      http_request_init\<lparr>rq_method := rq_method r, rq_target := Some tg, rq_version := Some v\<rparr>, h2)"
    and nf2: "never_fails h2"
    unfolding line using parse_request_line_complete [OF m tg(2-4) v(2) nf1] lim
    by (metis line within_limits_def)
  let ?r1 = "http_request_init\<lparr>rq_method := rq_method r, rq_target := Some tg, rq_version := Some v\<rparr>"
  obtain h3 where hr: "parse_headers (section_of lines) ?r1 h2 = (HTTP_PARSE_OK, add_headers ?r1 ?fs, h3)"
    and nf3: "never_fails h3"
    using parse_headers_complete [OF fl _ nf2, of ?r1] ok
    by (auto simp: request_ok_def http_request_init_def)
  have "take (?t + 2) ?data = ?line @ CRLF @ section_of lines"
    by (simp add: data)
  then have cl: "crlf_line (take (?t + 2) ?data) = Some (?line, section_of lines)"
    using LF by simp
  have path: "http_parse_request ?data h = finish_request ?data (?t + 4) ?b (add_headers ?r1 ?fs) h3"
    by (rule http_parse_request_path [OF t _ fr _ cl rl hr])
      (use lim body in \<open>simp_all add: within_limits_def data\<close>)
  have new: "frame_fields (header_list (rq_headers (add_headers ?r1 ?fs))) framing_init = Inr st"
    using st(1) by (simp add: http_request_init_def)
  let ?head = "?line @ CRLF @ section_of lines @ CRLF"
  have "length ?head = ?t + 4" by simp
  then have drop_t: "drop (?t + 4) ?data = ?body"
    using drop_length_append [of ?head ?body] by (simp only: data append_assoc)
  obtain okm h4 where mal: "malloc h3 = (okm, h4)" by (cases "malloc h3")
  have r: "r = (if ?b = 0 then add_headers ?r1 ?fs
      else (add_headers ?r1 ?fs)\<lparr>rq_body := Some ?body, rq_body_length := ?b\<rparr>)"
    by (rule request_ok_eq [OF ok tg(1) v(1)])
  have okm: "okm" using never_fails_malloc [OF nf3 mal] by simp
  have "finish_request ?data (?t + 4) ?b (add_headers ?r1 ?fs) h3
      = (HTTP_PARSE_OK, if ?b = 0 then add_headers ?r1 ?fs
          else (add_headers ?r1 ?fs)\<lparr>rq_body := Some ?body, rq_body_length := ?b\<rparr>,
         if ?b = 0 then h3 else h4)"
    unfolding finish_request_agrees(4) [OF new st(2) eb]
    by (simp add: drop_t body mal okm)
  then show ?thesis unfolding path r [symmetric] by (rule exI)
qed

section \<open>Properties of the parser\<close>

text \<open>A message, the request it carries and an allocator without failures, for the examples.\<close>

definition sample_post :: bytes where
  "sample_post = ''POST /a HTTP/1.1'' @ CRLF @ ''Host:  b '' @ CRLF @ ''content-length: 2'' @ CRLF
     @ CRLF @ ''hi''"

definition sample_post_request :: http_request_t where
  "sample_post_request = \<lparr>rq_method = HTTP_METHOD_POST, rq_target = Some ''/a'',
     rq_version = Some ''HTTP/1.1'',
     rq_headers = Some [\<lparr>hd_name = ''Host'', hd_value = ''b''\<rparr>,
       \<lparr>hd_name = ''content-length'', hd_value = ''2''\<rparr>],
     rq_body = Some ''hi'', rq_body_length = 2\<rparr>"

definition fresh_heap :: heap where
  "fresh_heap = \<lparr>outcomes = [], live = 0\<rparr>"

lemma sample_post_parsed:
  "http_parse_request sample_post fresh_heap
     = (HTTP_PARSE_OK, sample_post_request, \<lparr>outcomes = [], live = 8\<rparr>)"
  by code_simp

lemma request_ok_line_LF: "request_ok r \<Longrightarrow> LF \<notin> set (request_line r)"
  using method_string_props(4) [of "rq_method r"]
  by (auto simp: request_ok_def request_line_def split: option.splits)

lemma http_parse_request_framing:
  assumes "http_parse_request data h = (HTTP_PARSE_OK, r, h')"
  obtains t where "http_find_header_terminator data = Some t"
    and "t + 4 \<le> HTTP_MAX_HEADER_BYTES"
    and "framing_verdict data (t + 4) = Inr (rq_body_length r)"
    and "length data = t + 4 + rq_body_length r" and "body_bytes r = drop (t + 4) data"
proof -
  obtain t eb h1 where t: "http_find_header_terminator data = Some t" "t + 4 \<le> HTTP_MAX_HEADER_BYTES"
    and fr: "http_inspect_message_framing data (t + 4) h = (Inr eb, h1)"
    and len: "length data = t + 4 + eb"
    using http_parse_request_OK_path [OF assms] by metis
  obtain lines where data: "data = request_message r lines"
    and hl: "list_all2 header_line lines (header_list (rq_headers r))" and ok: "request_ok r"
    using http_parse_request_OK [OF assms] by metis
  have LF: "LF \<notin> set (request_line r)"
    by (rule request_ok_line_LF [OF ok])
  have fl: "field_lines lines (header_list (rq_headers r))"
    using header_line_field_lines [OF hl] ok by (simp add: request_ok_def)
  let ?head = "request_line r @ CRLF @ section_of lines @ CRLF"
  have "t = length (request_line r) + length (section_of lines)"
    using t(1) find_terminator_section [OF LF field_linesD [OF fl], of "body_bytes r"]
    by (simp add: data request_message_def)
  then have head: "length ?head = t + 4" and data': "data = ?head @ body_bytes r"
    by (simp_all add: data request_message_def)
  have drop: "drop (t + 4) data = body_bytes r"
    unfolding data' head [symmetric] by (rule drop_length_append)
  have "length data = t + 4 + length (body_bytes r)"
    unfolding data' length_append [of ?head] head ..
  then have "eb = rq_body_length r"
    using len request_ok_body(1) [OF ok] by simp
  with that t len drop framing_verdict(1) [OF fr] show thesis by simp
qed

lemma parse_request_line_body:
  "parse_request_line line r h = (res, r', h') \<Longrightarrow> rq_body r' = rq_body r"
  by (auto simp: parse_request_line_def Let_def split: if_splits option.splits prod.splits)

lemma parse_headers_body:
  "parse_headers rest r h = (res, r', h') \<Longrightarrow> rq_body r' = rq_body r"
proof (induction rest arbitrary: r h rule: crlf_lines_induct)
  case (Stop rest)
  then show ?case by (simp add: parse_headers_stop)
next
  case (Line rest line "next")
  obtain e r1 h1 where step: "parse_header_line line r h = (e, r1, h1)"
    by (cases "parse_header_line line r h")
  then have "rq_body r1 = rq_body r"
    by (auto simp: parse_header_line_def append_header_def split: if_splits option.splits prod.splits)
  with Line.prems Line.IH [of r1 h1] step show ?case
    by (simp add: parse_headers_line [OF Line.hyps] split: if_splits)
qed

lemma parse_tail_live:
  assumes "(case parse_request_line line http_request_init h of (rl, r1, h1) \<Rightarrow>
      if rl \<noteq> HTTP_PARSE_OK then parse_fail rl r1 h1
      else (case parse_headers rest r1 h1 of (hr, r2, h2) \<Rightarrow>
        if hr \<noteq> HTTP_PARSE_OK then parse_fail hr r2 h2
        else finish_request data hb eb r2 h2)) = (res, r, h')"
  shows "live h' = live h + request_blocks r \<and> (res \<noteq> HTTP_PARSE_OK \<longrightarrow> r = http_request_init)"
proof -
  have init: "request_blocks http_request_init = 0" "rq_target http_request_init = None"
      "rq_version http_request_init = None" "rq_body http_request_init = None"
    by (simp_all add: request_blocks_init) (simp_all add: http_request_init_def)
  obtain rl r1 h1 where d1: "parse_request_line line http_request_init h = (rl, r1, h1)"
    by (cases "parse_request_line line http_request_init h")
  obtain hr r2 h2 where d2: "parse_headers rest r1 h1 = (hr, r2, h2)"
    by (cases "parse_headers rest r1 h1")
  have l1: "live h1 = live h + request_blocks r1"
    using parse_request_line_live [OF d1] init by simp
  have l2: "live h2 = live h + request_blocks r2"
    using parse_headers_live [OF d2] l1 by simp
  have "rq_body r2 = None"
    using parse_request_line_body [OF d1] parse_headers_body [OF d2] init by simp
  with assms show ?thesis
    using l1 l2 init by (auto simp: d1 d2 dest: parse_fail_live finish_request_live split: if_splits)
qed

lemma http_parse_request_live:
  assumes "http_parse_request data h = (res, r, h')"
  shows "live h' = live h + request_blocks r \<and> (res \<noteq> HTTP_PARSE_OK \<longrightarrow> r = http_request_init)"
proof (cases "http_find_header_terminator data")
  case None
  with assms show ?thesis
    by (auto simp: http_parse_request_def Let_def request_blocks_init split: if_splits)
next
  case (Some t)
  obtain fr h1 where fr: "http_inspect_message_framing data (t + 4) h = (fr, h1)"
    by (cases "http_inspect_message_framing data (t + 4) h")
  have l1: "live h1 = live h" by (rule inspect_framing_live [OF fr])
  note init = request_blocks_init
  show ?thesis
  proof (cases "crlf_line (take (t + 2) data)")
    case None
    with assms Some fr l1 init show ?thesis
      by (cases fr) (auto simp: http_parse_request_def Let_def dest: parse_fail_live split: if_splits)
  next
    case line: (Some lr)
    obtain line rest where lr: "lr = (line, rest)" by (cases lr)
    show ?thesis
    proof (cases "data = [] \<or> HTTP_MAX_HEADER_BYTES < t + 4 \<or> isl fr
        \<or> length data \<noteq> t + 4 + projr fr")
      case True
      with assms Some fr l1 init show ?thesis
        by (cases fr) (auto simp: http_parse_request_def Let_def split: if_splits)
    next
      case False
      then obtain eb where "fr = Inr eb" by (cases fr) auto
      with False assms Some fr line lr
      have "(case parse_request_line line http_request_init h1 of (rl, r1, h1) \<Rightarrow>
        if rl \<noteq> HTTP_PARSE_OK then parse_fail rl r1 h1
        else (case parse_headers rest r1 h1 of (hr, r2, h2) \<Rightarrow>
          if hr \<noteq> HTTP_PARSE_OK then parse_fail hr r2 h2
          else finish_request data (t + 4) eb r2 h2)) = (res, r, h')"
        by (simp add: http_parse_request_def Let_def)
      from parse_tail_live [OF this] l1 show ?thesis by simp
    qed
  qed
qed

text \<open>
  C1. Without allocation failure, the parser accepts exactly the messages of the supported
  HTTP/1.x subset, and returns exactly what they say: \<open>data\<close> is parsed to the request \<open>r\<close> if and
  only if \<open>data\<close> is the request line of \<open>r\<close>, one header line for each header of \<open>r\<close> (name,
  colon, value with optional white space around it), a blank line and the body of \<open>r\<close>, where
  \<open>r\<close> is well formed (known method, a target and an HTTP/1.0 or HTTP/1.1 version, no
  Transfer-Encoding, at most one Content-Length that gives the body length) and the limits on
  the request line and the header section are kept.
\<close>

theorem http_parse_request_language:
  assumes "never_fails h"
  shows "(\<exists>h'. http_parse_request data h = (HTTP_PARSE_OK, r, h')) \<longleftrightarrow>
    (\<exists>lines. data = request_message r lines
      \<and> list_all2 header_line lines (header_list (rq_headers r))
      \<and> request_ok r \<and> within_limits r lines)"
proof
  assume "\<exists>h'. http_parse_request data h = (HTTP_PARSE_OK, r, h')"
  then obtain h' where "http_parse_request data h = (HTTP_PARSE_OK, r, h')" ..
  then show "\<exists>lines. data = request_message r lines
      \<and> list_all2 header_line lines (header_list (rq_headers r))
      \<and> request_ok r \<and> within_limits r lines"
    by (rule http_parse_request_OK) blast
next
  assume "\<exists>lines. data = request_message r lines
      \<and> list_all2 header_line lines (header_list (rq_headers r))
      \<and> request_ok r \<and> within_limits r lines"
  then show "\<exists>h'. http_parse_request data h = (HTTP_PARSE_OK, r, h')"
    using http_parse_request_complete [OF _ _ _ assms] by blast
qed

theorem http_parse_request_language_witness:
  "never_fails fresh_heap \<and> (\<exists>lines. sample_post = request_message sample_post_request lines
      \<and> list_all2 header_line lines (header_list (rq_headers sample_post_request))
      \<and> request_ok sample_post_request \<and> within_limits sample_post_request lines)"
proof -
  have nf: "never_fails fresh_heap" by code_simp
  have "\<exists>h'. http_parse_request sample_post fresh_heap = (HTTP_PARSE_OK, sample_post_request, h')"
    using sample_post_parsed by blast
  with http_parse_request_language [OF nf] nf show ?thesis by blast
qed

text \<open>
  C10. Parsing leaks nothing on any path, allocation failures included: after
  \<open>http_parse_request\<close> exactly the blocks of the returned request are live in addition, an
  error returns an empty request, and \<open>http_request_destroy\<close> on the result gives every block back.
\<close>

theorem http_parse_request_leak_free:
  assumes "http_parse_request data h = (res, r, h')"
  shows "live h' = live h + request_blocks r
    \<and> (res \<noteq> HTTP_PARSE_OK \<longrightarrow> r = http_request_init)
    \<and> live (snd (http_request_destroy r h')) = live h"
proof -
  obtain r0 h0 where d: "http_request_destroy r h' = (r0, h0)" by fastforce
  show ?thesis
    using http_parse_request_live [OF assms] http_request_destroy_live [OF d] d by simp
qed

theorem http_parse_request_leak_free_witness:
  "live (snd (http_request_destroy sample_post_request \<lparr>outcomes = [], live = 8\<rparr>)) = 0"
  using http_parse_request_leak_free [OF sample_post_parsed] by (simp add: fresh_heap_def)

text \<open>
  C37. Message boundaries are unambiguous: if a byte string is accepted as a request, no
  proper extension of it is, whatever the allocator does in the two runs.
\<close>

theorem http_parse_request_prefix_free:
  assumes "http_parse_request data h1 = (HTTP_PARSE_OK, r1, h1')"
    and "http_parse_request (data @ extra) h2 = (HTTP_PARSE_OK, r2, h2')"
  shows "extra = []"
proof -
  obtain t where t: "http_find_header_terminator data = Some t"
    "framing_verdict data (t + 4) = Inr (rq_body_length r1)" "length data = t + 4 + rq_body_length r1"
    using http_parse_request_framing [OF assms(1)] by metis
  obtain s where s: "http_find_header_terminator (data @ extra) = Some s"
    "framing_verdict (data @ extra) (s + 4) = Inr (rq_body_length r2)"
    "length (data @ extra) = s + 4 + rq_body_length r2"
    using http_parse_request_framing [OF assms(2)] by metis
  have "s = t" using find_terminator_append [OF t(1)] s(1) by simp
  with s(2) t(2,3) have "rq_body_length r2 = rq_body_length r1" by (simp add: framing_verdict_append)
  with s(3) t(3) \<open>s = t\<close> show ?thesis by simp
qed

theorem http_parse_request_prefix_free_witness:
  "http_parse_request (sample_post @ []) fresh_heap
     = (HTTP_PARSE_OK, sample_post_request, \<lparr>outcomes = [], live = 8\<rparr>)
   \<and> (\<nexists>h2 r2 h2'. http_parse_request (sample_post @ ''x'') h2 = (HTTP_PARSE_OK, r2, h2'))"
  using sample_post_parsed http_parse_request_prefix_free [OF sample_post_parsed, of "''x''"]
  by auto

text \<open>
  C17. The body length the framing inspection announces is the one the parser stores: an
  accepted message is its header section followed by exactly that many bytes, which are the body.
\<close>

theorem http_parse_request_agrees_with_framing:
  assumes "http_parse_request data h = (HTTP_PARSE_OK, r, h')"
  shows "\<exists>t. http_find_header_terminator data = Some t
    \<and> framing_verdict data (t + 4) = Inr (rq_body_length r)
    \<and> length data = t + 4 + rq_body_length r
    \<and> rq_body r = (if rq_body_length r = 0 then None else Some (drop (t + 4) data))"
proof -
  have "request_ok r" using http_parse_request_OK [OF assms] by metis
  with http_parse_request_framing [OF assms] request_ok_body(2) [of r] show ?thesis by metis
qed

theorem http_parse_request_agrees_with_framing_witness:
  "\<exists>t. http_find_header_terminator sample_post = Some t
    \<and> framing_verdict sample_post (t + 4) = Inr 2 \<and> drop (t + 4) sample_post = ''hi''"
  using http_parse_request_agrees_with_framing [OF sample_post_parsed]
  by (auto simp: sample_post_request_def)

end
