(* ===== verification/Http_Intake.thy ===== *)
theory Http_Intake
  imports Http_Reader Http_Parser_Language
begin

text \<open>
  The reader and the parser together: what is put on the wire as a well-formed message, in
  whatever segments it arrives, is what the reader hands out and the parser accepts. The
  properties of the reader are stated here.
\<close>

section \<open>Accepted messages are framed messages\<close>

lemma request_ok_body_length: "request_ok r \<Longrightarrow> rq_body_length r \<le> HTTP_MAX_BODY_SIZE"
  by (auto simp: request_ok_def content_length_value_Inr_iff http_limits split: list.splits)

lemma accepted_complete:
  assumes "http_parse_request m h = (HTTP_PARSE_OK, r, h')"
  shows "message_verdict m = Complete (length m)"
proof -
  obtain t where t: "http_find_header_terminator m = Some t" "t + 4 \<le> HTTP_MAX_HEADER_BYTES"
      "framing_verdict m (t + 4) = Inr (rq_body_length r)" "length m = t + 4 + rq_body_length r"
    using http_parse_request_framing [OF assms] by metis
  have "request_ok r" using http_parse_request_OK [OF assms] by metis
  then have "rq_body_length r \<le> HTTP_MAX_MESSAGE_BYTES - (t + 4)"
    using request_ok_body_length [of r] t(2) by (simp add: http_limits)
  with t show ?thesis by (simp add: message_verdict_Complete_iff)
qed

section \<open>Progress\<close>

text \<open>
  A peer that delivers: every \<open>poll\<close> finds the socket readable, every \<open>recv\<close> returns
  bytes, and the clock stays at \<open>now\<close>.
\<close>

definition responsive :: "timespec \<Rightarrow> conn_env \<Rightarrow> bool" where
  "responsive now env = (list_all (\<lambda>c. c = Some now) (clocks env)
     \<and> list_all (\<lambda>p. case p of POLL_READY _ inp \<Rightarrow> inp | _ \<Rightarrow> False) (polls env)
     \<and> list_all (\<lambda>e. event_bytes e \<noteq> []) (recvs env))"

abbreviation deadline_from :: "timespec \<Rightarrow> int \<Rightarrow> timespec" where
  "deadline_from now rq \<equiv> now\<lparr>tv_sec := tv_sec now + rq\<rparr>"

lemma remaining_at_start:
  assumes "1 \<le> rq"
  shows "remaining_timeout_ms (deadline_from now rq) (Some now) \<noteq> 0"
  using assms by (simp add: remaining_timeout_ms_def timespec_before_def Let_def)

lemma responsive_timeout:
  assumes "responsive now env" and "clocks env \<noteq> []" and "1 \<le> rq" and "1 \<le> ka"
    and "d = None \<or> d = Some (deadline_from now rq)"
  obtains t env1 where "reader_timeout ka d env = Some (t, env1)" and "t \<noteq> 0"
    and "responsive now env1" and "polls env1 = polls env" and "recvs env1 = recvs env"
    and "clocks env1 = (if d = None then clocks env else tl (clocks env))"
proof (cases d)
  case None
  with assms that [of "ka * 1000" env] show thesis by (simp add: reader_timeout_def)
next
  case (Some dl)
  obtain cs where cs: "clocks env = Some now # cs"
    using assms(1,2) by (cases "clocks env") (auto simp: responsive_def)
  have "reader_timeout ka d env = Some (remaining_timeout_ms dl (Some now), env\<lparr>clocks := cs\<rparr>)"
    by (simp add: reader_timeout_def Some clock_gettime_def cs)
  with that [OF this] assms Some cs remaining_at_start [OF assms(3), of now] show thesis
    by (simp add: responsive_def)
qed

lemma responsive_wait:
  assumes "responsive now env" and "polls env \<noteq> []"
  obtains env2 where "wait_readable t env = Some (1, env2)" and "responsive now env2"
    and "recvs env2 = recvs env" and "clocks env2 = clocks env"
    and "length (polls env) = Suc (length (polls env2))"
proof -
  obtain e ps where "polls env = POLL_READY e True # ps"
    using assms by (cases "polls env") (auto simp: responsive_def split: poll_event.splits)
  with assms(1) that show thesis by (simp add: wait_readable_def responsive_def)
qed

lemma responsive_recv:
  assumes "responsive now env" and "recvs env \<noteq> []" and "0 < space"
  obtains bs env3 where "recv space env = Some (RECV_BYTES bs, env3)" and "bs \<noteq> []"
    and "responsive now env3" and "polls env3 = polls env" and "clocks env3 = clocks env"
proof -
  obtain bs es where e: "recvs env = RECV_BYTES bs # es" "bs \<noteq> []"
    using assms(1,2) by (cases "recvs env") (auto simp: responsive_def event_bytes_def split: recv_event.splits)
  show thesis
  proof (cases "length bs \<le> space")
    case True
    with e assms(1) that [of bs "env\<lparr>recvs := es\<rparr>"] show thesis
      by (simp add: recv_def responsive_def)
  next
    case False
    with e assms that [of "take space bs" "env\<lparr>recvs := RECV_BYTES (drop space bs) # es\<rparr>"] show thesis
      by (simp add: recv_def responsive_def event_bytes_def)
  qed
qed

lemma responsive_start:
  assumes "responsive now env" and "d = None \<Longrightarrow> clocks env \<noteq> []"
    and "d = None \<or> d = Some (deadline_from now rq)"
  obtains env4 where "start_deadline rq d env = Some (Some (deadline_from now rq), env4)"
    and "responsive now env4" and "polls env4 = polls env" and "recvs env4 = recvs env"
    and "clocks env4 = (if d = None then tl (clocks env) else clocks env)"
proof (cases d)
  case None
  with assms(1,2) obtain cs where "clocks env = Some now # cs"
    by (cases "clocks env") (auto simp: responsive_def)
  with None assms(1) that [of "env\<lparr>clocks := cs\<rparr>"] show thesis
    by (simp add: start_deadline_def clock_gettime_def responsive_def)
next
  case (Some dl)
  with assms that [of env] show thesis by (simp add: start_deadline_def)
qed

lemma loop_progress:
  assumes "responsive now env" and "reader_ok r" and "never_fails h" and "1 \<le> ka" and "1 \<le> rq"
    and "d = None \<or> d = Some (deadline_from now rq)"
    and "stream r env = m @ rest" and "message_verdict m = Complete (length m)"
    and "length m \<le> length (rd_bytes r) + length (polls env)"
    and "length m \<le> length (rd_bytes r) + length (clocks env)"
  shows "\<exists>msg r' env' h'. reader_loop ka rq d r env h = Some ((HTTP_READ_OK, Some msg), r', env', h')"
  using assms(1-3,6,7,9,10)
proof (induction "length m - length (rd_bytes r)" arbitrary: d r env h rule: less_induct)
  case less
  obtain x r1 h1 where p: "reader_prepare r h = (x, r1, h1)" by (cases "reader_prepare r h")
  note pf = reader_prepare_facts [OF p less.prems(2)]
  have nf: "never_fails h1" "x \<noteq> Inl (HTTP_READ_OUT_OF_MEMORY, None)" using pf(3) less.prems(3) by auto
  note fm = mf.first_message [OF assms(8) less.prems(5) [unfolded stream_def]]
  show ?case
  proof (cases "message_verdict (rd_bytes r) = NeedMore")
    case False
    then have "message_verdict (rd_bytes r) = Complete (length m)" using fm by simp
    then obtain msg where "x = Inl (HTTP_READ_OK, Some msg)" using pf(4) nf(2) by auto
    with p show ?thesis by (simp add: reader_loop.simps [of ka rq d r env h])
  next
    case True
    then obtain space where x: "x = Inr space" "rd_bytes r1 = rd_bytes r" "0 < space"
        "space = rd_capacity r1 - length (rd_bytes r1)"
      using pf(4) nf(2) by auto
    have short: "length (rd_bytes r) < length m" using True fm by simp
    then have "clocks env \<noteq> []" "polls env \<noteq> []" using less.prems by auto
    from responsive_timeout [OF less.prems(1) this(1) assms(5,4) less.prems(4)]
    obtain t env1 where t: "reader_timeout ka d env = Some (t, env1)" "t \<noteq> 0" "responsive now env1"
        "polls env1 = polls env" "recvs env1 = recvs env"
        "clocks env1 = (if d = None then clocks env else tl (clocks env))" by metis
    from responsive_wait [OF t(3)] t(4) \<open>polls env \<noteq> []\<close>
    obtain env2 where w: "wait_readable t env1 = Some (1, env2)" "responsive now env2"
        "recvs env2 = recvs env1" "clocks env2 = clocks env1" "length (polls env1) = Suc (length (polls env2))"
      by metis
    have "recvs env2 \<noteq> []"
      using w(3) t(5) short less.prems(5) by (auto simp: stream_def)
    from responsive_recv [OF w(2) this x(3)]
    obtain bs env3 where e: "recv space env2 = Some (RECV_BYTES bs, env3)" "bs \<noteq> []"
        "responsive now env3" "polls env3 = polls env2" "clocks env3 = clocks env2" by metis
    have "d = None \<Longrightarrow> clocks env3 \<noteq> []" using e(5) w(4) t(6) \<open>clocks env \<noteq> []\<close> by simp
    from responsive_start [OF e(3) this less.prems(4)]
    obtain env4 where s: "start_deadline rq d env3 = Some (Some (deadline_from now rq), env4)"
        "responsive now env4" "polls env4 = polls env3" "recvs env4 = recvs env3"
        "clocks env4 = (if d = None then tl (clocks env3) else clocks env3)" by metis
    have step: "reader_loop ka rq d r env h
        = reader_loop ka rq (Some (deadline_from now rq)) (rd_append r1 bs) env4 h1"
      unfolding reader_loop.simps [of ka rq d r env h] by (simp add: p x(1) t(1,2) w(1) e(1,2) s(1))
    have len: "length bs \<le> space" using recv_facts(2) [OF e(1)] by (simp add: event_bytes_def)
    have stream': "stream (rd_append r1 bs) env4 = m @ rest"
      using recv_facts(1) [OF e(1)] s(4) w(3) t(5) x(2) less.prems(5)
      by (simp add: stream_def event_bytes_def)
    have nbs: "1 \<le> length bs" using e(2) by (cases bs) auto
    have "length (clocks env) = Suc (length (clocks env4))"
      using s(5) e(5) w(4) t(6) \<open>clocks env \<noteq> []\<close> by auto
    then show ?thesis
      unfolding step
      using less.hyps [OF _ s(2) _ nf(1) _ stream', of "Some (deadline_from now rq)"] nbs short x
        reader_ok_append(1) [OF pf(1), of bs] len e(2) less.prems(6,7) w(5) t(4) s(3) e(4)
      by simp
  qed
qed

lemma next_request_progress:
  assumes env: "responsive now env" "length m \<le> length (polls env)" "length m < length (clocks env)"
    and r: "reader_ok r" "never_fails h" and s: "stream r env = m @ rest"
    and m: "message_verdict m = Complete (length m)"
  shows "\<exists>r' env' h'. http_reader_next_request ka rq r env h = Some ((HTTP_READ_OK, Some m), r', env', h')
    \<and> stream r' env' = rest"
proof -
  let ?ka = "if ka < 1 then 1 else ka" and ?rq = "if rq < 1 then 1 else rq"
  obtain cs where cs: "clocks env = Some now # cs"
    using env(1,3) by (cases "clocks env") (auto simp: responsive_def)
  have "\<exists>msg r' env' h'. http_reader_next_request ka rq r env h = Some ((HTTP_READ_OK, Some msg), r', env', h')"
  proof (cases "rd_bytes r = []")
    case True
    have "\<exists>msg r' env' h'. reader_loop ?ka ?rq None r env h = Some ((HTTP_READ_OK, Some msg), r', env', h')"
      by (rule loop_progress [OF env(1) r _ _ _ s m]) (use env in auto)
    with True show ?thesis by (simp add: http_reader_next_request_def Let_def)
  next
    case False
    let ?env = "env\<lparr>clocks := cs\<rparr>"
    have "stream r ?env = m @ rest" "responsive now ?env" using s env(1) cs
      by (simp_all add: stream_def responsive_def)
    from loop_progress [OF this(2) r _ _ _ this(1) m, of ?ka ?rq "Some (deadline_from now ?rq)"]
    have "\<exists>msg r' env' h'. reader_loop ?ka ?rq (Some (deadline_from now ?rq)) r ?env h
        = Some ((HTTP_READ_OK, Some msg), r', env', h')"
      using env cs by simp
    with False cs show ?thesis by (simp add: http_reader_next_request_def Let_def clock_gettime_def)
  qed
  then obtain msg r' env' h' where
    run: "http_reader_next_request ka rq r env h = Some ((HTTP_READ_OK, Some msg), r', env', h')" by blast
  then have out: "message_verdict msg = Complete (length msg)" "m @ rest = msg @ stream r' env'"
    using next_request_facts [OF run r(1)] s by (simp_all add: reader_outcome_def)
  from mf.message_unique [OF m out] run show ?thesis by blast
qed

section \<open>Properties of the reader\<close>

definition sample_get :: bytes where
  "sample_get = ''GET / HTTP/1.0'' @ CRLF @ CRLF"

definition sample_time :: timespec where
  "sample_time = \<lparr>tv_sec = 10, tv_nsec = 0\<rparr>"

text \<open>The request arrives in two pieces, the second with the start of the next request.\<close>

definition sample_env :: conn_env where
  "sample_env = \<lparr>clocks = replicate 20 (Some sample_time), polls = replicate 20 (POLL_READY False True),
     recvs = [RECV_BYTES (take 5 sample_get), RECV_BYTES (drop 5 sample_get @ ''GE'')], waits = []\<rparr>"

definition sample_reader_after :: http_reader_t where
  "sample_reader_after = \<lparr>rd_data = Some ''GE'', rd_capacity = 8192\<rparr>"

definition sample_env_after :: conn_env where
  "sample_env_after = \<lparr>clocks = replicate 18 (Some sample_time), polls = replicate 18 (POLL_READY False True),
     recvs = [], waits = [15000, 10000]\<rparr>"

lemma sample_run:
  "http_reader_next_request 15 10 http_reader_init sample_env fresh_heap
     = Some ((HTTP_READ_OK, Some sample_get), sample_reader_after, sample_env_after,
         \<lparr>outcomes = [], live = 2\<rparr>)"
  by code_simp

text \<open>
  C6. The reader neither loses, invents nor reorders bytes: a message it returns is the first
  complete message of the byte stream and the rest of the stream stays available; a timeout
  leaves the stream untouched; a protocol error is returned only if it is the verdict on the stream.
\<close>

theorem http_reader_next_request_stream:
  assumes "http_reader_next_request ka rq r env h = Some ((res, msg), r', env', h')" and "reader_ok r"
  shows "reader_outcome (stream r env) res msg r' env'"
  using next_request_facts [OF assms] by simp

theorem http_reader_next_request_stream_witness:
  "reader_ok http_reader_init
    \<and> reader_outcome (stream http_reader_init sample_env) HTTP_READ_OK (Some sample_get)
        sample_reader_after sample_env_after"
  using http_reader_next_request_stream [OF sample_run] by simp

text \<open>
  C28. The buffer stays within its capacity and the capacity within the bound on a whole message,
  and no block is lost: after a call the reader owns its buffer, the caller the returned copy,
  and nothing else was allocated, on every path including failed allocations.
\<close>

theorem http_reader_next_request_memory:
  assumes "http_reader_next_request ka rq r env h = Some ((res, msg), r', env', h')" and "reader_ok r"
  shows "reader_ok r' \<and> length (rd_bytes r') \<le> HTTP_MAX_MESSAGE_BYTES
    \<and> live h' = live h + blocks (rd_data r') - blocks (rd_data r) + blocks msg
    \<and> live (snd (http_reader_destroy r' h')) = live h - blocks (rd_data r) + blocks msg"
proof -
  have ok: "reader_ok r'" and l: "live h' = live h + blocks (rd_data r') - blocks (rd_data r) + blocks msg"
    using next_request_facts [OF assms] by simp_all
  from ok have "length (rd_bytes r') \<le> HTTP_MAX_MESSAGE_BYTES"
    by (auto simp: reader_ok_def rd_bytes_def split: option.splits)
  with ok l show ?thesis by (simp add: http_reader_destroy_def)
qed

theorem http_reader_next_request_memory_witness:
  "reader_ok sample_reader_after \<and> live (snd (http_reader_destroy sample_reader_after
     \<lparr>outcomes = [], live = 2\<rparr>)) = 1"
  using http_reader_next_request_memory [OF sample_run reader_ok_init]
  by (simp add: http_reader_init_def fresh_heap_def)

text \<open>
  C16. Segmentation does not matter: two readers that face the same byte stream, cut into
  segments, timed and interrupted in different ways, hand out the same message and are left
  with the same stream.
\<close>

theorem http_reader_segmentation_independent:
  assumes "http_reader_next_request ka1 rq1 r1 env1 h1 = Some ((HTTP_READ_OK, msg1), r1', env1', h1')"
    and "http_reader_next_request ka2 rq2 r2 env2 h2 = Some ((HTTP_READ_OK, msg2), r2', env2', h2')"
    and "reader_ok r1" and "reader_ok r2" and "stream r1 env1 = stream r2 env2"
  shows "msg1 = msg2 \<and> stream r1' env1' = stream r2' env2'"
proof -
  have "reader_outcome (stream r1 env1) HTTP_READ_OK msg1 r1' env1'"
    and "reader_outcome (stream r2 env2) HTTP_READ_OK msg2 r2' env2'"
    using next_request_facts [OF assms(1,3)] next_request_facts [OF assms(2,4)] by simp_all
  then obtain m1 m2 where "msg1 = Some m1" "message_verdict m1 = Complete (length m1)"
      "stream r1 env1 = m1 @ stream r1' env1'" "msg2 = Some m2"
      "message_verdict m2 = Complete (length m2)" "stream r2 env2 = m2 @ stream r2' env2'"
    by (auto simp: reader_outcome_def split: option.splits)
  with assms(5) mf.message_unique [of m1 m2] show ?thesis by simp
qed

theorem http_reader_segmentation_independent_witness:
  "\<exists>msg r' env' h'. http_reader_next_request 1 1 \<lparr>rd_data = Some (take 3 sample_get), rd_capacity = 4096\<rparr>
       (sample_env\<lparr>recvs := [RECV_ERR EINTR, RECV_BYTES (drop 3 sample_get), RECV_BYTES ''GE'']\<rparr>) fresh_heap
     = Some ((HTTP_READ_OK, msg), r', env', h')
     \<and> Some sample_get = msg \<and> stream sample_reader_after sample_env_after = stream r' env'"
proof -
  let ?r = "\<lparr>rd_data = Some (take 3 sample_get), rd_capacity = 4096\<rparr>"
  let ?env = "sample_env\<lparr>recvs := [RECV_ERR EINTR, RECV_BYTES (drop 3 sample_get), RECV_BYTES ''GE'']\<rparr>"
  have run: "\<exists>msg r' env' h'. http_reader_next_request 1 1 ?r ?env fresh_heap
      = Some ((HTTP_READ_OK, msg), r', env', h')"
  proof -
    have "map_option (fst \<circ> fst) (http_reader_next_request 1 1 ?r ?env fresh_heap) = Some HTTP_READ_OK"
      by code_simp
    then show ?thesis by auto
  qed
  have ok: "reader_ok ?r" by code_simp
  have s: "stream http_reader_init sample_env = stream ?r ?env" by code_simp
  from run obtain msg r' env' h' where
    r': "http_reader_next_request 1 1 ?r ?env fresh_heap = Some ((HTTP_READ_OK, msg), r', env', h')" by blast
  with http_reader_segmentation_independent [OF sample_run r' reader_ok_init ok s] show ?thesis by blast
qed

text \<open>
  C14. What a well-behaved peer sends is what the server reads: if the stream starts with a
  message that the parser accepts, and the bytes keep arriving, the reader returns, with exactly
  that message, and leaves exactly the bytes after it. (The script holds as many \<open>poll\<close>s and
  clock readings as the message has bytes, enough even if the bytes come one by one.)
\<close>

theorem http_reader_delivers_accepted:
  assumes "http_parse_request m h0 = (HTTP_PARSE_OK, req, h0')" and "stream r env = m @ rest"
    and "responsive now env" and "length m \<le> length (polls env)" and "length m < length (clocks env)"
    and "reader_ok r" and "never_fails h"
  shows "\<exists>r' env' h'. http_reader_next_request ka rq r env h = Some ((HTTP_READ_OK, Some m), r', env', h')
    \<and> stream r' env' = rest"
  by (rule next_request_progress [OF assms(3-7,2) accepted_complete [OF assms(1)]])

theorem http_reader_delivers_accepted_witness:
  "\<exists>r' env' h'. http_reader_next_request 15 10 http_reader_init sample_env fresh_heap
     = Some ((HTTP_READ_OK, Some sample_get), r', env', h') \<and> stream r' env' = ''GE''"
proof -
  have "fst (http_parse_request sample_get fresh_heap) = HTTP_PARSE_OK" by code_simp
  then obtain req h0' where p: "http_parse_request sample_get fresh_heap = (HTTP_PARSE_OK, req, h0')"
    by (cases "http_parse_request sample_get fresh_heap") auto
  have s: "stream http_reader_init sample_env = sample_get @ ''GE''" by code_simp
  have r: "responsive sample_time sample_env" by code_simp
  have l: "length sample_get \<le> length (polls sample_env)" "length sample_get < length (clocks sample_env)"
    by code_simp+
  have nf: "never_fails fresh_heap" by code_simp
  show ?thesis by (rule http_reader_delivers_accepted [OF p s r l _ nf]) simp
qed



text \<open>
  The one-shot helper discards its reader: after \<open>http_read_request\<close> the only block that
  may be left is the returned message, and a returned message is the first one of the incoming bytes.
\<close>

theorem http_read_request_correct:
  assumes "http_read_request env h = Some ((res, msg), env', h')"
  shows "live h' = live h + blocks msg
    \<and> (res = HTTP_READ_OK \<longleftrightarrow> msg \<noteq> None)
    \<and> (\<forall>m. msg = Some m \<longrightarrow> message_verdict m = Complete (length m)
        \<and> prefix m (concat (map event_bytes (recvs env))))"
proof -
  obtain r h1 where run: "http_reader_next_request HTTP_READER_ONESHOT_TIMEOUT_SEC
      HTTP_READER_ONESHOT_TIMEOUT_SEC http_reader_init env h = Some ((res, msg), r, env', h1)"
    and h': "h' = c_free (rd_data r) h1"
    using assms by (auto simp: http_read_request_def http_reader_destroy_def split: option.splits)
  have l: "live h1 = live h + blocks (rd_data r) + blocks msg"
    and o: "reader_outcome (stream http_reader_init env) res msg r env'"
    using next_request_facts [OF run reader_ok_init] by (simp_all add: http_reader_init_def)
  from o have "res = HTTP_READ_OK \<longleftrightarrow> msg \<noteq> None"
    by (cases res) (auto simp: reader_outcome_def split: option.splits)
  moreover have "\<forall>m. msg = Some m \<longrightarrow> message_verdict m = Complete (length m)
      \<and> prefix m (concat (map event_bytes (recvs env)))"
    using o by (cases res) (auto simp: reader_outcome_def stream_def)
  ultimately show ?thesis using l h' by simp
qed

theorem http_read_request_correct_witness:
  "\<exists>env' h'. http_read_request sample_env fresh_heap = Some ((HTTP_READ_OK, Some sample_get), env', h')
     \<and> live h' = 1"
proof -
  have "map_option fst (http_read_request sample_env fresh_heap) = Some (HTTP_READ_OK, Some sample_get)"
    by code_simp
  then obtain env' h' where
    run: "http_read_request sample_env fresh_heap = Some ((HTTP_READ_OK, Some sample_get), env', h')"
    by auto
  with http_read_request_correct [OF run] show ?thesis by (simp add: fresh_heap_def)
qed

end
