(* ===== verification/Os_World.thy ===== *)
theory Os_World
  imports Http_Limits
begin

text \<open>
  What the response side of the program sees of the operating system: the allocator, the
  descriptors it closes, the client socket it writes to and the files it sends; with the write
  loop of \<^verbatim>\<open>src/utils.c\<close>.

  System calls take their results from scripts, in the order of the calls: how many bytes
  \<open>send\<close>, \<open>sendfile\<close> and \<open>read\<close> move (a script entry that asks for more than is there
  moves what is there) or which error they report. A call whose script has run out is still
  waiting; a function that makes it returns \<open>None\<close>. \<open>sent\<close> is what the peer has received,
  \<open>closed\<close> the log of the closed descriptors, \<open>file_data\<close> the content of the open files.
\<close>

section \<open>State\<close>

datatype send_event = SENT nat | SEND_EINTR | SEND_FAIL

text \<open>\<open>SENDFILE_UNSUPPORTED\<close> stands for \<open>EINVAL\<close> and \<open>ENOSYS\<close>.\<close>

datatype sendfile_event = SENDFILE nat | SENDFILE_EINTR | SENDFILE_UNSUPPORTED | SENDFILE_FAIL

datatype read_event = READ nat | READ_EINTR | READ_FAIL

record world =
  mem :: heap
  closed :: "int list"
  sent :: bytes
  sends :: "send_event list"
  sendfiles :: "sendfile_event list"
  reads :: "read_event list"
  seeks :: "bool list"
  file_data :: "int \<Rightarrow> bytes"

definition os_close :: "int \<Rightarrow> 'a world_scheme \<Rightarrow> 'a world_scheme" where
  "os_close fd w = w\<lparr>closed := closed w @ [fd]\<rparr>"

section \<open>Writing a whole buffer\<close>

text \<open>
  The loop of \<open>send_all\<close> on the bytes that are left: whether it succeeded, the bytes that went
  out, and the rest of the script.
\<close>

fun send_loop :: "bytes \<Rightarrow> send_event list \<Rightarrow> (bool \<times> bytes \<times> send_event list) option" where
  "send_loop [] es = Some (True, [], es)"
| "send_loop (b # bs) [] = None"
| "send_loop (b # bs) (SEND_EINTR # es) = send_loop (b # bs) es"
| "send_loop (b # bs) (SEND_FAIL # es) = Some (False, [], es)"
| "send_loop (b # bs) (SENT n # es) =
     (if n = 0 then Some (False, [], es)
      else case send_loop (drop n (b # bs)) es of None \<Rightarrow> None
      | Some (ok, out, es') \<Rightarrow> Some (ok, take n (b # bs) @ out, es'))"

text \<open>\<open>True\<close> is a return value that is not negative. A NULL buffer with a length is refused.\<close>

definition send_all :: "bytes option \<Rightarrow> nat \<Rightarrow> 'a world_scheme \<Rightarrow> (bool \<times> 'a world_scheme) option" where
  "send_all buffer len w =
     (case buffer of
        None \<Rightarrow> Some (\<not> 0 < len, w)
      | Some bs \<Rightarrow>
        if len = 0 then Some (True, w)
        else (case send_loop (take len bs) (sends w) of None \<Rightarrow> None
          | Some (ok, out, es) \<Rightarrow> Some (ok, w\<lparr>sent := sent w @ out, sends := es\<rparr>)))"

section \<open>Facts\<close>

lemma os_close_simps [simp]:
  "closed (os_close fd w) = closed w @ [fd]" "mem (os_close fd w) = mem w"
  "sent (os_close fd w) = sent w" "sends (os_close fd w) = sends w"
  "sendfiles (os_close fd w) = sendfiles w" "reads (os_close fd w) = reads w"
  "seeks (os_close fd w) = seeks w" "file_data (os_close fd w) = file_data w"
  "world.more (os_close fd w) = world.more w"
  by (simp_all add: os_close_def)

lemma send_loop_facts:
  assumes "send_loop bs es = Some (ok, out, es')"
  shows "prefix out bs" and "ok \<Longrightarrow> out = bs"
proof -
  have "prefix out bs \<and> (ok \<longrightarrow> out = bs)"
    using assms
  proof (induction bs es arbitrary: out rule: send_loop.induct)
    case (5 b bs n es)
    show ?case
    proof (cases "n = 0")
      case False
      with "5.prems" obtain out' where
        run: "send_loop (drop n (b # bs)) es = Some (ok, out', es')" and out: "out = take n (b # bs) @ out'"
        by (auto split: option.splits)
      from "5.IH" [OF False run] out show ?thesis
        by (metis append_take_drop_id same_prefix_prefix)
    qed (use "5.prems" in simp)
  qed auto
  then show "prefix out bs" and "ok \<Longrightarrow> out = bs" by simp_all
qed

text \<open>
  A script long enough for the bytes, without errors and with progress in every call, lets the
  loop finish.
\<close>

lemma send_loop_progress:
  assumes "length bs \<le> length es" and "\<forall>e\<in>set es. \<exists>n. e = SENT n \<and> n \<noteq> 0"
  shows "\<exists>es'. send_loop bs es = Some (True, bs, es') \<and> suffix es' es \<and> length es \<le> length es' + length bs"
  using assms
proof (induction bs es rule: send_loop.induct)
  case (5 b bs n es)
  then have n: "n \<noteq> 0" and "length (drop n (b # bs)) \<le> length es" by auto
  with 5 obtain es' where "send_loop (drop n (b # bs)) es = Some (True, drop n (b # bs), es')"
    "suffix es' es" "length es \<le> length es' + length (drop n (b # bs))" by auto
  moreover have "length (drop n (b # bs)) \<le> length bs" using n by simp
  ultimately show ?case
    using n by (auto simp: suffix_Cons)
qed auto

lemma send_all_facts:
  assumes "send_all (Some bs) n w = Some (ok, w')"
  shows "\<exists>out. w' = w\<lparr>sent := sent w @ out, sends := sends w'\<rparr> \<and> prefix out (take n bs)
    \<and> (ok \<longrightarrow> out = take n bs)"
proof (cases "n = 0")
  case True
  with assms show ?thesis by (auto simp: send_all_def)
next
  case False
  with assms obtain out es where run: "send_loop (take n bs) (sends w) = Some (ok, out, es)"
    and w': "w' = w\<lparr>sent := sent w @ out, sends := es\<rparr>"
    by (auto simp: send_all_def split: option.splits)
  from send_loop_facts [OF run] w' show ?thesis by auto
qed

end
