(* ===== verification/Http_Response.thy ===== *)
theory Http_Response
  imports Os_World Http_Parser_Language "HOL-Library.Multiset"
begin

text \<open>
  Responses of \<^verbatim>\<open>src/http_response.c\<close>: the structure with its three kinds of body, the
  operations that build it, its serialisation and its transmission.

  The header array is as in a request: \<open>None\<close> is NULL, and an array that has become empty by
  removal is \<open>Some []\<close>. Operations that return 0 or -1 return a \<open>bool\<close> here, \<open>True\<close> for 0.
  The transmission is the Linux build: \<open>sendfile\<close> first, \<open>read\<close> and \<open>send\<close> as its fallback.
\<close>

section \<open>Data\<close>

datatype http_body_kind_t = HTTP_BODY_NONE | HTTP_BODY_MEMORY | HTTP_BODY_FILE

record http_response_t =
  rs_status_code :: int
  rs_reason_phrase :: "string option"
  rs_headers :: "http_header_t list option"
  rs_body_kind :: http_body_kind_t
  rs_body :: "bytes option"
  rs_body_length :: nat
  rs_body_owned :: bool
  rs_file_fd :: int
  rs_suppress_auto_connection_close :: bool

definition http_reason_phrase :: "int \<Rightarrow> string" where
  "http_reason_phrase status_code =
     (if status_code = 200 then ''OK''
      else if status_code = 201 then ''Created''
      else if status_code = 204 then ''No Content''
      else if status_code = 400 then ''Bad Request''
      else if status_code = 403 then ''Forbidden''
      else if status_code = 404 then ''Not Found''
      else if status_code = 405 then ''Method Not Allowed''
      else if status_code = 408 then ''Request Timeout''
      else if status_code = 413 then ''Payload Too Large''
      else if status_code = 500 then ''Internal Server Error''
      else if status_code = 501 then ''Not Implemented''
      else if status_code = 505 then ''HTTP Version Not Supported''
      else ''Unknown'')"

definition http_response_init :: http_response_t where
  "http_response_init = \<lparr>rs_status_code = 500, rs_reason_phrase = Some (http_reason_phrase 500),
     rs_headers = None, rs_body_kind = HTTP_BODY_NONE, rs_body = None, rs_body_length = 0,
     rs_body_owned = False, rs_file_fd = -1, rs_suppress_auto_connection_close = False\<rparr>"

section \<open>Building a response\<close>

definition free_body :: "http_response_t \<Rightarrow> 'a world_scheme \<Rightarrow> 'a world_scheme" where
  "free_body r w = (if rs_body_kind r = HTTP_BODY_MEMORY \<and> rs_body_owned r
     then w\<lparr>mem := c_free (rs_body r) (mem w)\<rparr> else w)"

definition close_body :: "http_response_t \<Rightarrow> 'a world_scheme \<Rightarrow> 'a world_scheme" where
  "close_body r w = (if rs_body_kind r = HTTP_BODY_FILE \<and> 0 \<le> rs_file_fd r
     then os_close (rs_file_fd r) w else w)"

definition clear_body :: "http_response_t \<Rightarrow> 'a world_scheme \<Rightarrow> http_response_t \<times> 'a world_scheme" where
  "clear_body r w = (r\<lparr>rs_body_kind := HTTP_BODY_NONE, rs_body := None, rs_body_length := 0,
     rs_body_owned := False, rs_file_fd := -1\<rparr>, close_body r (free_body r w))"

definition http_response_destroy ::
  "http_response_t \<Rightarrow> 'a world_scheme \<Rightarrow> http_response_t \<times> 'a world_scheme" where
  "http_response_destroy r w =
     (let w1 = w\<lparr>mem := free_headers (rs_headers r) (mem w)\<rparr>;
          (_, w2) = clear_body r w1
      in (http_response_init, w2))"

definition http_response_set_status :: "http_response_t \<Rightarrow> int \<Rightarrow> http_response_t" where
  "http_response_set_status r status_code =
     r\<lparr>rs_status_code := status_code, rs_reason_phrase := Some (http_reason_phrase status_code)\<rparr>"

fun header_name_equal_response :: "string \<Rightarrow> string \<Rightarrow> bool" where
  "header_name_equal_response (a # as) (b # bs) =
     (if ascii_tolower a \<noteq> ascii_tolower b then False else header_name_equal_response as bs)"
| "header_name_equal_response as bs = (as = [] \<and> bs = [])"

definition dup_string :: "string \<Rightarrow> heap \<Rightarrow> string option \<times> heap" where
  "dup_string s h = (case malloc h of (ok, h') \<Rightarrow> (if ok then Some s else None, h'))"

definition http_response_add_header ::
  "http_response_t \<Rightarrow> string \<Rightarrow> string \<Rightarrow> heap \<Rightarrow> bool \<times> http_response_t \<times> heap" where
  "http_response_add_header r name value h =
     (case dup_string name h of (name_copy, h1) \<Rightarrow>
      (case dup_string value h1 of (value_copy, h2) \<Rightarrow>
       (case (name_copy, value_copy) of
          (Some n, Some v) \<Rightarrow>
           (case realloc (rs_headers r = None) h2 of (grown, h3) \<Rightarrow>
             if \<not> grown then (False, r, c_free value_copy (c_free name_copy h3))
             else (True, r\<lparr>rs_headers := Some (header_list (rs_headers r)
                                              @ [\<lparr>hd_name = n, hd_value = v\<rparr>])\<rparr>, h3))
        | _ \<Rightarrow> (False, r, c_free value_copy (c_free name_copy h2)))))"

text \<open>The removal loop: a matching entry is freed and overwritten by the last one.\<close>

function remove_loop ::
  "string \<Rightarrow> nat \<Rightarrow> http_header_t list \<Rightarrow> nat \<Rightarrow> heap \<Rightarrow> nat \<times> http_header_t list \<times> heap" where
  "remove_loop name i hs removed h =
     (if i < length hs then
        if header_name_equal_response (hd_name (hs ! i)) name then
          let h' = c_free (Some (hd_value (hs ! i))) (c_free (Some (hd_name (hs ! i))) h);
              last_index = length hs - 1;
              hs' = (if i \<noteq> last_index then hs[i := hs ! last_index] else hs)
          in remove_loop name i (take last_index hs') (removed + 1) h'
        else remove_loop name (i + 1) hs removed h
      else (removed, hs, h))"
  by pat_completeness auto
termination
  by (relation "measure (\<lambda>(_, i, hs, _, _). length hs - i)") auto

declare remove_loop.simps [simp del]

definition http_response_remove_header ::
  "http_response_t \<Rightarrow> string \<Rightarrow> heap \<Rightarrow> nat \<times> http_response_t \<times> heap" where
  "http_response_remove_header r name h =
     (case rs_headers r of None \<Rightarrow> (0, r, h)
      | Some hs \<Rightarrow> (case remove_loop name 0 hs 0 h of
          (removed, hs', h') \<Rightarrow> (removed, r\<lparr>rs_headers := Some hs'\<rparr>, h')))"

definition http_response_set_header ::
  "http_response_t \<Rightarrow> string \<Rightarrow> string \<Rightarrow> heap \<Rightarrow> bool \<times> http_response_t \<times> heap" where
  "http_response_set_header r name value h =
     (case http_response_remove_header r name h of (_, r', h') \<Rightarrow>
        http_response_add_header r' name value h')"

definition http_response_set_body_owned ::
  "http_response_t \<Rightarrow> bytes option \<Rightarrow> nat \<Rightarrow> 'a world_scheme \<Rightarrow> bool \<times> http_response_t \<times> 'a world_scheme"
where
  "http_response_set_body_owned r body len w =
     (case clear_body r w of (r', w') \<Rightarrow>
        if len = 0 \<and> body = None then (True, r'\<lparr>rs_body_kind := HTTP_BODY_NONE\<rparr>, w')
        else (True, r'\<lparr>rs_body_kind := HTTP_BODY_MEMORY, rs_body := body, rs_body_length := len,
                rs_body_owned := (body \<noteq> None)\<rparr>, w'))"

definition http_response_set_body_text ::
  "http_response_t \<Rightarrow> string option \<Rightarrow> 'a world_scheme \<Rightarrow> bool \<times> http_response_t \<times> 'a world_scheme" where
  "http_response_set_body_text r text w =
     (case text of None \<Rightarrow> http_response_set_body_owned r None 0 w
      | Some t \<Rightarrow> (case malloc (mem w) of (ok, h) \<Rightarrow>
          if \<not> ok then (False, r, w\<lparr>mem := h\<rparr>)
          else http_response_set_body_owned r (Some t) (length t) (w\<lparr>mem := h\<rparr>)))"

definition http_response_set_body_copy ::
  "http_response_t \<Rightarrow> bytes option \<Rightarrow> nat \<Rightarrow> 'a world_scheme \<Rightarrow> bool \<times> http_response_t \<times> 'a world_scheme"
where
  "http_response_set_body_copy r body len w =
     (if len = 0 then http_response_set_body_owned r None 0 w
      else (case body of None \<Rightarrow> (False, r, w)
      | Some bs \<Rightarrow> (case malloc (mem w) of (ok, h) \<Rightarrow>
          if \<not> ok then (False, r, w\<lparr>mem := h\<rparr>)
          else http_response_set_body_owned r (Some (take len bs)) len (w\<lparr>mem := h\<rparr>))))"

definition http_response_set_file_body ::
  "http_response_t \<Rightarrow> int \<Rightarrow> int \<Rightarrow> 'a world_scheme \<Rightarrow> bool \<times> http_response_t \<times> 'a world_scheme" where
  "http_response_set_file_body r fd file_size w =
     (if fd < 0 \<or> file_size < 0 then (False, r, w)
      else if int SIZE_MAX < file_size then (False, r, w)
      else (case clear_body r w of (r', w') \<Rightarrow>
        (True, r'\<lparr>rs_body_kind := HTTP_BODY_FILE, rs_file_fd := fd, rs_body := None,
           rs_body_length := nat file_size, rs_body_owned := False\<rparr>, w')))"

definition response_has_header :: "http_response_t \<Rightarrow> string \<Rightarrow> bool" where
  "response_has_header r name =
     list_ex (\<lambda>x. header_name_equal_response (hd_name x) name) (header_list (rs_headers r))"

text \<open>The common body of the two builders, which differ in the content type only.\<close>

definition build_with_type ::
  "string \<Rightarrow> http_response_t \<Rightarrow> int \<Rightarrow> string option \<Rightarrow> 'a world_scheme \<Rightarrow>
   bool \<times> http_response_t \<times> 'a world_scheme" where
  "build_with_type content_type r status_code text w =
     (case http_response_destroy r w of (_, w1) \<Rightarrow>
      let r1 = http_response_set_status http_response_init status_code in
      (case (case text of None \<Rightarrow> (True, r1, w1)
             | Some t \<Rightarrow> http_response_set_body_text r1 (Some t) w1) of (ok, r2, w2) \<Rightarrow>
        if \<not> ok then (False, r2, w2)
        else (case http_response_add_header r2 ''Content-Type'' content_type (mem w2) of
          (ok', r3, h3) \<Rightarrow> (ok', r3, w2\<lparr>mem := h3\<rparr>))))"

definition http_response_build_text ::
  "http_response_t \<Rightarrow> int \<Rightarrow> string option \<Rightarrow> 'a world_scheme \<Rightarrow>
   bool \<times> http_response_t \<times> 'a world_scheme" where
  "http_response_build_text r status_code body_text w =
     build_with_type ''text/plain; charset=utf-8'' r status_code body_text w"

definition http_response_build_json ::
  "http_response_t \<Rightarrow> int \<Rightarrow> string option \<Rightarrow> 'a world_scheme \<Rightarrow>
   bool \<times> http_response_t \<times> 'a world_scheme" where
  "http_response_build_json r status_code json w =
     build_with_type ''application/json'' r status_code json w"

section \<open>Serialisation\<close>

definition header_text :: "http_header_t \<Rightarrow> bytes" where
  "header_text x = hd_name x @ '': '' @ hd_value x @ CRLF"

definition server_hdr :: bytes where "server_hdr = ''Server: CinderHTTP/1.0'' @ CRLF"
definition connection_hdr :: bytes where "connection_hdr = ''Connection: close'' @ CRLF"

text \<open>
  The buffer sizes are those of \<open>status_line\<close> and \<open>length_hdr\<close>. The total is computed first
  and compared with what was written, as in the source; \<open>None\<close> is the return value -1.
\<close>

definition http_response_serialize_headers :: "http_response_t \<Rightarrow> heap \<Rightarrow> bytes option \<times> heap" where
  "http_response_serialize_headers r h =
     (let status_line = ''HTTP/1.1 '' @ print_int (rs_status_code r) @ '' ''
            @ (case rs_reason_phrase r of Some p \<Rightarrow> p | None \<Rightarrow> http_reason_phrase (rs_status_code r)) @ CRLF;
          length_hdr = ''Content-Length: '' @ print_nat (rs_body_length r) @ CRLF;
          need_server = (\<not> response_has_header r ''Server'');
          need_connection = (\<not> response_has_header r ''Connection''
            \<and> \<not> rs_suppress_auto_connection_close r);
          need_content_length = (\<not> response_has_header r ''Content-Length'');
          hs = header_list (rs_headers r);
          total = length status_line
            + sum_list (map (\<lambda>x. length (hd_name x) + 2 + (length (hd_value x) + 2)) hs)
            + (if need_server then length server_hdr else 0)
            + (if need_connection then length connection_hdr else 0)
            + (if need_content_length then length length_hdr else 0) + 2 in
      if 128 \<le> length status_line then (None, h)
      else if 64 \<le> length length_hdr then (None, h)
      else (case malloc h of (ok, h') \<Rightarrow>
        if \<not> ok then (None, h')
        else
          let buffer = status_line @ concat (map header_text hs)
                @ (if need_server then server_hdr else [])
                @ (if need_connection then connection_hdr else [])
                @ (if need_content_length then length_hdr else []) @ CRLF in
          if length buffer \<noteq> total then (None, c_free (Some buffer) h')
          else (Some buffer, h')))"

definition http_response_serialize :: "http_response_t \<Rightarrow> bool \<Rightarrow> heap \<Rightarrow> bytes option \<times> heap" where
  "http_response_serialize r omit_body h =
     (case http_response_serialize_headers r h of
        (None, h1) \<Rightarrow> (None, h1)
      | (Some headers, h1) \<Rightarrow>
        let include_memory_body = (\<not> omit_body \<and> rs_body_kind r = HTTP_BODY_MEMORY
              \<and> 0 < rs_body_length r \<and> rs_body r \<noteq> None) in
        if \<not> include_memory_body then (Some headers, h1)
        else (case malloc h1 of (ok, h2) \<Rightarrow>
          if \<not> ok then (None, c_free (Some headers) h2)
          else (Some (headers @ take (rs_body_length r) (the (rs_body r))), c_free (Some headers) h2)))"

section \<open>Transmission\<close>

datatype sendfile_outcome = SF_DONE | SF_FALLBACK | SF_FAIL

text \<open>
  The \<open>sendfile\<close> loop from offset \<open>off\<close> of a file of \<open>fsize\<close> bytes: its outcome and the offset
  it reached.
\<close>

fun sendfile_loop :: "nat \<Rightarrow> nat \<Rightarrow> nat \<Rightarrow> sendfile_event list \<Rightarrow>
  (sendfile_outcome \<times> nat \<times> sendfile_event list) option" where
  "sendfile_loop fsize len off [] = (if len \<le> off then Some (SF_DONE, off, []) else None)"
| "sendfile_loop fsize len off (e # es) =
     (if len \<le> off then Some (SF_DONE, off, e # es)
      else (case e of
        SENDFILE_EINTR \<Rightarrow> sendfile_loop fsize len off es
      | SENDFILE_UNSUPPORTED \<Rightarrow> Some (if off = 0 then SF_FALLBACK else SF_FAIL, off, es)
      | SENDFILE_FAIL \<Rightarrow> Some (SF_FAIL, off, es)
      | SENDFILE k \<Rightarrow>
        let n = min k (min (len - off) (fsize - off)) in
        if n = 0 then Some (SF_FAIL, off, es)
        else sendfile_loop fsize len (off + n) es))"

definition HTTP_STATIC_SEND_CHUNK :: nat where "HTTP_STATIC_SEND_CHUNK = 32768"

text \<open>The fallback loop: \<open>rest\<close> is the file from its current position on.\<close>

fun read_send_loop :: "bytes \<Rightarrow> nat \<Rightarrow> read_event list \<Rightarrow> 'a world_scheme \<Rightarrow>
  (bool \<times> 'a world_scheme) option" where
  "read_send_loop rest remaining [] w =
     (if remaining = 0 then Some (True, w\<lparr>reads := []\<rparr>) else None)"
| "read_send_loop rest remaining (e # es) w =
     (if remaining = 0 then Some (True, w\<lparr>reads := e # es\<rparr>)
      else (case e of
        READ_EINTR \<Rightarrow> read_send_loop rest remaining es w
      | READ_FAIL \<Rightarrow> Some (False, w\<lparr>reads := es\<rparr>)
      | READ k \<Rightarrow>
        let want = min remaining HTTP_STATIC_SEND_CHUNK; nr = min k (min want (length rest)) in
        if nr = 0 then Some (False, w\<lparr>reads := es\<rparr>)
        else (case send_all (Some (take nr rest)) nr w of None \<Rightarrow> None
          | Some (ok, w') \<Rightarrow>
            if \<not> ok then Some (False, w'\<lparr>reads := es\<rparr>)
            else read_send_loop (drop nr rest) (remaining - nr) es w')))"

definition send_file_body :: "int \<Rightarrow> nat \<Rightarrow> 'a world_scheme \<Rightarrow> (bool \<times> 'a world_scheme) option" where
  "send_file_body file_fd len w =
     (if len = 0 then Some (True, w)
      else let content = file_data w file_fd in
        (case sendfile_loop (length content) len 0 (sendfiles w) of
          None \<Rightarrow> None
        | Some (outcome, off, es) \<Rightarrow>
          let w1 = w\<lparr>sent := sent w @ take off content, sendfiles := es\<rparr> in
          (case outcome of
            SF_FAIL \<Rightarrow> Some (False, w1)
          | SF_DONE \<Rightarrow> Some (True, w1)
          | SF_FALLBACK \<Rightarrow>
            (case seeks w1 of [] \<Rightarrow> None
             | s # ss \<Rightarrow>
               let w2 = w1\<lparr>seeks := ss\<rparr> in
               if \<not> s then Some (False, w2)
               else read_send_loop (drop off content) (len - off) (reads w2) w2))))"

definition http_response_send ::
  "http_response_t \<Rightarrow> bool \<Rightarrow> 'a world_scheme \<Rightarrow> (bool \<times> 'a world_scheme) option" where
  "http_response_send r omit_body w =
     (case http_response_serialize_headers r (mem w) of
        (None, h) \<Rightarrow> Some (False, w\<lparr>mem := h\<rparr>)
      | (Some headers, h) \<Rightarrow>
        (case send_all (Some headers) (length headers) (w\<lparr>mem := h\<rparr>) of
           None \<Rightarrow> None
         | Some (ok, w1) \<Rightarrow>
           let w2 = w1\<lparr>mem := c_free (Some headers) (mem w1)\<rparr> in
           if \<not> ok then Some (False, w2)
           else if omit_body then Some (True, w2)
           else (case rs_body_kind r of
             HTTP_BODY_MEMORY \<Rightarrow>
               if rs_body_length r = 0 then Some (True, w2)
               else if rs_body r = None then Some (False, w2)
               else send_all (rs_body r) (rs_body_length r) w2
           | HTTP_BODY_FILE \<Rightarrow>
               if rs_file_fd r < 0 then Some (False, w2)
               else send_file_body (rs_file_fd r) (rs_body_length r) w2
           | HTTP_BODY_NONE \<Rightarrow> Some (True, w2))))"

end
