(* ===== verification/Http_Response_Properties.thy ===== *)
theory Http_Response_Properties
  imports Http_Response
begin

text \<open>
  The properties of responses: what the header operations do to the set of headers, who owns
  which block and which descriptor, that the serialised header section has its only blank line
  at its end and announces the body length, and what reaches the peer.
\<close>

section \<open>Headers\<close>

lemma header_name_equal_response_lower: "header_name_equal_response a b \<longleftrightarrow> lower a = lower b"
  by (induction a b rule: header_name_equal_response.induct) auto

interpretation rs_ci: ascii_ci header_name_equal_response
  by unfold_locales (rule header_name_equal_response_lower)

abbreviation named :: "string \<Rightarrow> http_header_t \<Rightarrow> bool" where
  "named name x \<equiv> header_name_equal_response (hd_name x) name"

lemma mset_swap_remove:
  assumes "i < length xs"
  defines "n \<equiv> length xs - 1"
  defines "ys \<equiv> take n (if i \<noteq> n then xs[i := xs ! n] else xs)"
  shows "take i ys = take i xs" and "add_mset (xs ! i) (mset (drop i ys)) = mset (drop i xs)"
proof -
  obtain zs z where xs: "xs = zs @ [z]" using assms(1) by (cases xs rule: rev_cases) auto
  have n: "n = length zs" by (simp add: n_def xs)
  have "take i ys = take i xs \<and> add_mset (xs ! i) (mset (drop i ys)) = mset (drop i xs)"
  proof (cases "i = n")
    case True
    then show ?thesis by (simp add: ys_def xs n)
  next
    case False
    then have i: "i < length zs" using assms(1) by (simp add: xs n)
    have ys: "ys = zs[i := z]" using False i by (simp add: ys_def xs n list_update_append nth_append)
    have "drop i zs = zs ! i # drop (Suc i) zs" using i by (simp add: Cons_nth_drop_Suc)
    moreover have "drop i (zs[i := z]) = z # drop (Suc i) zs"
      using i by (metis Cons_nth_drop_Suc drop_update_cancel length_list_update lessI nth_list_update_eq)
    ultimately show ?thesis using i by (simp add: ys xs nth_append)
  qed
  then show "take i ys = take i xs" and "add_mset (xs ! i) (mset (drop i ys)) = mset (drop i xs)"
    by simp_all
qed

lemma remove_loop_facts:
  "remove_loop name i hs c h = (n, hs', h') \<Longrightarrow>
     mset hs' = mset (take i hs) + filter_mset (\<lambda>x. \<not> named name x) (mset (drop i hs))
     \<and> n = c + size (filter_mset (named name) (mset (drop i hs)))
     \<and> live h' = live h - 2 * int (size (filter_mset (named name) (mset (drop i hs))))
     \<and> outcomes h' = outcomes h"
proof (induction name i hs c h rule: remove_loop.induct)
  case (1 name i hs c h)
  show ?case
  proof (cases "i < length hs")
    case False
    with "1.prems" show ?thesis by (simp add: remove_loop.simps [of name i hs c h])
  next
    case True
    show ?thesis
    proof (cases "named name (hs ! i)")
      case match: True
      let ?n = "length hs - 1"
      let ?hs = "take ?n (if i \<noteq> ?n then hs[i := hs ! ?n] else hs)"
      let ?h = "c_free (Some (hd_value (hs ! i))) (c_free (Some (hd_name (hs ! i))) h)"
      have run: "remove_loop name i ?hs (c + 1) ?h = (n, hs', h')"
        using "1.prems" True match by (simp only: remove_loop.simps [of name i hs c h] Let_def if_True)
      note sw = mset_swap_remove [OF True]
      have "mset (drop i hs) = add_mset (hs ! i) (mset (drop i ?hs))" using sw(2) by simp
      with "1.IH"(1) [OF True match refl refl refl run] match sw(1) show ?thesis by simp
    next
      case no_match: False
      have run: "remove_loop name (i + 1) hs c h = (n, hs', h')"
        using "1.prems" True no_match by (simp add: remove_loop.simps [of name i hs c h])
      have "drop i hs = hs ! i # drop (i + 1) hs" "take (i + 1) hs = take i hs @ [hs ! i]"
        using True by (simp_all add: Cons_nth_drop_Suc take_Suc_conv_app_nth)
      with "1.IH"(2) [OF True no_match run] no_match show ?thesis by simp
    qed
  qed
qed

abbreviation headers_mset :: "http_response_t \<Rightarrow> http_header_t multiset" where
  "headers_mset r \<equiv> mset (header_list (rs_headers r))"

lemma remove_header_facts:
  assumes "http_response_remove_header r name h = (n, r', h')"
  shows "headers_mset r' = filter_mset (\<lambda>x. \<not> named name x) (headers_mset r)"
    and "n = size (filter_mset (named name) (headers_mset r))"
    and "live h' = live h - 2 * int n" and "outcomes h' = outcomes h"
    and "r' = r\<lparr>rs_headers := rs_headers r'\<rparr>" and "rs_headers r' = None \<longleftrightarrow> rs_headers r = None"
proof -
  have "headers_mset r' = filter_mset (\<lambda>x. \<not> named name x) (headers_mset r)
    \<and> n = size (filter_mset (named name) (headers_mset r)) \<and> live h' = live h - 2 * int n
    \<and> outcomes h' = outcomes h \<and> r' = r\<lparr>rs_headers := rs_headers r'\<rparr>
    \<and> (rs_headers r' = None \<longleftrightarrow> rs_headers r = None)"
  proof (cases "rs_headers r")
    case None
    with assms show ?thesis by (auto simp: http_response_remove_header_def header_list_def)
  next
    case (Some hs)
    with assms obtain hs' where "remove_loop name 0 hs 0 h = (n, hs', h')" and r': "r' = r\<lparr>rs_headers := Some hs'\<rparr>"
      by (auto simp: http_response_remove_header_def split: prod.splits)
    from remove_loop_facts [OF this(1)] r' Some show ?thesis by (simp add: header_list_def)
  qed
  then show "headers_mset r' = filter_mset (\<lambda>x. \<not> named name x) (headers_mset r)"
    and "n = size (filter_mset (named name) (headers_mset r))"
    and "live h' = live h - 2 * int n" and "outcomes h' = outcomes h"
    and "r' = r\<lparr>rs_headers := rs_headers r'\<rparr>" and "rs_headers r' = None \<longleftrightarrow> rs_headers r = None"
    by auto
qed

lemma dup_string_facts:
  assumes "dup_string s h = (p, h')"
  shows "p = None \<or> p = Some s" and "live h' = live h + blocks p"
    and "never_fails h \<Longrightarrow> p = Some s \<and> never_fails h'"
proof -
  obtain ok h1 where m: "malloc h = (ok, h1)" by fastforce
  show "p = None \<or> p = Some s" and "live h' = live h + blocks p"
    and "never_fails h \<Longrightarrow> p = Some s \<and> never_fails h'"
    using assms m malloc_live [OF m] never_fails_malloc [OF _ m]
    by (auto simp: dup_string_def split: if_splits)
qed

lemma add_header_facts:
  assumes "http_response_add_header r name value h = (ok, r', h')"
  shows "r' = (if ok then r\<lparr>rs_headers := Some (header_list (rs_headers r)
      @ [\<lparr>hd_name = name, hd_value = value\<rparr>])\<rparr> else r)"
    and "live h' - header_blocks (rs_headers r') = live h - header_blocks (rs_headers r)"
    and "never_fails h \<Longrightarrow> ok \<and> never_fails h'"
proof -
  obtain p h1 where p: "dup_string name h = (p, h1)" by fastforce
  obtain q h2 where q: "dup_string value h1 = (q, h2)" by fastforce
  obtain g h3 where g: "realloc (rs_headers r = None) h2 = (g, h3)" by fastforce
  note pf = dup_string_facts [OF p] and qf = dup_string_facts [OF q]
  note run = assms [unfolded http_response_add_header_def p prod.case q]
  have "r' = (if ok then r\<lparr>rs_headers := Some (header_list (rs_headers r)
      @ [\<lparr>hd_name = name, hd_value = value\<rparr>])\<rparr> else r)
    \<and> live h' - header_blocks (rs_headers r') = live h - header_blocks (rs_headers r)
    \<and> (never_fails h \<longrightarrow> ok \<and> never_fails h')"
  proof (cases "p = None \<or> q = None")
    case True
    with run have "ok = False" "r' = r" "h' = c_free q (c_free p h2)" by (auto split: option.splits)
    with True pf qf show ?thesis by auto
  next
    case False
    with pf(1) qf(1) have pq: "p = Some name" "q = Some value" by auto
    show ?thesis
    proof (cases g)
      case gT: True
      with run pq g have "ok" "r' = r\<lparr>rs_headers := Some (header_list (rs_headers r)
          @ [\<lparr>hd_name = name, hd_value = value\<rparr>])\<rparr>" "h' = h3" by auto
      with pf qf pq gT realloc_live [OF g] never_fails_realloc [OF _ g] show ?thesis
        by (cases "rs_headers r") (auto simp: header_blocks_def header_list_def)
    next
      case gF: False
      with run pq g have "\<not> ok" "r' = r" "h' = c_free q (c_free p h3)" by auto
      with pf qf pq gF realloc_live [OF g] never_fails_realloc [OF _ g] show ?thesis by auto
    qed
  qed
  then show "r' = (if ok then r\<lparr>rs_headers := Some (header_list (rs_headers r)
      @ [\<lparr>hd_name = name, hd_value = value\<rparr>])\<rparr> else r)"
    and "live h' - header_blocks (rs_headers r') = live h - header_blocks (rs_headers r)"
    and "never_fails h \<Longrightarrow> ok \<and> never_fails h'" by auto
qed

lemma header_blocks_remove:
  assumes "http_response_remove_header r name h = (n, r', h')"
  shows "live h' - header_blocks (rs_headers r') = live h - header_blocks (rs_headers r)"
proof -
  note f = remove_header_facts [OF assms]
  have "size (headers_mset r) = size (headers_mset r') + n"
    using f(1,2) multiset_partition [of "headers_mset r" "named name"] by (metis add.commute size_union)
  then have "length (header_list (rs_headers r)) = length (header_list (rs_headers r')) + n" by simp
  with f(3,6) show ?thesis
    by (cases "rs_headers r"; cases "rs_headers r'") (auto simp: header_blocks_def header_list_def)
qed

lemma set_header_facts:
  assumes "http_response_set_header r name value h = (ok, r', h')"
  shows "headers_mset r' = filter_mset (\<lambda>x. \<not> named name x) (headers_mset r)
      + (if ok then {#\<lparr>hd_name = name, hd_value = value\<rparr>#} else {#})"
    and "r' = r\<lparr>rs_headers := rs_headers r'\<rparr>"
    and "live h' - header_blocks (rs_headers r') = live h - header_blocks (rs_headers r)"
    and "never_fails h \<Longrightarrow> ok \<and> never_fails h'"
proof -
  obtain n r1 h1 where rm: "http_response_remove_header r name h = (n, r1, h1)"
    by (cases "http_response_remove_header r name h")
  have add: "http_response_add_header r1 name value h1 = (ok, r', h')"
    using assms rm by (simp add: http_response_set_header_def)
  note rf = remove_header_facts [OF rm] and af = add_header_facts [OF add]
  show "headers_mset r' = filter_mset (\<lambda>x. \<not> named name x) (headers_mset r)
      + (if ok then {#\<lparr>hd_name = name, hd_value = value\<rparr>#} else {#})"
    using rf(1) af(1) by (cases ok) (auto simp: header_list_def split: option.splits)
  show "r' = r\<lparr>rs_headers := rs_headers r'\<rparr>"
  proof -
    obtain hs where "r1 = r\<lparr>rs_headers := hs\<rparr>" using rf(5) by blast
    with af(1) show ?thesis by (cases ok) simp_all
  qed
  show "live h' - header_blocks (rs_headers r') = live h - header_blocks (rs_headers r)"
    using af(2) header_blocks_remove [OF rm] by simp
  show "ok \<and> never_fails h'" if "never_fails h"
  proof -
    have "never_fails h1" using that rf(4) by (simp add: never_fails_def)
    with af(3) show ?thesis by blast
  qed
qed

section \<open>Ownership\<close>

text \<open>The blocks and the descriptors a response owns.\<close>

definition response_blocks :: "http_response_t \<Rightarrow> int" where
  "response_blocks r = header_blocks (rs_headers r)
     + (if rs_body_kind r = HTTP_BODY_MEMORY \<and> rs_body_owned r then blocks (rs_body r) else 0)"

definition response_fds :: "http_response_t \<Rightarrow> int list" where
  "response_fds r = (if rs_body_kind r = HTTP_BODY_FILE \<and> 0 \<le> rs_file_fd r then [rs_file_fd r] else [])"

text \<open>
  The books of an operation: no block is lost or freed twice, and every descriptor that was
  handed over is either still owned or closed.
\<close>

definition balanced ::
  "http_response_t \<Rightarrow> 'a world_scheme \<Rightarrow> int list \<Rightarrow> http_response_t \<Rightarrow> 'a world_scheme \<Rightarrow> bool" where
  "balanced r w fds r' w' =
     (live (mem w') - response_blocks r' = live (mem w) - response_blocks r
      \<and> closed w' @ response_fds r' = closed w @ response_fds r @ fds)"

lemma balanced_refl: "balanced r w [] r w"
  by (simp add: balanced_def)

lemma balanced_trans:
  "balanced r w fds r1 w1 \<Longrightarrow> balanced r1 w1 fds' r2 w2 \<Longrightarrow> balanced r w (fds @ fds') r2 w2"
  unfolding balanced_def by (metis append_assoc)

lemma response_init_empty [simp]:
  "response_blocks http_response_init = 0" "response_fds http_response_init = []"
  by (simp_all add: response_blocks_def response_fds_def http_response_init_def header_blocks_def)

lemma clear_body_world:
  assumes "clear_body r w = (r', w')"
  shows "r' = r\<lparr>rs_body_kind := HTTP_BODY_NONE, rs_body := None, rs_body_length := 0,
      rs_body_owned := False, rs_file_fd := -1\<rparr>"
    and "closed w' = closed w @ response_fds r"
    and "live (mem w') = live (mem w) - (response_blocks r - header_blocks (rs_headers r))"
  using assms
  by (auto simp: clear_body_def close_body_def free_body_def response_fds_def response_blocks_def)

lemma clear_body_balanced:
  "clear_body r w = (r', w') \<Longrightarrow> balanced r w [] r' w'"
  using clear_body_world [of r w r' w']
  by (simp add: balanced_def response_fds_def) (simp add: response_blocks_def)

lemma set_status_balanced: "balanced r w [] (http_response_set_status r c) w"
  by (simp add: balanced_def response_blocks_def response_fds_def http_response_set_status_def)

text \<open>An operation that touches the headers only.\<close>

lemma headers_balanced:
  assumes "r' = r\<lparr>rs_headers := hs\<rparr>"
    and "live h' - header_blocks (rs_headers r') = live (mem w) - header_blocks (rs_headers r)"
  shows "balanced r w [] r' (w\<lparr>mem := h'\<rparr>)"
  using assms by (simp add: balanced_def response_blocks_def response_fds_def)

lemma add_header_balanced:
  assumes "http_response_add_header r n v (mem w) = (ok, r', h')"
  shows "balanced r w [] r' (w\<lparr>mem := h'\<rparr>)"
  using add_header_facts(1,2) [OF assms]
  by (intro headers_balanced [where hs = "rs_headers r'"]) (cases ok, simp_all)

lemma remove_header_balanced:
  assumes "http_response_remove_header r n (mem w) = (k, r', h')"
  shows "balanced r w [] r' (w\<lparr>mem := h'\<rparr>)"
  using remove_header_facts(5) [OF assms] header_blocks_remove [OF assms] by (rule headers_balanced)

lemma set_header_balanced:
  assumes "http_response_set_header r n v (mem w) = (ok, r', h')"
  shows "balanced r w [] r' (w\<lparr>mem := h'\<rparr>)"
  using set_header_facts(2,3) [OF assms] by (rule headers_balanced)

lemma set_body_owned_balanced:
  assumes "http_response_set_body_owned r b n (w\<lparr>mem := h\<rparr>) = (ok, r', w')"
    and "live h = live (mem w) + blocks b"
  shows "balanced r w [] r' w'"
proof -
  obtain r1 w1 where c: "clear_body r (w\<lparr>mem := h\<rparr>) = (r1, w1)" by fastforce
  show ?thesis
    using assms clear_body_world [OF c] c
    by (cases b)
      (auto simp: http_response_set_body_owned_def balanced_def response_blocks_def response_fds_def
        split: if_splits)
qed

lemma malloc_balanced:
  "malloc (mem w) = (False, h) \<Longrightarrow> balanced r w [] r (w\<lparr>mem := h\<rparr>)"
  using malloc_live [of "mem w" False h] by (simp add: balanced_def)

lemma set_body_text_balanced:
  assumes "http_response_set_body_text r t w = (ok, r', w')"
  shows "balanced r w [] r' w'"
proof (cases t)
  case None
  with assms set_body_owned_balanced [where r = r and b = None and n = 0 and w = w and h = "mem w"] show ?thesis
    by (simp add: http_response_set_body_text_def)
next
  case (Some s)
  obtain g h where m: "malloc (mem w) = (g, h)" by fastforce
  show ?thesis
  proof (cases g)
    case True
    with assms m Some malloc_live [OF m] set_body_owned_balanced [where r = r and b = "Some s" and n = "length s" and w = w and h = h]
    show ?thesis by (simp add: http_response_set_body_text_def)
  next
    case False
    with assms m Some malloc_balanced [where w = w and h = h and r = r] show ?thesis
      by (auto simp: http_response_set_body_text_def)
  qed
qed

lemma set_body_copy_balanced:
  assumes "http_response_set_body_copy r b n w = (ok, r', w')"
  shows "balanced r w [] r' w'"
proof (cases "n = 0 \<or> b = None")
  case True
  with assms set_body_owned_balanced [where r = r and b = None and n = 0 and w = w and h = "mem w"] balanced_refl [of r w] show ?thesis
    by (auto simp: http_response_set_body_copy_def split: if_splits)
next
  case False
  then obtain s where s: "b = Some s" "n \<noteq> 0" by auto
  obtain g h where m: "malloc (mem w) = (g, h)" by fastforce
  show ?thesis
  proof (cases g)
    case True
    with assms m s malloc_live [OF m] set_body_owned_balanced [where r = r and b = "Some (take n s)" and n = n and w = w and h = h]
    show ?thesis by (simp add: http_response_set_body_copy_def)
  next
    case False
    with assms m s malloc_balanced [where w = w and h = h and r = r] show ?thesis
      by (auto simp: http_response_set_body_copy_def)
  qed
qed

lemma set_file_body_balanced:
  assumes "http_response_set_file_body r fd n w = (ok, r', w')"
  shows "balanced r w (if ok then [fd] else []) r' w'"
proof -
  obtain r1 w1 where c: "clear_body r w = (r1, w1)" by fastforce
  show ?thesis
    using assms clear_body_world [OF c] c
    by (auto simp: http_response_set_file_body_def balanced_def response_blocks_def response_fds_def
        split: if_splits)
qed

lemma destroy_facts:
  assumes "http_response_destroy r w = (r', w')"
  shows "r' = http_response_init" and "live (mem w') = live (mem w) - response_blocks r"
    and "closed w' = closed w @ response_fds r"
proof -
  let ?w = "w\<lparr>mem := free_headers (rs_headers r) (mem w)\<rparr>"
  obtain r1 w1 where c: "clear_body r ?w = (r1, w1)" by fastforce
  with assms have "r' = http_response_init" "w' = w1" by (auto simp: http_response_destroy_def)
  with clear_body_world [OF c] show "r' = http_response_init"
    and "live (mem w') = live (mem w) - response_blocks r" and "closed w' = closed w @ response_fds r"
    by (simp_all add: heap_simps)
qed

lemma destroy_balanced: "http_response_destroy r w = (r', w') \<Longrightarrow> balanced r w [] r' w'"
  using destroy_facts [of r w r' w'] by (simp add: balanced_def)

lemma build_with_type_balanced:
  assumes "build_with_type ct r c t w = (ok, r', w')"
  shows "balanced r w [] r' w'"
proof -
  obtain r0 w1 where d: "http_response_destroy r w = (r0, w1)" by fastforce
  let ?r1 = "http_response_set_status http_response_init c"
  have b1: "balanced r w [] ?r1 w1"
    using balanced_trans [OF destroy_balanced [OF d] set_status_balanced] destroy_facts(1) [OF d] by simp
  obtain g r2 w2 where t: "(case t of None \<Rightarrow> (True, ?r1, w1)
      | Some t \<Rightarrow> http_response_set_body_text ?r1 (Some t) w1) = (g, r2, w2)"
    by (cases "case t of None \<Rightarrow> (True, ?r1, w1)
      | Some t \<Rightarrow> http_response_set_body_text ?r1 (Some t) w1")
  have b2: "balanced ?r1 w1 [] r2 w2"
    using t balanced_refl set_body_text_balanced by (auto split: option.splits)
  obtain a r3 h3 where h: "http_response_add_header r2 ''Content-Type'' ct (mem w2) = (a, r3, h3)"
    by (cases "http_response_add_header r2 ''Content-Type'' ct (mem w2)")
  note b3 = add_header_balanced [OF h]
  have "(r' = r2 \<and> w' = w2) \<or> (r' = r3 \<and> w' = w2\<lparr>mem := h3\<rparr>)"
    using assms by (auto simp: build_with_type_def d t h Let_def split: if_splits)
  with balanced_trans [OF b1 b2] balanced_trans [OF balanced_trans [OF b1 b2] b3] show ?thesis by auto
qed

text \<open>
  Any sequence of operations on a response, with the descriptors handed over on the way. A caller
  that hands over or copies a buffer gives a length within it.
\<close>

inductive response_steps ::
  "http_response_t \<Rightarrow> 'a world_scheme \<Rightarrow> int list \<Rightarrow> http_response_t \<Rightarrow> 'a world_scheme \<Rightarrow> bool"
  for r :: http_response_t and w :: "'a world_scheme" where
  start: "response_steps r w [] r w"
| set_status: "response_steps r w fds r1 w1 \<Longrightarrow>
    response_steps r w fds (http_response_set_status r1 c) w1"
| add_header: "response_steps r w fds r1 w1 \<Longrightarrow>
    http_response_add_header r1 n v (mem w1) = (ok, r2, h2) \<Longrightarrow>
    response_steps r w fds r2 (w1\<lparr>mem := h2\<rparr>)"
| remove_header: "response_steps r w fds r1 w1 \<Longrightarrow>
    http_response_remove_header r1 n (mem w1) = (k, r2, h2) \<Longrightarrow>
    response_steps r w fds r2 (w1\<lparr>mem := h2\<rparr>)"
| set_header: "response_steps r w fds r1 w1 \<Longrightarrow>
    http_response_set_header r1 n v (mem w1) = (ok, r2, h2) \<Longrightarrow>
    response_steps r w fds r2 (w1\<lparr>mem := h2\<rparr>)"
| set_body_owned: "response_steps r w fds r1 w1 \<Longrightarrow> malloc (mem w1) = (True, h) \<Longrightarrow> len \<le> length b \<Longrightarrow>
    http_response_set_body_owned r1 (Some b) len (w1\<lparr>mem := h\<rparr>) = (ok, r2, w2) \<Longrightarrow>
    response_steps r w fds r2 w2"
| set_body_text: "response_steps r w fds r1 w1 \<Longrightarrow>
    http_response_set_body_text r1 t w1 = (ok, r2, w2) \<Longrightarrow> response_steps r w fds r2 w2"
| set_body_copy: "response_steps r w fds r1 w1 \<Longrightarrow> (\<forall>b. bo = Some b \<longrightarrow> len \<le> length b) \<Longrightarrow>
    http_response_set_body_copy r1 bo len w1 = (ok, r2, w2) \<Longrightarrow> response_steps r w fds r2 w2"
| set_file_body: "response_steps r w fds r1 w1 \<Longrightarrow>
    http_response_set_file_body r1 fd file_size w1 = (ok, r2, w2) \<Longrightarrow>
    response_steps r w (fds @ (if ok then [fd] else [])) r2 w2"
| build_text: "response_steps r w fds r1 w1 \<Longrightarrow>
    http_response_build_text r1 c t w1 = (ok, r2, w2) \<Longrightarrow> response_steps r w fds r2 w2"
| build_json: "response_steps r w fds r1 w1 \<Longrightarrow>
    http_response_build_json r1 c t w1 = (ok, r2, w2) \<Longrightarrow> response_steps r w fds r2 w2"
| destroy: "response_steps r w fds r1 w1 \<Longrightarrow>
    http_response_destroy r1 w1 = (r2, w2) \<Longrightarrow> response_steps r w fds r2 w2"

lemma response_steps_balanced: "response_steps r w fds r' w' \<Longrightarrow> balanced r w fds r' w'"
proof (induction rule: response_steps.induct)
  case start
  show ?case by (rule balanced_refl)
next
  case (set_status fds r1 w1 c)
  from balanced_trans [OF set_status.IH set_status_balanced] show ?case by simp
next
  case (add_header fds r1 w1 n v ok r2 h2)
  from balanced_trans [OF add_header.IH add_header_balanced [OF add_header.hyps(2)]] show ?case by simp
next
  case (remove_header fds r1 w1 n k r2 h2)
  from balanced_trans [OF remove_header.IH remove_header_balanced [OF remove_header.hyps(2)]]
  show ?case by simp
next
  case (set_header fds r1 w1 n v ok r2 h2)
  from balanced_trans [OF set_header.IH set_header_balanced [OF set_header.hyps(2)]] show ?case by simp
next
  case (set_body_owned fds r1 w1 h len b ok r2 w2)
  have "balanced r1 w1 [] r2 w2"
    using set_body_owned_balanced [OF set_body_owned.hyps(4)] malloc_live [OF set_body_owned.hyps(2)] by simp
  from balanced_trans [OF set_body_owned.IH this] show ?case by simp
next
  case (set_body_text fds r1 w1 t ok r2 w2)
  from balanced_trans [OF set_body_text.IH set_body_text_balanced [OF set_body_text.hyps(2)]]
  show ?case by simp
next
  case (set_body_copy fds r1 w1 bo len ok r2 w2)
  from balanced_trans [OF set_body_copy.IH set_body_copy_balanced [OF set_body_copy.hyps(3)]]
  show ?case by simp
next
  case (set_file_body fds r1 w1 fd file_size ok r2 w2)
  show ?case by (rule balanced_trans [OF set_file_body.IH set_file_body_balanced [OF set_file_body.hyps(2)]])
next
  case (build_text fds r1 w1 c t ok r2 w2)
  from balanced_trans [OF build_text.IH build_with_type_balanced] build_text.hyps(2) show ?case
    by (fastforce simp: http_response_build_text_def)
next
  case (build_json fds r1 w1 c t ok r2 w2)
  from balanced_trans [OF build_json.IH build_with_type_balanced] build_json.hyps(2) show ?case
    by (fastforce simp: http_response_build_json_def)
next
  case (destroy fds r1 w1 r2 w2)
  from balanced_trans [OF destroy.IH destroy_balanced [OF destroy.hyps(2)]] show ?case by simp
qed

section \<open>The serialised header section\<close>

definition status_text :: "http_response_t \<Rightarrow> bytes" where
  "status_text r = ''HTTP/1.1 '' @ print_int (rs_status_code r) @ '' ''
     @ (case rs_reason_phrase r of Some p \<Rightarrow> p | None \<Rightarrow> http_reason_phrase (rs_status_code r))"

definition field_text :: "http_header_t \<Rightarrow> bytes" where
  "field_text x = hd_name x @ '': '' @ hd_value x"

text \<open>The fields of the section: those of the response, then the ones added by default.\<close>

definition auto_fields :: "http_response_t \<Rightarrow> http_header_t list" where
  "auto_fields r =
     (if response_has_header r ''Server'' then [] else [\<lparr>hd_name = ''Server'', hd_value = ''CinderHTTP/1.0''\<rparr>])
     @ (if response_has_header r ''Connection'' \<or> rs_suppress_auto_connection_close r then []
        else [\<lparr>hd_name = ''Connection'', hd_value = ''close''\<rparr>])
     @ (if response_has_header r ''Content-Length'' then []
        else [\<lparr>hd_name = ''Content-Length'', hd_value = print_nat (rs_body_length r)\<rparr>])"

abbreviation response_fields :: "http_response_t \<Rightarrow> http_header_t list" where
  "response_fields r \<equiv> header_list (rs_headers r) @ auto_fields r"

definition response_head :: "http_response_t \<Rightarrow> bytes" where
  "response_head r = status_text r @ CRLF @ section_of (map field_text (response_fields r)) @ CRLF"

lemma header_text_section: "concat (map header_text hs) = section_of (map field_text hs)"
  by (induction hs) (simp_all add: header_text_def field_text_def)

lemma length_header_texts:
  "length (concat (map header_text hs))
    = sum_list (map (\<lambda>x. length (hd_name x) + 2 + (length (hd_value x) + 2)) hs)"
  by (induction hs) (simp_all add: header_text_def)

text \<open>The length check never fires: the total computed first is the length of what is written.\<close>

lemma serialize_headers_eq:
  "http_response_serialize_headers r h =
     (if 128 \<le> length (status_text r) + 2 \<or> 46 \<le> length (print_nat (rs_body_length r)) then (None, h)
      else case malloc h of (ok, h') \<Rightarrow> (if ok then Some (response_head r) else None, h'))"
proof -
  obtain ok h' where m: "malloc h = (ok, h')" by fastforce
  let ?hs = "header_list (rs_headers r)"
  have head: "(status_text r @ CRLF) @ concat (map header_text ?hs)
      @ (if \<not> response_has_header r ''Server'' then server_hdr else [])
      @ (if \<not> response_has_header r ''Connection'' \<and> \<not> rs_suppress_auto_connection_close r
         then connection_hdr else [])
      @ (if \<not> response_has_header r ''Content-Length''
         then ''Content-Length: '' @ print_nat (rs_body_length r) @ CRLF else []) @ CRLF = response_head r"
    by (simp add: response_head_def header_text_section auto_fields_def server_hdr_def connection_hdr_def
        field_text_def)
  have st: "''HTTP/1.1 '' @ print_int (rs_status_code r) @ '' ''
      @ (case rs_reason_phrase r of Some p \<Rightarrow> p | None \<Rightarrow> http_reason_phrase (rs_status_code r)) @ CRLF
      = status_text r @ CRLF"
    by (simp add: status_text_def)
  have len: "length (response_head r) = length (status_text r @ CRLF)
      + sum_list (map (\<lambda>x. length (hd_name x) + 2 + (length (hd_value x) + 2)) ?hs)
      + (if \<not> response_has_header r ''Server'' then length server_hdr else 0)
      + (if \<not> response_has_header r ''Connection'' \<and> \<not> rs_suppress_auto_connection_close r
         then length connection_hdr else 0)
      + (if \<not> response_has_header r ''Content-Length''
         then length (''Content-Length: '' @ print_nat (rs_body_length r) @ CRLF) else 0) + 2"
    unfolding head [symmetric] length_append length_header_texts by simp
  show ?thesis
    unfolding http_response_serialize_headers_def Let_def st head len [symmetric] m prod.case
    by auto
qed

lemma serialize_headers_facts:
  assumes "http_response_serialize_headers r h = (out, h')"
  shows "out = None \<or> out = Some (response_head r)" and "live h' = live h + blocks out"
proof -
  obtain ok h1 where m: "malloc h = (ok, h1)" by fastforce
  show "out = None \<or> out = Some (response_head r)" and "live h' = live h + blocks out"
    using assms malloc_live [OF m] by (auto simp: serialize_headers_eq m split: if_splits)
qed

lemma LF_notin_print_nat: "LF \<notin> set (print_nat n)"
  using print_nat_digits [of n] by (auto simp: is_digit_def)

lemma LF_notin_reason: "LF \<notin> set (http_reason_phrase c)"
  by (simp add: http_reason_phrase_def)

lemma LF_notin_status:
  assumes "\<forall>p. rs_reason_phrase r = Some p \<longrightarrow> LF \<notin> set p"
  shows "LF \<notin> set (status_text r)"
  using assms LF_notin_reason [of "rs_status_code r"] LF_notin_print_nat
  by (auto simp: status_text_def print_int_def split: option.splits)

lemma LF_notin_auto: "x \<in> set (auto_fields r) \<Longrightarrow> LF \<notin> set (field_text x)"
  using LF_notin_print_nat by (auto simp: auto_fields_def field_text_def split: if_splits)

lemma response_head_terminator:
  assumes "\<forall>p. rs_reason_phrase r = Some p \<longrightarrow> LF \<notin> set p"
    and "\<forall>x\<in>set (header_list (rs_headers r)). LF \<notin> set (hd_name x) \<and> LF \<notin> set (hd_value x)"
  shows "http_find_header_terminator (response_head r @ body) = Some (length (response_head r) - 4)"
proof -
  have "\<forall>l\<in>set (map field_text (response_fields r)). LF \<notin> set l \<and> l \<noteq> []"
    using assms(2) LF_notin_auto by (auto simp: field_text_def)
  from find_terminator_section [OF LF_notin_status [OF assms(1)] this, of body]
  show ?thesis by (simp add: response_head_def)
qed

lemma header_ok_auto:
  assumes "x \<in> set (auto_fields r)"
  shows "header_ok x"
proof -
  have d: "\<not> is_ows c \<and> c \<noteq> NUL \<and> c \<noteq> LF" if "c \<in> set (print_nat n)" for c n
    using that print_nat_digits [of n] by (auto simp: is_digit_def is_ows_def)
  have "trimmed (print_nat n) \<and> NUL \<notin> set (print_nat n) \<and> LF \<notin> set (print_nat n)" for n
    using d [of _ n] by (auto simp: trimmed_def)
  moreover have "header_ok \<lparr>hd_name = ''Server'', hd_value = ''CinderHTTP/1.0''\<rparr>"
    "header_ok \<lparr>hd_name = ''Connection'', hd_value = ''close''\<rparr>"
    by code_simp+
  ultimately show ?thesis
    using assms by (auto simp: auto_fields_def header_ok_def split: if_splits)
qed

lemma header_line_field_text: "header_line (field_text x) x"
  unfolding header_line_def field_text_def
  by (rule exI [of _ "[SP]"], rule exI [of _ "[]"]) (simp add: is_ows_def)

lemma named_iff: "named n x \<longleftrightarrow> header_name_equal (hd_name x) n"
  by (simp add: header_name_equal_response_lower header_name_equal_lower)

lemma response_head_framing:
  assumes reason: "\<forall>p. rs_reason_phrase r = Some p \<longrightarrow> LF \<notin> set p"
    and ok: "list_all header_ok (header_list (rs_headers r))"
    and te: "filter is_te (header_list (rs_headers r)) = []"
    and cl: "filter is_cl (header_list (rs_headers r)) = []"
    and small: "rs_body_length r \<le> HTTP_MAX_BODY_SIZE"
  shows "framing_verdict (response_head r @ body) (length (response_head r)) = Inr (rs_body_length r)"
proof -
  let ?fs = "response_fields r" and ?lines = "map field_text (response_fields r)"
  have "list_all2 header_line ?lines ?fs"
    by (simp only: list_all2_map1) (simp add: list_all2_same header_line_field_text del: map_append)
  moreover have "list_all header_ok ?fs" using ok header_ok_auto by (auto simp: list_all_iff)
  ultimately have fl: "field_lines ?lines ?fs" by (rule header_line_field_lines)
  let ?cl = "\<lparr>hd_name = ''Content-Length'', hd_value = print_nat (rs_body_length r)\<rparr>"
  have "\<not> response_has_header r ''Content-Length''"
    using cl by (auto simp: response_has_header_def named_iff list_ex_iff filter_empty_conv)
  then have cls: "filter is_cl ?fs = [?cl]"
    using cl by (auto simp: auto_fields_def header_name_equal_lower ascii_tolower_def)
  have tes: "filter is_te ?fs = []"
    using te by (auto simp: auto_fields_def header_name_equal_lower ascii_tolower_def)
  obtain st where st: "frame_fields ?fs framing_init = Inr st" "\<not> saw_chunked st"
    using frame_fields_complete [OF tes, of framing_init] cls small by (auto simp: framing_init_def)
  have len: "saw_content_length st \<and> content_length st = rs_body_length r"
    using frame_fields_unseen [OF st(1)] cls small by (auto simp: framing_init_def)
  define g :: heap where "g = \<lparr>outcomes = [], live = 0\<rparr>"
  have nf: "never_fails g" by (simp add: g_def never_fails_def)
  obtain x g' where x: "http_inspect_message_framing (status_text r @ CRLF @ section_of ?lines @ CRLF @ body)
      (length (status_text r) + length (section_of ?lines) + 4) g = (x, g')" by fastforce
  from inspect_framing_section(1) [OF LF_notin_status [OF reason] fl x] nf st len
  have xv: "x = Inr (rs_body_length r)" by auto
  have hl: "length (response_head r) = length (status_text r) + length (section_of ?lines) + 4"
    and data: "response_head r @ body = status_text r @ CRLF @ section_of ?lines @ CRLF @ body"
    by (simp_all add: response_head_def)
  show ?thesis unfolding framing_verdict_def hl data g_def [symmetric] x by (simp add: xv)
qed

section \<open>Transmission\<close>

text \<open>The effect of the transmission functions on the world, apart from the scripts.\<close>

definition wrote :: "'a world_scheme \<Rightarrow> bytes \<Rightarrow> 'a world_scheme \<Rightarrow> bool" where
  "wrote w out w' = (sent w' = sent w @ out \<and> mem w' = mem w \<and> closed w' = closed w
     \<and> file_data w' = file_data w \<and> world.more w' = world.more w)"

lemma wrote_refl [simp]: "wrote w [] w"
  by (simp add: wrote_def)

lemma wrote_trans: "wrote w out w1 \<Longrightarrow> wrote w1 out' w2 \<Longrightarrow> wrote w (out @ out') w2"
  by (simp add: wrote_def)

lemma wrote_scripts [simp]:
  "wrote w out (w'\<lparr>reads := es\<rparr>) = wrote w out w'"
  "wrote w out (w'\<lparr>seeks := ss\<rparr>) = wrote w out w'"
  "wrote w out (w'\<lparr>sendfiles := fs\<rparr>) = wrote w out w'"
  "wrote w out (w\<lparr>sent := sent w @ out, sends := ds\<rparr>)"
  by (auto simp: wrote_def)

lemma send_all_wrote:
  assumes "send_all (Some bs) n w = Some (ok, w')"
  obtains out where "wrote w out w'" and "prefix out (take n bs)" and "ok \<Longrightarrow> out = take n bs"
  using send_all_facts [OF assms] by (metis wrote_scripts(4))

lemma sendfile_loop_facts:
  "sendfile_loop fsize len off es = Some (res, off', es') \<Longrightarrow> off \<le> len \<Longrightarrow> off \<le> fsize \<Longrightarrow>
     off \<le> off' \<and> off' \<le> len \<and> off' \<le> fsize \<and> (res = SF_DONE \<longrightarrow> off' = len) \<and> (res = SF_FALLBACK \<longrightarrow> off' = 0)"
proof (induction es arbitrary: off)
  case Nil
  then show ?case by (auto split: if_splits)
next
  case (Cons e es)
  show ?case
  proof (cases "len \<le> off")
    case True
    with Cons.prems show ?thesis by simp
  next
    case False
    show ?thesis
    proof (cases e)
      case (SENDFILE k)
      let ?n = "min k (min (len - off) (fsize - off))"
      show ?thesis
      proof (cases "?n = 0")
        case True
        with Cons.prems False SENDFILE show ?thesis by (simp add: Let_def)
      next
        case n: False
        with Cons.prems False SENDFILE have "sendfile_loop fsize len (off + ?n) es = Some (res, off', es')"
          by (simp add: Let_def)
        moreover have "off + ?n \<le> len" "off + ?n \<le> fsize" using Cons.prems False by auto
        ultimately show ?thesis using Cons.IH by (meson le_add1 order_trans)
      qed
    qed (use Cons False in \<open>auto split: if_splits\<close>)
  qed
qed

lemma read_send_loop_facts:
  "read_send_loop rest n es w = Some (ok, w') \<Longrightarrow>
     \<exists>out. wrote w out w' \<and> prefix out (take n rest) \<and> (ok \<longrightarrow> out = take n rest \<and> n \<le> length rest)"
proof (induction es arbitrary: rest n w)
  case Nil
  then show ?case by (auto split: if_splits)
next
  case (Cons e es)
  show ?case
  proof (cases "n = 0")
    case True
    with Cons.prems show ?thesis by auto
  next
    case False
    show ?thesis
    proof (cases e)
      case (READ k)
      let ?nr = "min k (min (min n HTTP_STATIC_SEND_CHUNK) (length rest))"
      show ?thesis
      proof (cases "?nr = 0")
        case True
        with Cons.prems False READ have "w' = w\<lparr>reads := es\<rparr>" "\<not> ok" by (simp_all add: Let_def)
        then show ?thesis by (intro exI [of _ "[]"]) simp
      next
        case nr: False
        with Cons.prems False READ obtain g w1 where
          s: "send_all (Some (take ?nr rest)) ?nr w = Some (g, w1)"
          by (cases "send_all (Some (take ?nr rest)) ?nr w") (auto simp: Let_def)
        from send_all_wrote [OF s] obtain out1 where w1: "wrote w out1 w1"
          and p1: "prefix out1 (take ?nr rest)" and g1: "g \<Longrightarrow> out1 = take ?nr rest"
          by (metis take_take min.idem)
        have split: "take n rest = take ?nr rest @ take (n - ?nr) (drop ?nr rest)"
          by (metis le_add_diff_inverse min.cobounded1 min.cobounded2 order_trans take_add)
        show ?thesis
        proof (cases g)
          case gF: False
          with Cons.prems False READ nr s have "w' = w1\<lparr>reads := es\<rparr>" "\<not> ok" by (simp_all add: Let_def)
          moreover have "prefix out1 (take n rest)" using p1 split by (metis prefix_prefix)
          ultimately show ?thesis using w1 by auto
        next
          case gT: True
          with Cons.prems False READ nr s
          have run: "read_send_loop (drop ?nr rest) (n - ?nr) es w1 = Some (ok, w')" by (simp add: Let_def)
          obtain out2 where w': "wrote w1 out2 w'"
            and p2: "prefix out2 (take (n - ?nr) (drop ?nr rest))"
            and o2: "ok \<longrightarrow> out2 = take (n - ?nr) (drop ?nr rest) \<and> n - ?nr \<le> length (drop ?nr rest)"
            using Cons.IH [OF run] by blast
          have "wrote w (take ?nr rest @ out2) w'" using wrote_trans [OF w1 w'] g1 gT by simp
          moreover have "prefix (take ?nr rest @ out2) (take n rest)" using p2 split by simp
          moreover have "ok \<longrightarrow> n \<le> length rest" using o2 by auto
          ultimately show ?thesis using o2 split by metis
        qed
      qed
    next
      case READ_FAIL
      with Cons.prems False have "w' = w\<lparr>reads := es\<rparr>" "\<not> ok" by simp_all
      then show ?thesis by (intro exI [of _ "[]"]) simp
    qed (use Cons False in auto)
  qed
qed

lemma send_file_body_facts:
  assumes "send_file_body fd len w = Some (ok, w')"
  shows "\<exists>out. wrote w out w' \<and> prefix out (take len (file_data w fd))
    \<and> (ok \<longrightarrow> out = take len (file_data w fd) \<and> len \<le> length (file_data w fd))"
proof (cases "len = 0")
  case True
  with assms show ?thesis by (auto simp: send_file_body_def)
next
  case False
  let ?c = "file_data w fd"
  from assms False obtain res off es where loop: "sendfile_loop (length ?c) len 0 (sendfiles w) = Some (res, off, es)"
    by (cases "sendfile_loop (length ?c) len 0 (sendfiles w)") (auto simp: send_file_body_def Let_def)
  note lf = sendfile_loop_facts [OF loop]
  let ?w1 = "w\<lparr>sent := sent w @ take off ?c, sendfiles := es\<rparr>"
  have w1: "wrote w (take off ?c) ?w1" by (simp add: wrote_def)
  have p1: "prefix (take off ?c) (take len ?c)" using lf by (metis le0 min.absorb1 take_is_prefix take_take)
  note run = assms [unfolded send_file_body_def Let_def loop option.case prod.case if_not_P [OF False]]
  show ?thesis
  proof (cases res)
    case SF_DONE
    with run lf w1 show ?thesis by auto
  next
    case SF_FAIL
    with run p1 w1 show ?thesis by auto
  next
    case SF_FALLBACK
    then have off: "off = 0" using lf by simp
    from run SF_FALLBACK obtain b ss where ss: "seeks w = b # ss" by (auto split: list.splits)
    show ?thesis
    proof (cases b)
      case False
      with run SF_FALLBACK ss off show ?thesis by (intro exI [of _ "[]"]) (auto simp: wrote_def)
    next
      case True
      with run SF_FALLBACK ss off
      have "read_send_loop ?c len (reads w) (?w1\<lparr>seeks := ss\<rparr>) = Some (ok, w')" by simp
      from read_send_loop_facts [OF this] off show ?thesis by (auto simp: wrote_def)
    qed
  qed
qed

text \<open>The body a response stands for, and when its announced length is right.\<close>

definition response_body :: "http_response_t \<Rightarrow> (int \<Rightarrow> bytes) \<Rightarrow> bytes" where
  "response_body r files = (case rs_body_kind r of
       HTTP_BODY_NONE \<Rightarrow> []
     | HTTP_BODY_MEMORY \<Rightarrow> take (rs_body_length r) (case rs_body r of None \<Rightarrow> [] | Some b \<Rightarrow> b)
     | HTTP_BODY_FILE \<Rightarrow> take (rs_body_length r) (files (rs_file_fd r)))"

definition response_ok :: "http_response_t \<Rightarrow> bool" where
  "response_ok r = (case rs_body_kind r of
       HTTP_BODY_NONE \<Rightarrow> rs_body_length r = 0
     | HTTP_BODY_MEMORY \<Rightarrow> (case rs_body r of None \<Rightarrow> False | Some b \<Rightarrow> rs_body_length r \<le> length b \<and> rs_body_owned r)
     | HTTP_BODY_FILE \<Rightarrow> 0 \<le> rs_file_fd r)"

lemma response_ok_init [simp]: "response_ok http_response_init"
  by (simp add: response_ok_def http_response_init_def)

lemma response_ok_headers [simp]: "response_ok (r\<lparr>rs_headers := hs\<rparr>) = response_ok r"
  by (cases "rs_body_kind r"; cases "rs_body r") (simp_all add: response_ok_def)

lemma response_ok_status [simp]: "response_ok (http_response_set_status r c) = response_ok r"
  by (cases "rs_body_kind r"; cases "rs_body r") (simp_all add: response_ok_def http_response_set_status_def)

lemma response_ok_add_header: "http_response_add_header r n v h = (ok, r', h') \<Longrightarrow> response_ok r' = response_ok r"
  by (drule add_header_facts(1)) simp

lemma response_ok_set_header: "http_response_set_header r n v h = (ok, r', h') \<Longrightarrow> response_ok r' = response_ok r"
  by (drule set_header_facts(2)) (metis response_ok_headers)

lemma response_ok_remove_header: "http_response_remove_header r n h = (k, r', h') \<Longrightarrow> response_ok r' = response_ok r"
  by (drule remove_header_facts(5)) (metis response_ok_headers)

lemma response_ok_set_body_owned:
  "http_response_set_body_owned r b n w = (ok, r', w') \<Longrightarrow> (case b of None \<Rightarrow> n = 0 | Some s \<Rightarrow> n \<le> length s) \<Longrightarrow>
     response_ok r' \<and> rs_headers r' = rs_headers r"
  by (auto simp: http_response_set_body_owned_def clear_body_def response_ok_def split: if_splits option.splits)

lemma response_ok_set_body_text:
  assumes "http_response_set_body_text r t w = (ok, r', w')" and "response_ok r"
  shows "response_ok r'"
  using assms
  by (auto simp: http_response_set_body_text_def dest!: response_ok_set_body_owned
      split: option.splits prod.splits if_splits)

lemma response_ok_set_body_copy:
  assumes "http_response_set_body_copy r b n w = (ok, r', w')" and "response_ok r"
    and "\<forall>s. b = Some s \<longrightarrow> n \<le> length s"
  shows "response_ok r'"
  using assms
  by (auto simp: http_response_set_body_copy_def dest!: response_ok_set_body_owned
      split: option.splits prod.splits if_splits)

lemma response_ok_set_file_body:
  "http_response_set_file_body r fd n w = (ok, r', w') \<Longrightarrow> response_ok r \<Longrightarrow> response_ok r'"
  by (auto simp: http_response_set_file_body_def clear_body_def response_ok_def split: if_splits)

lemma response_ok_build:
  assumes "build_with_type ct r c t w = (ok, r', w')"
  shows "response_ok r'"
proof -
  obtain r0 w1 where d: "http_response_destroy r w = (r0, w1)" by fastforce
  let ?r1 = "http_response_set_status http_response_init c"
  obtain g r2 w2 where t: "(case t of None \<Rightarrow> (True, ?r1, w1)
      | Some t \<Rightarrow> http_response_set_body_text ?r1 (Some t) w1) = (g, r2, w2)"
    by (cases "case t of None \<Rightarrow> (True, ?r1, w1)
      | Some t \<Rightarrow> http_response_set_body_text ?r1 (Some t) w1")
  have r2: "response_ok r2"
    using t response_ok_set_body_text [of ?r1] by (auto split: option.splits)
  obtain a r3 h3 where h: "http_response_add_header r2 ''Content-Type'' ct (mem w2) = (a, r3, h3)"
    by (cases "http_response_add_header r2 ''Content-Type'' ct (mem w2)")
  from assms r2 response_ok_add_header [OF h] show ?thesis
    by (auto simp: build_with_type_def d t h Let_def split: if_splits)
qed

lemma response_steps_ok: "response_steps r w fds r' w' \<Longrightarrow> response_ok r \<Longrightarrow> response_ok r'"
proof (induction rule: response_steps.induct)
  case (set_body_owned fds r1 w1 h len b ok r2 w2)
  with response_ok_set_body_owned [OF set_body_owned.hyps(4)] show ?case by simp
next
  case (build_text fds r1 w1 c t ok r2 w2)
  then show ?case by (auto simp: http_response_build_text_def intro: response_ok_build)
next
  case (build_json fds r1 w1 c t ok r2 w2)
  then show ?case by (auto simp: http_response_build_json_def intro: response_ok_build)
next
  case (destroy fds r1 w1 r2 w2)
  then show ?case using destroy_facts(1) [OF destroy.hyps(2)] by simp
qed (auto dest: response_ok_add_header response_ok_remove_header response_ok_set_header
    response_ok_set_body_text response_ok_set_body_copy response_ok_set_file_body)

lemma response_send_facts:
  assumes "http_response_send r omit w = Some (ok, w')" and "response_ok r"
  shows "\<exists>out. sent w' = sent w @ out
      \<and> prefix out (response_head r @ (if omit then [] else response_body r (file_data w)))
      \<and> (ok \<longrightarrow> out = response_head r @ (if omit then [] else response_body r (file_data w))
          \<and> (omit \<or> length (response_body r (file_data w)) = rs_body_length r))"
    and "live (mem w') = live (mem w)" and "closed w' = closed w" and "file_data w' = file_data w"
    and "world.more w' = world.more w"
proof -
  let ?head = "response_head r" and ?body = "response_body r (file_data w)"
  obtain hd h where s: "http_response_serialize_headers r (mem w) = (hd, h)" by fastforce
  note sf = serialize_headers_facts [OF s]
  have "(\<exists>out. sent w' = sent w @ out \<and> prefix out (?head @ (if omit then [] else ?body))
      \<and> (ok \<longrightarrow> out = ?head @ (if omit then [] else ?body) \<and> (omit \<or> length ?body = rs_body_length r)))
    \<and> live (mem w') = live (mem w) \<and> closed w' = closed w \<and> file_data w' = file_data w
    \<and> world.more w' = world.more w"
  proof (cases hd)
    case None
    with assms(1) s sf show ?thesis by (auto simp: http_response_send_def)
  next
    case (Some x)
    then have x: "x = ?head" using sf(1) by simp
    let ?w0 = "w\<lparr>mem := h\<rparr>"
    from assms(1) s Some x obtain g w1 where a: "send_all (Some ?head) (length ?head) ?w0 = Some (g, w1)"
      by (cases "send_all (Some ?head) (length ?head) ?w0") (auto simp: http_response_send_def)
    from send_all_wrote [OF a] obtain out1 where o1: "wrote ?w0 out1 w1" "prefix out1 ?head" "g \<Longrightarrow> out1 = ?head"
      by (metis take_all order_refl)
    let ?w2 = "w1\<lparr>mem := c_free (Some ?head) (mem w1)\<rparr>"
    have w2: "sent ?w2 = sent w @ out1" "live (mem ?w2) = live (mem w)" "closed ?w2 = closed w"
        "file_data ?w2 = file_data w" "world.more ?w2 = world.more w"
      using o1(1) sf(2) Some by (simp_all add: wrote_def)
    show ?thesis
    proof (cases "\<not> g \<or> omit")
      case True
      then have "(ok, w') = (g, ?w2)"
        using assms(1) s Some x a by (cases g) (simp_all add: http_response_send_def Let_def)
      with True o1 w2 show ?thesis by auto
    next
      case False
      then have go: "g" "\<not> omit" and out1: "out1 = ?head" using o1(3) by auto
      note run = assms(1) [unfolded http_response_send_def s Some x prod.case option.case a Let_def]
      have fin: ?thesis if "wrote ?w2 out2 w'" "prefix out2 ?body"
          "ok \<Longrightarrow> out2 = ?body \<and> length ?body = rs_body_length r" for out2
        using that w2 out1 go by (intro conjI exI [of _ "?head @ out2"]) (auto simp: wrote_def)
      show ?thesis
      proof (cases "rs_body_kind r")
        case HTTP_BODY_NONE
        with run go assms(2) have "w' = ?w2" "ok" "?body = []" "rs_body_length r = 0"
          by (auto simp: response_body_def response_ok_def)
        with fin [of "[]"] show ?thesis by simp
      next
        case HTTP_BODY_MEMORY
        then obtain b where b: "rs_body r = Some b" "rs_body_length r \<le> length b"
          using assms(2) by (auto simp: response_ok_def split: option.splits)
        then have body: "?body = take (rs_body_length r) b" "length ?body = rs_body_length r"
          using HTTP_BODY_MEMORY by (simp_all add: response_body_def)
        show ?thesis
        proof (cases "rs_body_length r = 0")
          case True
          with run go HTTP_BODY_MEMORY have "w' = ?w2" by simp
          with fin [of "[]"] body True show ?thesis by simp
        next
          case n: False
          with run go HTTP_BODY_MEMORY b(1) have sd: "send_all (Some b) (rs_body_length r) ?w2 = Some (ok, w')"
            by simp
          from send_all_wrote [OF this] body fin show ?thesis by metis
        qed
      next
        case HTTP_BODY_FILE
        then have fd: "\<not> rs_file_fd r < 0" using assms(2) by (simp add: response_ok_def)
        with run go HTTP_BODY_FILE have sd: "send_file_body (rs_file_fd r) (rs_body_length r) ?w2 = Some (ok, w')"
          by simp
        from send_file_body_facts [OF this] w2(4) HTTP_BODY_FILE fin show ?thesis
          by (auto simp: response_body_def)
      qed
    qed
  qed
  then show "\<exists>out. sent w' = sent w @ out
      \<and> prefix out (response_head r @ (if omit then [] else response_body r (file_data w)))
      \<and> (ok \<longrightarrow> out = response_head r @ (if omit then [] else response_body r (file_data w))
          \<and> (omit \<or> length (response_body r (file_data w)) = rs_body_length r))"
    and "live (mem w') = live (mem w)" and "closed w' = closed w" and "file_data w' = file_data w"
    and "world.more w' = world.more w" by blast+
qed

section \<open>Properties\<close>

definition sample_world :: world where
  "sample_world = \<lparr>mem = \<lparr>outcomes = [], live = 0\<rparr>, closed = [], sent = [],
     sends = [SENT 20, SEND_EINTR, SENT 1000, SENT 1000],
     sendfiles = [SENDFILE 2, SENDFILE_EINTR, SENDFILE 100], reads = [], seeks = [],
     file_data = (\<lambda>fd. if fd = 7 then ''hello'' else [])\<rparr>"

definition sample_response :: http_response_t where
  "sample_response = \<lparr>rs_status_code = 200, rs_reason_phrase = Some ''OK'',
     rs_headers = Some [\<lparr>hd_name = ''X-A'', hd_value = ''1''\<rparr>, \<lparr>hd_name = ''Content-Type'', hd_value = ''text/plain''\<rparr>,
       \<lparr>hd_name = ''x-a'', hd_value = ''2''\<rparr>],
     rs_body_kind = HTTP_BODY_FILE, rs_body = None, rs_body_length = 5, rs_body_owned = False,
     rs_file_fd = 7, rs_suppress_auto_connection_close = False\<rparr>"

text \<open>
  C34. Setting a header replaces: all headers of that name, in whatever case, are gone, the new
  one is there exactly once, and all others are kept with their multiplicity (the removal may
  reorder them); when memory runs out the old ones are removed and nothing is added.
\<close>

theorem http_response_set_header_replaces:
  assumes "http_response_set_header r name value h = (ok, r', h')"
  shows "mset (header_list (rs_headers r')) =
      filter_mset (\<lambda>x. \<not> header_name_equal_response (hd_name x) name) (mset (header_list (rs_headers r)))
      + (if ok then {#\<lparr>hd_name = name, hd_value = value\<rparr>#} else {#})
    \<and> (ok \<longrightarrow> filter (\<lambda>x. header_name_equal_response (hd_name x) name) (header_list (rs_headers r'))
          = [\<lparr>hd_name = name, hd_value = value\<rparr>])"
proof -
  let ?x = "\<lparr>hd_name = name, hd_value = value\<rparr>"
  note f = set_header_facts(1) [OF assms]
  have "filter (named name) (header_list (rs_headers r')) = [?x]" if ok
  proof -
    have "mset (filter (named name) (header_list (rs_headers r'))) = {#?x#}"
      using f that by (simp add: rs_ci.refl filter_mset_eq_conv flip: filter_filter_mset)
    then show ?thesis by (simp only: mset_single_iff)
  qed
  with f show ?thesis by simp
qed

theorem http_response_set_header_replaces_witness:
  "\<exists>ok r' h'. http_response_set_header sample_response ''X-a'' ''3'' \<lparr>outcomes = [], live = 7\<rparr> = (ok, r', h') \<and> ok
     \<and> filter (\<lambda>x. header_name_equal_response (hd_name x) ''X-a'') (header_list (rs_headers r'))
         = [\<lparr>hd_name = ''X-a'', hd_value = ''3''\<rparr>]"
proof -
  let ?run = "http_response_set_header sample_response ''X-a'' ''3'' \<lparr>outcomes = [], live = 7\<rparr>"
  have "fst ?run" by code_simp
  then obtain r' h' where "?run = (True, r', h')" by (cases ?run) auto
  with http_response_set_header_replaces [OF this] show ?thesis by blast
qed

text \<open>
  C20. The life of a response is balanced: after any sequence of operations on a fresh response,
  some of which may have failed for lack of memory, \<open>http_response_destroy\<close> leaves no block behind
  and has closed every descriptor that was handed over exactly once, in that order.
\<close>

theorem http_response_lifecycle:
  assumes "response_steps http_response_init w fds r w'" and "http_response_destroy r w' = (r'', w'')"
  shows "r'' = http_response_init \<and> live (mem w'') = live (mem w) \<and> closed w'' = closed w @ fds"
  using response_steps_balanced [OF assms(1)] destroy_facts [OF assms(2)] by (simp add: balanced_def)

theorem http_response_lifecycle_witness:
  "\<exists>r w' r'' w''. response_steps http_response_init sample_world [7, 8] r w'
     \<and> http_response_destroy r w' = (r'', w'') \<and> live (mem w'') = 0 \<and> closed w'' = [7, 8]"
proof -
  obtain ok1 r1 w1 where s1: "http_response_build_text http_response_init 200 (Some ''x'') sample_world = (ok1, r1, w1)"
    by (cases "http_response_build_text http_response_init 200 (Some ''x'') sample_world")
  obtain r2 w2 where s2: "http_response_set_file_body r1 7 5 w1 = (True, r2, w2)"
    by (cases "clear_body r1 w1") (auto simp: http_response_set_file_body_def SIZE_MAX_def)
  obtain r3 w3 where s3: "http_response_set_file_body r2 8 5 w2 = (True, r3, w3)"
    by (cases "clear_body r2 w2") (auto simp: http_response_set_file_body_def SIZE_MAX_def)
  have "response_steps http_response_init sample_world [7, 8] r3 w3"
    using response_steps.set_file_body [OF response_steps.set_file_body [OF response_steps.build_text
        [OF response_steps.start s1] s2] s3] by simp
  moreover obtain r4 w4 where d: "http_response_destroy r3 w3 = (r4, w4)" by fastforce
  moreover note http_response_lifecycle [OF calculation]
  ultimately show ?thesis by (auto simp: sample_world_def)
qed

text \<open>
  C15. No response splitting: if no header of the response contains a line feed, the header section
  that is sent has its only blank line at its end, whatever body follows.
\<close>

theorem http_response_no_splitting:
  assumes "http_response_serialize_headers r h = (Some out, h')"
    and "rs_reason_phrase r = Some (http_reason_phrase c)"
    and "\<forall>x\<in>set (header_list (rs_headers r)). LF \<notin> set (hd_name x) \<and> LF \<notin> set (hd_value x)"
  shows "http_find_header_terminator (out @ body) = Some (length out - 4)"
proof -
  have "out = response_head r" using serialize_headers_facts(1) [OF assms(1)] by simp
  with response_head_terminator [OF _ assms(3)] assms(2) LF_notin_reason show ?thesis by simp
qed

theorem http_response_no_splitting_witness:
  "\<exists>out h'. http_response_serialize_headers sample_response (mem sample_world) = (Some out, h')
     \<and> http_find_header_terminator (out @ ''hello'') = Some (length out - 4)"
proof -
  have "fst (http_response_serialize_headers sample_response (mem sample_world)) \<noteq> None" by code_simp
  then obtain out h' where run: "http_response_serialize_headers sample_response (mem sample_world) = (Some out, h')"
    by (cases "http_response_serialize_headers sample_response (mem sample_world)") auto
  have "rs_reason_phrase sample_response = Some (http_reason_phrase 200)" by code_simp
  moreover have "\<forall>x\<in>set (header_list (rs_headers sample_response)). LF \<notin> set (hd_name x) \<and> LF \<notin> set (hd_value x)"
    by code_simp
  ultimately show ?thesis using run http_response_no_splitting [OF run] by blast
qed



text \<open>
  C7. What goes out is what was announced: whatever the socket and the file do, the bytes sent are
  a prefix of head and body, so never more than announced; if \<open>http_response_send\<close> reports success
  they are the whole head and, unless the body is omitted, exactly \<open>body_length\<close> bytes of body. The
  buffer for the head is released, and no descriptor is closed by sending.
\<close>

theorem http_response_send_exact:
  assumes "http_response_send r omit w = Some (ok, w')" and "response_ok r"
  shows "(\<exists>out. sent w' = sent w @ out
      \<and> prefix out (response_head r @ (if omit then [] else response_body r (file_data w)))
      \<and> (ok \<longrightarrow> out = response_head r @ (if omit then [] else response_body r (file_data w))
          \<and> (omit \<or> length (response_body r (file_data w)) = rs_body_length r)))
    \<and> live (mem w') = live (mem w) \<and> closed w' = closed w"
  using response_send_facts [OF assms] by blast

theorem http_response_send_exact_witness:
  "\<exists>w'. http_response_send sample_response False sample_world = Some (True, w')
     \<and> sent w' = response_head sample_response @ ''hello''"
proof -
  have "map_option fst (http_response_send sample_response False sample_world) = Some True" by code_simp
  then obtain w' where run: "http_response_send sample_response False sample_world = Some (True, w')" by auto
  have ok: "response_ok sample_response" by code_simp
  have "response_body sample_response (file_data sample_world) = ''hello''" by code_simp
  moreover have "sent sample_world = []" by code_simp
  ultimately show ?thesis using run http_response_send_exact [OF run ok] by simp
qed

text \<open>
  Serialising and sending agree: for a response without a file body the buffer of
  \<open>http_response_serialize\<close> is exactly what a successful \<open>http_response_send\<close> puts on the wire,
  and it is the only block that serialising leaves.
\<close>

theorem http_response_serialize_agrees_with_send:
  assumes "http_response_serialize r omit h = (Some buf, h')"
    and "http_response_send r omit w = Some (True, w')"
    and "response_ok r" and "rs_body_kind r \<noteq> HTTP_BODY_FILE"
  shows "sent w' = sent w @ buf \<and> live h' = live h + 1"
proof -
  obtain hd h1 where s: "http_response_serialize_headers r h = (hd, h1)" by fastforce
  with assms(1) have hd: "hd = Some (response_head r)"
    using serialize_headers_facts(1) [OF s] by (auto simp: http_response_serialize_def)
  have l1: "live h1 = live h + 1" using serialize_headers_facts(2) [OF s] hd by simp
  obtain g h2 where m: "malloc h1 = (g, h2)" by fastforce
  have "buf = response_head r @ (if omit then [] else response_body r (file_data w)) \<and> live h' = live h + 1"
    using assms(1,3,4) s hd m l1 malloc_live [OF m]
    by (cases "rs_body_kind r")
      (auto simp: http_response_serialize_def Let_def response_ok_def response_body_def
        split: if_splits option.splits)
  with response_send_facts(1) [OF assms(2,3)] show ?thesis by auto
qed

theorem http_response_serialize_agrees_with_send_witness:
  "\<exists>buf h' w'. http_response_serialize (http_response_set_status http_response_init 404) False (mem sample_world) = (Some buf, h')
     \<and> http_response_send (http_response_set_status http_response_init 404) False sample_world = Some (True, w')
     \<and> sent w' = buf"
proof -
  let ?r = "http_response_set_status http_response_init 404"
  let ?ser = "http_response_serialize ?r False (mem sample_world)"
  have "fst ?ser \<noteq> None" by code_simp
  then obtain buf h' where ser: "?ser = (Some buf, h')" by (cases ?ser) auto
  have "map_option fst (http_response_send ?r False sample_world) = Some True" by code_simp
  then obtain w' where snd: "http_response_send ?r False sample_world = Some (True, w')" by auto
  have "response_ok ?r" "rs_body_kind ?r \<noteq> HTTP_BODY_FILE" "sent sample_world = []" by code_simp+
  with http_response_serialize_agrees_with_send [OF ser snd] ser snd show ?thesis by auto
qed

end
