(* ===== verification/Connection_Queue.thy ===== *)
theory Connection_Queue
  imports Http_Reader Http_Response_Properties
begin

text \<open>
  The queue between the accepting thread and the workers, \<^verbatim>\<open>src/connection_queue.c\<close>: a ring buffer
  of descriptors under a mutex, with two condition variables.

  A thread that holds the mutex runs one \<^emph>\<open>section\<close> of an operation: up to its return, or up to a
  wait, which releases the mutex. The sections are the atomic steps of the model. A whole operation
  runs its sections over a list of waits; each says what the clock and the wait returned and what
  other threads did to the queue meanwhile. An operation whose list is exhausted is still waiting.
\<close>

section \<open>State\<close>

record connection_queue_t =
  q_items :: "int list option"
  q_capacity :: nat
  q_head :: nat
  q_tail :: nat
  q_count :: nat
  shutting_down :: bool
  mutex_initialized :: bool
  not_empty_initialized :: bool
  not_full_initialized :: bool

datatype connection_queue_status_t =
  CONNECTION_QUEUE_OK | CONNECTION_QUEUE_SHUTDOWN | CONNECTION_QUEUE_ERROR

definition queue_zero :: connection_queue_t where
  "queue_zero = \<lparr>q_items = None, q_capacity = 0, q_head = 0, q_tail = 0, q_count = 0, shutting_down = False,
     mutex_initialized = False, not_empty_initialized = False, not_full_initialized = False\<rparr>"

section \<open>Lifetime\<close>

definition timespec_add_ms :: "timespec \<Rightarrow> int \<Rightarrow> timespec" where
  "timespec_add_ms ts ms =
     (let ts1 = ts\<lparr>tv_sec := tv_sec ts + ms div 1000, tv_nsec := tv_nsec ts + (ms mod 1000) * 1000000\<rparr> in
      if 1000000000 \<le> tv_nsec ts1
      then ts1\<lparr>tv_sec := tv_sec ts1 + 1, tv_nsec := tv_nsec ts1 - 1000000000\<rparr> else ts1)"

text \<open>The loop of \<open>connection_queue_destroy\<close> over the indices that are left.\<close>

fun close_leftover :: "nat list \<Rightarrow> connection_queue_t \<Rightarrow> 'a world_scheme \<Rightarrow> connection_queue_t \<times> 'a world_scheme" where
  "close_leftover [] q w = (q, w)"
| "close_leftover (i # is) q w =
     (case q_items q of None \<Rightarrow> (q, w)
      | Some items \<Rightarrow>
        let idx = (q_head q + i) mod q_capacity q; fd = items ! idx in
        if 0 \<le> fd then close_leftover is (q\<lparr>q_items := Some (items[idx := -1])\<rparr>) (os_close fd w)
        else close_leftover is q w)"

definition connection_queue_destroy ::
  "connection_queue_t \<Rightarrow> 'a world_scheme \<Rightarrow> connection_queue_t \<times> 'a world_scheme" where
  "connection_queue_destroy q w =
     (case (if q_items q \<noteq> None \<and> 0 < q_count q
            then (case close_leftover [0..<q_count q] q w of (q1, w1) \<Rightarrow> (q1\<lparr>q_count := 0\<rparr>, w1))
            else (q, w)) of
       (q2, w2) \<Rightarrow> (queue_zero, w2\<lparr>mem := c_free (q_items q2) (mem w2)\<rparr>))"

text \<open>The three flags are the results of initialising the mutex and the condition variables.\<close>

definition connection_queue_init ::
  "connection_queue_t \<Rightarrow> nat \<Rightarrow> bool \<Rightarrow> bool \<Rightarrow> bool \<Rightarrow> 'a world_scheme \<Rightarrow> bool \<times> connection_queue_t \<times> 'a world_scheme" where
  "connection_queue_init q capacity mutex_ok not_empty_ok not_full_ok w =
     (if capacity = 0 then (False, q, w)
      else (case malloc (mem w) of (ok, h) \<Rightarrow>
        if \<not> ok then (False, queue_zero, w\<lparr>mem := h\<rparr>)
        else let q1 = queue_zero\<lparr>q_items := Some (replicate capacity 0), q_capacity := capacity\<rparr>; w1 = w\<lparr>mem := h\<rparr> in
          if \<not> mutex_ok
          then (False, q1\<lparr>q_items := None\<rparr>, w1\<lparr>mem := c_free (q_items q1) (mem w1)\<rparr>)
          else let q2 = q1\<lparr>mutex_initialized := True\<rparr> in
            if \<not> not_empty_ok then (False, connection_queue_destroy q2 w1)
            else let q3 = q2\<lparr>not_empty_initialized := True\<rparr> in
              if \<not> not_full_ok then (False, connection_queue_destroy q3 w1)
              else (True, q3\<lparr>not_full_initialized := True\<rparr>, w1)))"

section \<open>Adding a descriptor\<close>

text \<open>\<open>WAIT_FAILED\<close> is a result other than success and \<open>ETIMEDOUT\<close>.\<close>

datatype wait_result = WOKEN | TIMED_OUT | WAIT_FAILED

record wait_t =
  wt_aborted :: bool
  wt_clock :: bool
  wt_result :: wait_result
  wt_others :: "connection_queue_t \<Rightarrow> connection_queue_t"

definition queue_full :: "connection_queue_t \<Rightarrow> bool" where
  "queue_full q = (q_capacity q \<le> q_count q)"

definition enqueue :: "int \<Rightarrow> connection_queue_t \<Rightarrow> connection_queue_t" where
  "enqueue fd q = q\<lparr>q_items := map_option (\<lambda>items. items[q_tail q := fd]) (q_items q),
     q_tail := (q_tail q + 1) mod q_capacity q, q_count := q_count q + 1\<rparr>"

text \<open>A section of \<open>connection_queue_push\<close>: the status it returns, or \<open>None\<close> if it waits.\<close>

definition push_section ::
  "int \<Rightarrow> bool \<Rightarrow> bool \<Rightarrow> connection_queue_t \<Rightarrow> connection_queue_status_t option \<times> connection_queue_t" where
  "push_section fd aborted clock_ok q =
     (if queue_full q \<and> \<not> shutting_down q then
        if aborted then (Some CONNECTION_QUEUE_SHUTDOWN, q)
        else if \<not> clock_ok then (Some CONNECTION_QUEUE_ERROR, q)
        else (None, q)
      else if shutting_down q then (Some CONNECTION_QUEUE_SHUTDOWN, q)
      else (Some CONNECTION_QUEUE_OK, enqueue fd q))"

fun push_loop :: "int \<Rightarrow> wait_t list \<Rightarrow> connection_queue_t \<Rightarrow> (connection_queue_status_t \<times> connection_queue_t) option" where
  "push_loop fd [] q =
     (if queue_full q \<and> \<not> shutting_down q then None
      else (case push_section fd False True q of (status, q') \<Rightarrow> map_option (\<lambda>s. (s, q')) status))"
| "push_loop fd (e # es) q =
     (case push_section fd (wt_aborted e) (wt_clock e) q of
        (Some status, q') \<Rightarrow> Some (status, q')
      | (None, q') \<Rightarrow>
        let q'' = wt_others e q' in
        if wt_result e = WAIT_FAILED then Some (CONNECTION_QUEUE_ERROR, q'') else push_loop fd es q'')"

definition connection_queue_push ::
  "int \<Rightarrow> bool \<Rightarrow> wait_t list \<Rightarrow> connection_queue_t \<Rightarrow> (connection_queue_status_t \<times> connection_queue_t) option" where
  "connection_queue_push fd lock_ok es q =
     (if fd < 0 then Some (CONNECTION_QUEUE_ERROR, q)
      else if \<not> lock_ok then Some (CONNECTION_QUEUE_ERROR, q)
      else push_loop fd es q)"

section \<open>Taking a descriptor\<close>

definition queue_front :: "connection_queue_t \<Rightarrow> int" where
  "queue_front q = (case q_items q of None \<Rightarrow> -1 | Some items \<Rightarrow> items ! q_head q)"

definition dequeue :: "connection_queue_t \<Rightarrow> connection_queue_t" where
  "dequeue q = q\<lparr>q_head := (q_head q + 1) mod q_capacity q, q_count := q_count q - 1\<rparr>"

definition pop_section ::
  "connection_queue_t \<Rightarrow> (connection_queue_status_t \<times> int option) option \<times> connection_queue_t" where
  "pop_section q =
     (if q_count q = 0 \<and> \<not> shutting_down q then (None, q)
      else if q_count q = 0 \<and> shutting_down q then (Some (CONNECTION_QUEUE_SHUTDOWN, None), q)
      else (Some (CONNECTION_QUEUE_OK, Some (queue_front q)), dequeue q))"

fun pop_loop ::
  "wait_t list \<Rightarrow> connection_queue_t \<Rightarrow> ((connection_queue_status_t \<times> int option) \<times> connection_queue_t) option" where
  "pop_loop [] q = (case pop_section q of (status, q') \<Rightarrow> map_option (\<lambda>s. (s, q')) status)"
| "pop_loop (e # es) q =
     (case pop_section q of
        (Some status, q') \<Rightarrow> Some (status, q')
      | (None, q') \<Rightarrow>
        let q'' = wt_others e q' in
        if wt_result e \<noteq> WOKEN then Some ((CONNECTION_QUEUE_ERROR, None), q'') else pop_loop es q'')"

definition connection_queue_pop ::
  "bool \<Rightarrow> wait_t list \<Rightarrow> connection_queue_t \<Rightarrow>
   ((connection_queue_status_t \<times> int option) \<times> connection_queue_t) option" where
  "connection_queue_pop lock_ok es q =
     (if \<not> lock_ok then Some ((CONNECTION_QUEUE_ERROR, None), q) else pop_loop es q)"

definition connection_queue_shutdown :: "connection_queue_t \<Rightarrow> connection_queue_t" where
  "connection_queue_shutdown q = (if \<not> mutex_initialized q then q else q\<lparr>shutting_down := True\<rparr>)"

section \<open>The list a queue denotes\<close>

definition contents :: "connection_queue_t \<Rightarrow> int list" where
  "contents q = (case q_items q of None \<Rightarrow> []
     | Some items \<Rightarrow> map (\<lambda>i. items ! ((q_head q + i) mod q_capacity q)) [0..<q_count q])"

definition queue_ok :: "connection_queue_t \<Rightarrow> bool" where
  "queue_ok q = (map_option length (q_items q) = Some (q_capacity q) \<and> 0 < q_capacity q
     \<and> q_head q < q_capacity q \<and> q_count q \<le> q_capacity q \<and> q_tail q = (q_head q + q_count q) mod q_capacity q
     \<and> mutex_initialized q \<and> not_empty_initialized q \<and> not_full_initialized q)"

lemma length_contents: "queue_ok q \<Longrightarrow> length (contents q) = q_count q"
  by (auto simp: queue_ok_def contents_def)

lemma ring_distinct:
  fixes c :: nat
  assumes "i < k" and "k < c"
  shows "(h + i) mod c \<noteq> (h + k) mod c"
proof
  assume "(h + i) mod c = (h + k) mod c"
  then have "c dvd (h + k) - (h + i)" using assms by (metis add_le_cancel_left less_imp_le mod_eq_dvd_iff_nat)
  then show False using assms by (auto dest: dvd_imp_le)
qed

lemma enqueue_contents:
  assumes "queue_ok q" and "\<not> queue_full q"
  shows "contents (enqueue fd q) = contents q @ [fd]" and "queue_ok (enqueue fd q)"
proof -
  obtain items where i: "q_items q = Some items" "length items = q_capacity q" using assms(1) by (auto simp: queue_ok_def)
  have lt: "q_count q < q_capacity q" using assms(2) by (simp add: queue_full_def)
  have t: "q_tail q = (q_head q + q_count q) mod q_capacity q" "0 < q_capacity q" using assms(1) by (simp_all add: queue_ok_def)
  have "items[q_tail q := fd] ! ((q_head q + k) mod q_capacity q) = items ! ((q_head q + k) mod q_capacity q)"
    if "k < q_count q" for k
    using ring_distinct [OF that lt] t(1) by (metis nth_list_update_neq)
  moreover have "q_tail q < length items" using t i(2) by simp
  ultimately show "contents (enqueue fd q) = contents q @ [fd]"
    using i(1) t(1) by (simp add: contents_def enqueue_def)
  show "queue_ok (enqueue fd q)"
    using assms(1) lt i by (simp add: queue_ok_def enqueue_def mod_Suc_eq)
qed

lemma dequeue_contents:
  assumes "queue_ok q" and "0 < q_count q"
  shows "contents q = queue_front q # contents (dequeue q)" and "queue_ok (dequeue q)"
proof -
  obtain items where i: "q_items q = Some items" "length items = q_capacity q" using assms(1) by (auto simp: queue_ok_def)
  obtain n where n: "q_count q = Suc n" using assms(2) by (cases "q_count q") auto
  have h: "q_head q mod q_capacity q = q_head q" using assms(1) by (simp add: queue_ok_def)
  have "((q_head q + 1) mod q_capacity q + k) mod q_capacity q = (q_head q + Suc k) mod q_capacity q" for k
    by (simp add: mod_simps)
  then show "contents q = queue_front q # contents (dequeue q)"
    unfolding contents_def i(1) n dequeue_def queue_front_def
    by (simp add: h upt_conv_Cons map_Suc_upt [symmetric] i(1) n del: upt_Suc)
  show "queue_ok (dequeue q)"
    using assms(1) n by (auto simp: queue_ok_def dequeue_def mod_simps)
qed

section \<open>A bounded queue of descriptors\<close>

text \<open>The abstract queue: a list and the flag that it is shut down.\<close>

definition spec_push ::
  "nat \<Rightarrow> int \<Rightarrow> bool \<Rightarrow> bool \<Rightarrow> int list \<times> bool \<Rightarrow> connection_queue_status_t option \<times> int list \<times> bool" where
  "spec_push cap fd aborted clock_ok s = (case s of (xs, down) \<Rightarrow>
     if down then (Some CONNECTION_QUEUE_SHUTDOWN, xs, down)
     else if length xs < cap then (Some CONNECTION_QUEUE_OK, xs @ [fd], down)
     else (if aborted then Some CONNECTION_QUEUE_SHUTDOWN
           else if clock_ok then None else Some CONNECTION_QUEUE_ERROR, xs, down))"

definition spec_pop :: "int list \<times> bool \<Rightarrow> (connection_queue_status_t \<times> int option) option \<times> int list \<times> bool" where
  "spec_pop s = (case s of
       ([], down) \<Rightarrow> (if down then Some (CONNECTION_QUEUE_SHUTDOWN, None) else None, [], down)
     | (x # xs, down) \<Rightarrow> (Some (CONNECTION_QUEUE_OK, Some x), xs, down))"

text \<open>Sections of any threads, in the order in which they hold the mutex.\<close>

datatype queue_action = PUSH int bool bool | POP | SHUTDOWN

fun queue_run ::
  "(int \<Rightarrow> bool \<Rightarrow> bool \<Rightarrow> 'q \<Rightarrow> connection_queue_status_t option \<times> 'q) \<Rightarrow>
   ('q \<Rightarrow> (connection_queue_status_t \<times> int option) option \<times> 'q) \<Rightarrow> ('q \<Rightarrow> 'q) \<Rightarrow>
   queue_action list \<Rightarrow> 'q \<Rightarrow> int list \<times> int list \<times> 'q" where
  "queue_run push pop shut [] q = ([], [], q)"
| "queue_run push pop shut (PUSH fd aborted clock_ok # as) q =
     (case push fd aborted clock_ok q of (r, q1) \<Rightarrow>
      (case queue_run push pop shut as q1 of (ins, outs, q2) \<Rightarrow>
        (if r = Some CONNECTION_QUEUE_OK then fd # ins else ins, outs, q2)))"
| "queue_run push pop shut (POP # as) q =
     (case pop q of (r, q1) \<Rightarrow>
      (case queue_run push pop shut as q1 of (ins, outs, q2) \<Rightarrow>
        (ins, (case r of Some (CONNECTION_QUEUE_OK, Some fd) \<Rightarrow> fd # outs | _ \<Rightarrow> outs), q2)))"
| "queue_run push pop shut (SHUTDOWN # as) q = queue_run push pop shut as (shut q)"

locale bounded_queue =
  fixes ok :: "'q \<Rightarrow> bool" and abs :: "'q \<Rightarrow> int list \<times> bool" and cap :: "'q \<Rightarrow> nat"
    and push :: "int \<Rightarrow> bool \<Rightarrow> bool \<Rightarrow> 'q \<Rightarrow> connection_queue_status_t option \<times> 'q"
    and pop :: "'q \<Rightarrow> (connection_queue_status_t \<times> int option) option \<times> 'q"
    and shut :: "'q \<Rightarrow> 'q"
  assumes push_refines: "ok q \<Longrightarrow> push fd a c q = (r, q') \<Longrightarrow>
      spec_push (cap q) fd a c (abs q) = (r, abs q') \<and> ok q' \<and> cap q' = cap q"
    and pop_refines: "ok q \<Longrightarrow> pop q = (r', q') \<Longrightarrow> spec_pop (abs q) = (r', abs q') \<and> ok q' \<and> cap q' = cap q"
    and shut_refines: "ok q \<Longrightarrow> abs (shut q) = (fst (abs q), True) \<and> ok (shut q) \<and> cap (shut q) = cap q"
    and within: "ok q \<Longrightarrow> length (fst (abs q)) \<le> cap q"
begin

lemma fifo:
  assumes "ok q" and "queue_run push pop shut as q = (ins, outs, q')"
  shows "fst (abs q) @ ins = outs @ fst (abs q') \<and> ok q' \<and> cap q' = cap q \<and> length (fst (abs q')) \<le> cap q"
  using assms
proof (induction as arbitrary: q ins outs q')
  case Nil
  then show ?case using within by auto
next
  case (Cons a as)
  show ?case
  proof (cases a)
    case (PUSH fd x c)
    obtain r q1 where p: "push fd x c q = (r, q1)" by fastforce
    obtain ins1 outs1 q2 where run: "queue_run push pop shut as q1 = (ins1, outs1, q2)" by (metis prod_cases3)
    from push_refines [OF Cons.prems(1) p] Cons.IH [OF _ run] Cons.prems(2) PUSH p run show ?thesis
      by (cases "abs q"; cases "abs q1") (auto simp: spec_push_def split: if_splits)
  next
    case POP
    obtain r q1 where p: "pop q = (r, q1)" by fastforce
    obtain ins1 outs1 q2 where run: "queue_run push pop shut as q1 = (ins1, outs1, q2)" by (metis prod_cases3)
    from pop_refines [OF Cons.prems(1) p] Cons.IH [OF _ run] Cons.prems(2) POP p run show ?thesis
      by (cases "abs q"; cases "abs q1") (auto simp: spec_pop_def split: if_splits list.splits)
  next
    case SHUTDOWN
    with Cons.IH [of "shut q"] shut_refines [OF Cons.prems(1)] Cons.prems(2) show ?thesis by auto
  qed
qed

text \<open>Once it is shut down, a queue takes nothing more and never makes a consumer wait.\<close>

lemma down_stays:
  assumes "ok q" and "snd (abs q)" and "queue_run push pop shut as q = (ins, outs, q')"
  shows "ins = [] \<and> snd (abs q')"
  using assms
proof (induction as arbitrary: q ins outs q')
  case (Cons a as)
  show ?case
  proof (cases a)
    case (PUSH fd x c)
    obtain r q1 where p: "push fd x c q = (r, q1)" by fastforce
    obtain ins1 outs1 q2 where run: "queue_run push pop shut as q1 = (ins1, outs1, q2)" by (metis prod_cases3)
    from push_refines [OF Cons.prems(1) p] Cons.IH [OF _ _ run] Cons.prems(2,3) PUSH p run show ?thesis
      by (cases "abs q"; cases "abs q1") (auto simp: spec_push_def split: if_splits)
  next
    case POP
    obtain r q1 where p: "pop q = (r, q1)" by fastforce
    obtain ins1 outs1 q2 where run: "queue_run push pop shut as q1 = (ins1, outs1, q2)" by (metis prod_cases3)
    from pop_refines [OF Cons.prems(1) p] Cons.IH [OF _ _ run] Cons.prems(2,3) POP p run show ?thesis
      by (cases "abs q"; cases "abs q1") (auto simp: spec_pop_def split: if_splits list.splits)
  next
    case SHUTDOWN
    with Cons.IH [of "shut q"] shut_refines [OF Cons.prems(1)] Cons.prems(3) show ?thesis by auto
  qed
qed simp

lemma down_pop_returns: "ok q \<Longrightarrow> snd (abs q) \<Longrightarrow> pop q = (r, q') \<Longrightarrow> r \<noteq> None"
  using pop_refines [of q r q'] by (cases "abs q") (auto simp: spec_pop_def split: list.splits)

lemma abort_push_returns: "ok q \<Longrightarrow> push fd True c q = (r, q') \<Longrightarrow> r \<noteq> None"
  using push_refines [of q fd True c r q'] by (cases "abs q") (auto simp: spec_push_def split: if_splits)

end

text \<open>The ring buffer is such a queue.\<close>

interpretation rb: bounded_queue queue_ok "\<lambda>q. (contents q, shutting_down q)" q_capacity
  push_section pop_section connection_queue_shutdown
proof
  fix q fd a c r q'
  assume ok: "queue_ok q" and p: "push_section fd a c q = (r, q')"
  have "(length (contents q) < q_capacity q) = (\<not> queue_full q)" using length_contents [OF ok] by (auto simp: queue_full_def)
  moreover have "shutting_down (enqueue fd q) = shutting_down q" "q_capacity (enqueue fd q) = q_capacity q"
    by (simp_all add: enqueue_def)
  ultimately show "spec_push (q_capacity q) fd a c (contents q, shutting_down q) = (r, contents q', shutting_down q')
      \<and> queue_ok q' \<and> q_capacity q' = q_capacity q"
    using p ok enqueue_contents [OF ok] by (auto simp: push_section_def spec_push_def split: if_splits)
next
  fix q r q'
  assume ok: "queue_ok q" and p: "pop_section q = (r, q')"
  have c: "(contents q = []) = (q_count q = 0)" using length_contents [OF ok] by (metis length_0_conv)
  show "spec_pop (contents q, shutting_down q) = (r, contents q', shutting_down q') \<and> queue_ok q' \<and> q_capacity q' = q_capacity q"
  proof (cases "q_count q = 0")
    case True
    with p ok c show ?thesis by (auto simp: pop_section_def spec_pop_def split: if_splits)
  next
    case False
    then have "r = Some (CONNECTION_QUEUE_OK, Some (queue_front q))" "q' = dequeue q" using p by (auto simp: pop_section_def)
    with dequeue_contents [OF ok] False show ?thesis by (simp add: spec_pop_def dequeue_def)
  qed
next
  fix q
  assume "queue_ok q"
  then show "(contents (connection_queue_shutdown q), shutting_down (connection_queue_shutdown q)) = (fst (contents q, shutting_down q), True)
      \<and> queue_ok (connection_queue_shutdown q) \<and> q_capacity (connection_queue_shutdown q) = q_capacity q"
    by (cases "q_items q") (simp_all add: connection_queue_shutdown_def queue_ok_def contents_def)
next
  fix q
  assume "queue_ok q"
  with length_contents [OF this] show "length (fst (contents q, shutting_down q)) \<le> q_capacity q" by (simp add: queue_ok_def)
qed

section \<open>Whole operations\<close>

lemma push_section_facts:
  assumes "queue_ok q" and "push_section fd a c q = (r, q')"
  shows "queue_ok q'" and "q_capacity q' = q_capacity q" and "r \<noteq> Some CONNECTION_QUEUE_OK \<Longrightarrow> q' = q"
    and "r = Some CONNECTION_QUEUE_OK \<Longrightarrow> contents q' = contents q @ [fd] \<and> \<not> shutting_down q \<and> \<not> shutting_down q'"
    and "r = None \<Longrightarrow> queue_full q \<and> \<not> shutting_down q \<and> \<not> a"
  using assms enqueue_contents [OF assms(1)]
  by (auto simp: push_section_def enqueue_def split: if_splits)

lemma pop_section_facts:
  assumes "queue_ok q" and "pop_section q = (r, q')"
  shows "queue_ok q'" and "q_capacity q' = q_capacity q" and "shutting_down q' = shutting_down q"
    and "r = Some (CONNECTION_QUEUE_OK, fd) \<Longrightarrow> \<exists>x. fd = Some x \<and> contents q = x # contents q'"
    and "r = None \<Longrightarrow> q' = q \<and> contents q = [] \<and> \<not> shutting_down q"
    and "r \<noteq> None \<Longrightarrow> (\<exists>x. r = Some (CONNECTION_QUEUE_OK, Some x) \<and> contents q = x # contents q')
      \<or> r = Some (CONNECTION_QUEUE_SHUTDOWN, None) \<and> q' = q \<and> contents q = [] \<and> shutting_down q"
proof -
  have c: "(contents q = []) = (q_count q = 0)" using length_contents [OF assms(1)] by (metis length_0_conv)
  show "queue_ok q'" and "q_capacity q' = q_capacity q" and "shutting_down q' = shutting_down q"
    using assms dequeue_contents(2) [OF assms(1)] by (auto simp: pop_section_def dequeue_def split: if_splits)
  show "r = Some (CONNECTION_QUEUE_OK, fd) \<Longrightarrow> \<exists>x. fd = Some x \<and> contents q = x # contents q'"
    and "r = None \<Longrightarrow> q' = q \<and> contents q = [] \<and> \<not> shutting_down q"
    and "r \<noteq> None \<Longrightarrow> (\<exists>x. r = Some (CONNECTION_QUEUE_OK, Some x) \<and> contents q = x # contents q')
      \<or> r = Some (CONNECTION_QUEUE_SHUTDOWN, None) \<and> q' = q \<and> contents q = [] \<and> shutting_down q"
    using assms(2) c dequeue_contents(1) [OF assms(1)] by (auto simp: pop_section_def split: if_splits)
qed

text \<open>Other threads keep the queue in order while an operation waits.\<close>

definition orderly :: "wait_t list \<Rightarrow> bool" where
  "orderly es = (\<forall>e\<in>set es. \<forall>q. queue_ok q \<longrightarrow> queue_ok (wt_others e q) \<and> q_capacity (wt_others e q) = q_capacity q)"

lemma orderly_Cons [simp]:
  "orderly (e # es) = ((\<forall>q. queue_ok q \<longrightarrow> queue_ok (wt_others e q) \<and> q_capacity (wt_others e q) = q_capacity q) \<and> orderly es)"
  by (auto simp: orderly_def)

text \<open>What a push that is over did: it stored the descriptor last, or did not touch the queue at its end.\<close>

lemma push_loop_facts:
  assumes "push_loop fd es q = Some (s, q')" and "queue_ok q" and "orderly es"
  shows "queue_ok q' \<and> q_capacity q' = q_capacity q
    \<and> (s = CONNECTION_QUEUE_OK \<longrightarrow> \<not> shutting_down q' \<and> (\<exists>xs. contents q' = xs @ [fd]))"
  using assms
proof (induction fd es q rule: push_loop.induct)
  case (1 fd q)
  obtain r q1 where p: "push_section fd False True q = (r, q1)" by fastforce
  with push_section_facts [OF "1.prems"(2) p] "1.prems"(1) show ?case by (auto split: if_splits)
next
  case (2 fd e es q)
  obtain r q1 where p: "push_section fd (wt_aborted e) (wt_clock e) q = (r, q1)" by fastforce
  note f = push_section_facts [OF "2.prems"(2) p]
  show ?case
  proof (cases r)
    case None
    with f have "q1 = q" by simp
    with None "2.prems" p "2.IH" [OF p [symmetric] None refl] show ?thesis by (auto simp: Let_def split: if_splits)
  next
    case (Some x)
    with f p "2.prems"(1) show ?thesis by auto
  qed
qed

lemma push_loop_returns:
  assumes "queue_ok q" and "orderly es" and "\<exists>e\<in>set es. wt_aborted e"
  shows "push_loop fd es q \<noteq> None"
  using assms
proof (induction fd es q rule: push_loop.induct)
  case (2 fd e es q)
  obtain r q1 where p: "push_section fd (wt_aborted e) (wt_clock e) q = (r, q1)" by fastforce
  note f = push_section_facts [OF "2.prems"(1) p]
  show ?case
  proof (cases r)
    case None
    with f have "q1 = q" "\<not> wt_aborted e" by simp_all
    with None "2.prems" p "2.IH" [OF p [symmetric] None refl] show ?thesis by (auto simp: Let_def)
  qed (simp add: p)
qed simp

section \<open>Setting up and tearing down\<close>

lemma close_leftover_facts:
  assumes "close_leftover is q w = (q', w')" and "q_items q = Some items" "length items = q_capacity q"
    and "distinct is" "\<forall>i\<in>set is. i < q_capacity q \<and> 0 \<le> items ! ((q_head q + i) mod q_capacity q)"
  shows "closed w' = closed w @ map (\<lambda>i. items ! ((q_head q + i) mod q_capacity q)) is
    \<and> w' = w\<lparr>closed := closed w'\<rparr> \<and> q_items q' \<noteq> None"
  using assms
proof (induction "is" arbitrary: q w items)
  case (Cons i "is")
  let ?idx = "(q_head q + i) mod q_capacity q"
  let ?q = "q\<lparr>q_items := Some (items[?idx := -1])\<rparr>"
  have other: "(q_head q + k) mod q_capacity q \<noteq> ?idx" if "k \<in> set is" for k
    using ring_distinct [of i k "q_capacity q" "q_head q"] ring_distinct [of k i "q_capacity q" "q_head q"] that Cons.prems(4,5)
    by (metis distinct.simps(2) list.set_intros linorder_neqE_nat)
  have run: "close_leftover is ?q (os_close (items ! ?idx) w) = (q', w')"
    using Cons.prems(1,2,5) by (simp add: Let_def)
  have same: "items[?idx := -1] ! ((q_head ?q + k) mod q_capacity ?q) = items ! ((q_head q + k) mod q_capacity q)"
    if "k \<in> set is" for k using other [OF that] by (simp add: nth_list_update_neq [symmetric])
  have "closed w' = closed (os_close (items ! ?idx) w) @ map (\<lambda>k. items[?idx := -1] ! ((q_head ?q + k) mod q_capacity ?q)) is
      \<and> w' = (os_close (items ! ?idx) w)\<lparr>closed := closed w'\<rparr> \<and> q_items q' \<noteq> None"
    by (rule Cons.IH [OF run]) (use Cons.prems same in auto)
  moreover have "map (\<lambda>k. items[?idx := -1] ! ((q_head ?q + k) mod q_capacity ?q)) is
      = map (\<lambda>k. items ! ((q_head q + k) mod q_capacity q)) is" using same by simp
  ultimately show ?case by (cases w; cases w') (simp add: os_close_def)
qed simp

lemma destroy_queue_facts:
  assumes "connection_queue_destroy q w = (q', w')" and "queue_ok q" and "\<forall>fd\<in>set (contents q). 0 \<le> fd"
  shows "q' = queue_zero \<and> closed w' = closed w @ contents q \<and> live (mem w') = live (mem w) - 1
    \<and> w' = w\<lparr>mem := mem w', closed := closed w'\<rparr>"
proof -
  obtain items where i: "q_items q = Some items" "length items = q_capacity q" "q_count q \<le> q_capacity q"
    using assms(2) by (auto simp: queue_ok_def)
  obtain q1 w1 where c: "close_leftover [0..<q_count q] q w = (q1, w1)" by fastforce
  have v: "\<forall>k\<in>set [0..<q_count q]. k < q_capacity q \<and> 0 \<le> items ! ((q_head q + k) mod q_capacity q)"
    using assms(3) i by (auto simp: contents_def)
  note f = close_leftover_facts [OF c i(1,2) distinct_upt v]
  have m: "contents q = map (\<lambda>k. items ! ((q_head q + k) mod q_capacity q)) [0..<q_count q]" using i by (simp add: contents_def)
  show ?thesis
  proof (cases "q_count q = 0")
    case True
    then show ?thesis using assms(1) i m by (auto simp: connection_queue_destroy_def blocks_def)
  next
    case False
    then have "q' = queue_zero" "w' = w1\<lparr>mem := c_free (q_items q1) (mem w1)\<rparr>"
      using assms(1) i c by (auto simp: connection_queue_destroy_def)
    with f m show ?thesis by (cases w; cases w1) (auto simp: blocks_def split: option.splits)
  qed
qed

lemma init_queue_facts:
  assumes "connection_queue_init q0 capacity m e f w = (ok, q, w')"
  shows "ok \<Longrightarrow> queue_ok q \<and> contents q = [] \<and> q_capacity q = capacity \<and> \<not> shutting_down q \<and> live (mem w') = live (mem w) + 1"
    and "\<not> ok \<Longrightarrow> live (mem w') = live (mem w)" and "closed w' = closed w"
    and "never_fails (mem w) \<Longrightarrow> ok = (0 < capacity \<and> m \<and> e \<and> f)"
  using assms
  by (auto simp: connection_queue_init_def connection_queue_destroy_def queue_zero_def queue_ok_def contents_def
      malloc_def never_fails_def c_free_def Let_def split: if_splits list.splits)

section \<open>Properties\<close>

definition sample_queue :: connection_queue_t where
  "sample_queue = queue_zero\<lparr>q_items := Some [0, 0], q_capacity := 2, mutex_initialized := True,
     not_empty_initialized := True, not_full_initialized := True\<rparr>"

lemma sample_queue_ok: "queue_ok sample_queue" "contents sample_queue = []"
  by (simp_all add: sample_queue_def queue_ok_def queue_zero_def contents_def)

text \<open>
  C9. The ring buffer is a bounded FIFO queue: whatever sections of whatever threads run in
  whatever order, the descriptors taken out are the descriptors put in, in that order, none lost
  and none handed out twice; the number stored never exceeds the capacity; and nothing is taken in
  once the queue is shut down, while what it holds can still be taken out.
\<close>

theorem connection_queue_fifo:
  assumes "queue_ok q" and "queue_run push_section pop_section connection_queue_shutdown as q = (ins, outs, q')"
  shows "contents q @ ins = outs @ contents q' \<and> queue_ok q' \<and> q_capacity q' = q_capacity q
    \<and> length (contents q') \<le> q_capacity q \<and> (shutting_down q \<longrightarrow> ins = [] \<and> shutting_down q')
    \<and> (shutting_down q' \<and> contents q' \<noteq> [] \<longrightarrow>
         (\<exists>fd q''. pop_section q' = (Some (CONNECTION_QUEUE_OK, Some fd), q'') \<and> contents q' = fd # contents q''))"
proof -
  note f = rb.fifo [OF assms, unfolded fst_conv]
  have "\<exists>fd q''. pop_section q' = (Some (CONNECTION_QUEUE_OK, Some fd), q'') \<and> contents q' = fd # contents q''"
    if "shutting_down q'" "contents q' \<noteq> []"
  proof -
    obtain r q'' where p: "pop_section q' = (r, q'')" by fastforce
    from f have ok: "queue_ok q'" by simp
    from pop_section_facts(5,6) [OF ok p] that p show ?thesis by (cases r) auto
  qed
  with f rb.down_stays [OF assms(1) _ assms(2)] show ?thesis by auto
qed

theorem connection_queue_fifo_witness:
  "\<exists>q'. queue_run push_section pop_section connection_queue_shutdown
      [PUSH 5 False True, PUSH 6 False True, PUSH 7 True True, POP, PUSH 8 False True, SHUTDOWN, PUSH 9 False True, POP]
      sample_queue = ([5, 6, 8], [5, 6], q') \<and> contents q' = [8] \<and> length (contents q') \<le> 2"
proof -
  let ?run = "queue_run push_section pop_section connection_queue_shutdown
      [PUSH 5 False True, PUSH 6 False True, PUSH 7 True True, POP, PUSH 8 False True, SHUTDOWN, PUSH 9 False True, POP]
      sample_queue"
  obtain ins outs q' where run: "?run = (ins, outs, q')" by (metis prod_cases3)
  have "fst ?run = [5, 6, 8]" "fst (snd ?run) = [5, 6]" by code_simp+
  then have io: "ins = [5, 6, 8]" "outs = [5, 6]" using run by simp_all
  have "q_capacity sample_queue = 2" by (simp add: sample_queue_def queue_zero_def)
  with connection_queue_fifo [OF sample_queue_ok(1) run] sample_queue_ok(2) run io show ?thesis by simp
qed

text \<open>
  C23. Setting a queue up succeeds exactly when memory and the three primitives are available, and
  gives an empty queue of the given capacity; a failure anywhere leaves nothing allocated and
  nothing closed. Tearing a queue down closes every descriptor still in it once, in order, and
  releases the buffer.
\<close>

theorem connection_queue_lifecycle:
  assumes "connection_queue_init q0 capacity m e f w = (ok, q, w')"
    and "queue_run push_section pop_section connection_queue_shutdown as q = (ins, outs, q1)"
    and "\<forall>fd\<in>set ins. 0 \<le> fd" and "connection_queue_destroy q1 w' = (q2, w'')"
  shows "if ok then queue_ok q \<and> live (mem w') = live (mem w) + 1 \<and> live (mem w'') = live (mem w)
      \<and> (\<exists>rest. ins = outs @ rest \<and> closed w'' = closed w @ rest) \<and> q2 = queue_zero
    else live (mem w') = live (mem w) \<and> closed w' = closed w"
proof (cases ok)
  case True
  note i = init_queue_facts(1) [OF assms(1) True] init_queue_facts(3) [OF assms(1)]
  with rb.fifo [OF _ assms(2), unfolded fst_conv] have f: "ins = outs @ contents q1" "queue_ok q1" by auto
  with assms(3) have "\<forall>fd\<in>set (contents q1). 0 \<le> fd" by simp
  from destroy_queue_facts [OF assms(4) f(2) this] i f True show ?thesis by simp
qed (use init_queue_facts(2,3) [OF assms(1)] in simp)

theorem connection_queue_lifecycle_witness:
  "\<exists>q w' q1 q2 w''. connection_queue_init queue_zero 2 True True True sample_world = (True, q, w')
     \<and> queue_run push_section pop_section connection_queue_shutdown [PUSH 5 False True, PUSH 6 False True, POP] q = ([5, 6], [5], q1)
     \<and> connection_queue_destroy q1 w' = (q2, w'') \<and> live (mem w'') = live (mem sample_world)
     \<and> closed w'' = closed sample_world @ [6]"
proof -
  obtain ok q w' where i: "connection_queue_init queue_zero 2 True True True sample_world = (ok, q, w')" by (metis prod_cases3)
  obtain ins outs q1 where r: "queue_run push_section pop_section connection_queue_shutdown [PUSH 5 False True, PUSH 6 False True, POP] q = (ins, outs, q1)"
    by (metis prod_cases3)
  obtain q2 w'' where d: "connection_queue_destroy q1 w' = (q2, w'')" by fastforce
  have "fst (connection_queue_init queue_zero 2 True True True sample_world)"
    "fst (queue_run push_section pop_section connection_queue_shutdown [PUSH 5 False True, PUSH 6 False True, POP]
      (fst (snd (connection_queue_init queue_zero 2 True True True sample_world)))) = [5, 6]"
    "fst (snd (queue_run push_section pop_section connection_queue_shutdown [PUSH 5 False True, PUSH 6 False True, POP]
      (fst (snd (connection_queue_init queue_zero 2 True True True sample_world))))) = [5]" by code_simp+
  then have c: "ok" "ins = [5, 6]" "outs = [5]" using i r by simp_all
  with connection_queue_lifecycle [OF i r _ d] i r d show ?thesis by auto
qed

text \<open>
  C21. No operation on the queue waits for ever when the server is told to stop: a push returns as
  soon as one of its rounds sees the abort flag, whatever the other threads do to the queue in
  between, and a pop returns at once after the shutdown, without any wait.
\<close>

theorem connection_queue_operations_return:
  assumes "queue_ok q" and "orderly es" and "\<exists>e\<in>set es. wt_aborted e"
  shows "(\<exists>s q'. connection_queue_push fd lock_ok es q = Some (s, q') \<and> queue_ok q')
    \<and> (\<exists>s q'. connection_queue_pop lock_ok [] (connection_queue_shutdown q) = Some (s, q') \<and> queue_ok q')"
proof
  show "\<exists>s q'. connection_queue_push fd lock_ok es q = Some (s, q') \<and> queue_ok q'"
    using push_loop_returns [OF assms] push_loop_facts [OF _ assms(1,2)] assms(1)
    by (fastforce simp: connection_queue_push_def)
  have ok: "queue_ok (connection_queue_shutdown q)" "shutting_down (connection_queue_shutdown q)"
    using rb.shut_refines [OF assms(1)] by simp_all
  obtain r q' where p: "pop_section (connection_queue_shutdown q) = (r, q')" by fastforce
  with rb.down_pop_returns [OF ok(1) _ p] ok pop_section_facts(1) [OF ok(1) p]
  show "\<exists>s q'. connection_queue_pop lock_ok [] (connection_queue_shutdown q) = Some (s, q') \<and> queue_ok q'"
    by (auto simp: connection_queue_pop_def)
qed

text \<open>Three rounds on a full queue; the last one sees the flag.\<close>

theorem connection_queue_operations_return_witness:
  "\<exists>s q'. connection_queue_push 7 True
     [\<lparr>wt_aborted = False, wt_clock = True, wt_result = TIMED_OUT, wt_others = id\<rparr>,
      \<lparr>wt_aborted = False, wt_clock = True, wt_result = WOKEN, wt_others = id\<rparr>,
      \<lparr>wt_aborted = True, wt_clock = True, wt_result = WOKEN, wt_others = id\<rparr>]
     (sample_queue\<lparr>q_count := 2\<rparr>) = Some (s, q') \<and> s = CONNECTION_QUEUE_SHUTDOWN \<and> queue_ok q'"
proof -
  let ?es = "[\<lparr>wt_aborted = False, wt_clock = True, wt_result = TIMED_OUT, wt_others = id\<rparr>,
      \<lparr>wt_aborted = False, wt_clock = True, wt_result = WOKEN, wt_others = id\<rparr>,
      \<lparr>wt_aborted = True, wt_clock = True, wt_result = WOKEN, wt_others = id\<rparr>]"
  have ok: "queue_ok (sample_queue\<lparr>q_count := 2\<rparr>)" by (simp add: sample_queue_def queue_ok_def queue_zero_def)
  have o: "orderly ?es" by (simp add: orderly_def)
  have a: "\<exists>e\<in>set ?es. wt_aborted e" by simp
  have "map_option fst (connection_queue_push 7 True ?es (sample_queue\<lparr>q_count := 2\<rparr>)) = Some CONNECTION_QUEUE_SHUTDOWN"
    by (simp add: connection_queue_push_def push_section_def queue_full_def sample_queue_def queue_zero_def)
  with connection_queue_operations_return [OF ok o a, of 7 True] show ?thesis by auto
qed

end
