(* ===== verification/Http_Connection.thy ===== *)
theory Http_Connection
  imports Http_Response_Properties
begin

text \<open>
  The persistence policy of \<^verbatim>\<open>src/http_connection.c\<close>: tokens of the \<open>Connection\<close> header, the
  keep-alive decision for a request, and how a response announces it.
\<close>

section \<open>Definitions\<close>

definition token_equal_ci :: "string \<Rightarrow> string \<Rightarrow> bool" where
  "token_equal_ci a b = (if length a \<noteq> length b then False
     else list_all2 (\<lambda>x y. ascii_tolower x = ascii_tolower y) a b)"

text \<open>The scanning loop over the comma-separated value; \<open>p\<close> is the text from the cursor on.\<close>

function has_token_loop :: "string \<Rightarrow> string \<Rightarrow> bool" where
  "has_token_loop p token =
     (if p = [] then False
      else let start = dropWhile is_ows p in
        if start = [] then False
        else let item = takeWhile (\<lambda>c. c \<noteq> CHR '','') start;
                 rest = dropWhile (\<lambda>c. c \<noteq> CHR '','') start;
                 trimmed_item = rev (dropWhile is_ows (rev item)) in
          if token_equal_ci trimmed_item token then True
          else has_token_loop (if rest \<noteq> [] \<and> hd rest = CHR '','' then tl rest else rest) token)"
  by pat_completeness auto
termination
proof (relation "measure (\<lambda>(p, _). length p)", goal_cases)
  case (2 p token start item rest trimmed_item)
  have "length start \<le> length p" using 2(2) length_dropWhile_le by simp
  moreover have "length (if rest \<noteq> [] \<and> hd rest = CHR '','' then tl rest else rest) < length start"
  proof (cases "rest = []")
    case True
    with 2(3) show ?thesis by simp
  next
    case False
    then have "hd rest = CHR '',''" using 2(5) hd_dropWhile [of "\<lambda>c. c \<noteq> CHR '',''" start] by simp
    moreover have "length rest \<le> length start" using 2(5) length_dropWhile_le by simp
    ultimately show ?thesis using False by (cases rest) simp_all
  qed
  ultimately show ?case by simp
qed simp

declare has_token_loop.simps [simp del]

definition http_header_value_has_token :: "string option \<Rightarrow> string \<Rightarrow> bool" where
  "http_header_value_has_token value_opt token = (case value_opt of None \<Rightarrow> False
     | Some v \<Rightarrow> if token = [] then False else has_token_loop v token)"

definition http_request_wants_keep_alive :: "http_request_t \<Rightarrow> bool" where
  "http_request_wants_keep_alive request =
     (case rq_version request of None \<Rightarrow> False
      | Some version \<Rightarrow>
        let connection = http_request_get_header request ''Connection'';
            has_close = http_header_value_has_token connection ''close'';
            has_keep_alive = http_header_value_has_token connection ''keep-alive'' in
        if has_close then False
        else if version = ''HTTP/1.1'' then True
        else if version = ''HTTP/1.0'' then has_keep_alive
        else False)"

definition http_response_apply_connection_policy ::
  "http_response_t \<Rightarrow> bool \<Rightarrow> string option \<Rightarrow> heap \<Rightarrow> bool \<times> http_response_t \<times> heap" where
  "http_response_apply_connection_policy response keep_alive http_version h =
     (if \<not> keep_alive then
        http_response_set_header (response\<lparr>rs_suppress_auto_connection_close := False\<rparr>)
          ''Connection'' ''close'' h
      else if http_version = Some ''HTTP/1.0'' then
        http_response_set_header (response\<lparr>rs_suppress_auto_connection_close := False\<rparr>)
          ''Connection'' ''keep-alive'' h
      else (case http_response_remove_header response ''Connection'' h of
        (_, r', h') \<Rightarrow> (True, r'\<lparr>rs_suppress_auto_connection_close := True\<rparr>, h')))"

section \<open>Tokens\<close>

lemma token_equal_ci_lower: "token_equal_ci a b \<longleftrightarrow> lower a = lower b"
proof -
  have "list_all2 (\<lambda>x y. ascii_tolower x = ascii_tolower y) a b \<longleftrightarrow> lower a = lower b"
    by (simp add: list_all2_map1 list_all2_map2 flip: list.rel_eq)
  moreover have "lower a = lower b \<Longrightarrow> length a = length b" by (metis length_map)
  ultimately show ?thesis by (auto simp: token_equal_ci_def)
qed

interpretation tk_ci: ascii_ci token_equal_ci
  by unfold_locales (rule token_equal_ci_lower)

text \<open>The reference: the items between commas, with the blanks around them removed.\<close>

abbreviation comma_items :: "string \<Rightarrow> string list" where
  "comma_items s \<equiv> split_on (CHR '','') s"

definition strip :: "string \<Rightarrow> string" where
  "strip s = rev (dropWhile is_ows (rev (dropWhile is_ows s)))"

lemma not_ows_comma [simp]: "\<not> is_ows (CHR '','')"
  by (simp add: is_ows_def)

lemma dropWhile_comma_skip:
  "dropWhile (\<lambda>c. c \<noteq> CHR '','') (dropWhile is_ows s) = dropWhile (\<lambda>c. c \<noteq> CHR '','') s"
  by (induction s) auto

lemma strip_takeWhile_skip:
  "strip (takeWhile (\<lambda>c. c \<noteq> CHR '','') s)
     = rev (dropWhile is_ows (rev (takeWhile (\<lambda>c. c \<noteq> CHR '','') (dropWhile is_ows s))))"
  unfolding strip_def by (induction s) (auto simp: is_ows_def)

lemma if_or: "(if P then True else Q) \<longleftrightarrow> P \<or> Q"
  by simp

lemma has_token_loop_items:
  assumes "token \<noteq> []"
  shows "has_token_loop p token \<longleftrightarrow> (\<exists>i\<in>set (comma_items p). lower (strip i) = lower token)"
proof (induction "length p" arbitrary: p rule: less_induct)
  case less
  let ?D = "\<lambda>c. c \<noteq> CHR '',''"
  let ?start = "dropWhile is_ows p" and ?rest = "dropWhile (\<lambda>c. c \<noteq> CHR '','') p"
  have strip: "strip (takeWhile ?D p) = rev (dropWhile is_ows (rev (takeWhile ?D ?start)))"
    by (rule strip_takeWhile_skip)
  note items = split_on_takeWhile [of "CHR '',''" p]
  show ?case
  proof (cases "?start = []")
    case True
    then have "\<not> has_token_loop p token" by (simp add: has_token_loop.simps [of p])
    moreover from True have "?rest = []" using dropWhile_comma_skip [of p] by (metis dropWhile.simps(1))
    then have "comma_items p = [takeWhile ?D p]" using items by (simp only: list.case)
    moreover have "strip (takeWhile ?D p) = []" using strip True by simp
    ultimately show ?thesis using assms by simp
  next
    case False
    then have ne: "p \<noteq> []" by auto
    have unf: "has_token_loop p token \<longleftrightarrow> lower (strip (takeWhile ?D p)) = lower token
        \<or> has_token_loop (if ?rest \<noteq> [] \<and> hd ?rest = CHR '','' then tl ?rest else ?rest) token"
      using False ne
      by (subst has_token_loop.simps) (simp only: Let_def strip token_equal_ci_lower dropWhile_comma_skip if_False if_not_P if_or)
    show ?thesis
    proof (cases ?rest)
      case Nil
      have "\<not> has_token_loop [] token" by (simp add: has_token_loop.simps)
      with Nil unf items show ?thesis by (simp del: dropWhile_eq_Nil_conv)
    next
      case (Cons c cs)
      then have c: "c = CHR '',''" using hd_dropWhile [of ?D p] by simp
      have "length cs < length p" using Cons length_dropWhile_le [of ?D p] by simp
      from less.hyps [OF this] Cons c unf items show ?thesis by simp
    qed
  qed
qed

lemma has_token_items:
  "http_header_value_has_token value_opt token \<longleftrightarrow>
     (\<exists>v. value_opt = Some v \<and> token \<noteq> []
        \<and> (\<exists>i\<in>set (comma_items v). lower (strip i) = lower token))"
  using has_token_loop_items [of token]
  by (auto simp: http_header_value_has_token_def split: option.splits)

section \<open>Policy\<close>

lemma mset_eq_short:
  assumes "mset xs = mset ys" and "length ys \<le> 1"
  shows "xs = ys"
proof (cases ys)
  case Nil
  with assms show ?thesis by simp
next
  case (Cons y l)
  with assms have "l = []" by simp
  with Cons assms(1) have "mset xs = {#y#}" by simp
  then have "xs = [y]" by (simp only: mset_single_iff)
  with Cons \<open>l = []\<close> show ?thesis by simp
qed


lemma policy_facts:
  assumes "http_response_apply_connection_policy r ka v h = (ok, r', h')"
  shows "\<exists>hs. r' = r\<lparr>rs_headers := hs, rs_suppress_auto_connection_close := (ka \<and> v \<noteq> Some ''HTTP/1.0'')\<rparr>"
    and "live h' - header_blocks (rs_headers r') = live h - header_blocks (rs_headers r)"
    and "headers_mset r' = filter_mset (\<lambda>x. \<not> named ''Connection'' x) (headers_mset r)
      + (if ok \<and> \<not> ka then {#\<lparr>hd_name = ''Connection'', hd_value = ''close''\<rparr>#}
         else if ok \<and> v = Some ''HTTP/1.0'' then {#\<lparr>hd_name = ''Connection'', hd_value = ''keep-alive''\<rparr>#}
         else {#})"
    and "ka \<and> v \<noteq> Some ''HTTP/1.0'' \<longrightarrow> ok"
proof -
  let ?r = "r\<lparr>rs_suppress_auto_connection_close := False\<rparr>"
  have "(\<exists>hs. r' = r\<lparr>rs_headers := hs, rs_suppress_auto_connection_close := (ka \<and> v \<noteq> Some ''HTTP/1.0'')\<rparr>)
    \<and> live h' - header_blocks (rs_headers r') = live h - header_blocks (rs_headers r)
    \<and> headers_mset r' = filter_mset (\<lambda>x. \<not> named ''Connection'' x) (headers_mset r)
      + (if ok \<and> \<not> ka then {#\<lparr>hd_name = ''Connection'', hd_value = ''close''\<rparr>#}
         else if ok \<and> v = Some ''HTTP/1.0'' then {#\<lparr>hd_name = ''Connection'', hd_value = ''keep-alive''\<rparr>#}
         else {#})
    \<and> (ka \<and> v \<noteq> Some ''HTTP/1.0'' \<longrightarrow> ok)"
  proof (cases "ka \<and> v \<noteq> Some ''HTTP/1.0''")
    case True
    obtain k r1 h1 where rm: "http_response_remove_header r ''Connection'' h = (k, r1, h1)"
      by (cases "http_response_remove_header r ''Connection'' h")
    have run: "ok" "r' = r1\<lparr>rs_suppress_auto_connection_close := True\<rparr>" "h' = h1"
      using assms True rm by (auto simp: http_response_apply_connection_policy_def)
    obtain hs where r1: "r1 = r\<lparr>rs_headers := hs\<rparr>" using remove_header_facts(5) [OF rm] by blast
    with run True header_blocks_remove [OF rm] remove_header_facts(1) [OF rm] show ?thesis by auto
  next
    case False
    define val where "val = (if ka then ''keep-alive'' else ''close'')"
    have run: "http_response_set_header ?r ''Connection'' val h = (ok, r', h')"
      using assms False by (auto simp: http_response_apply_connection_policy_def val_def)
    obtain hs where "r' = ?r\<lparr>rs_headers := hs\<rparr>" using set_header_facts(2) [OF run] by blast
    then have "r' = r\<lparr>rs_headers := hs, rs_suppress_auto_connection_close := False\<rparr>" by simp
    with False set_header_facts(1,3) [OF run] show ?thesis by (auto simp: val_def)
  qed
  then show "\<exists>hs. r' = r\<lparr>rs_headers := hs, rs_suppress_auto_connection_close := (ka \<and> v \<noteq> Some ''HTTP/1.0'')\<rparr>"
    and "live h' - header_blocks (rs_headers r') = live h - header_blocks (rs_headers r)"
    and "headers_mset r' = filter_mset (\<lambda>x. \<not> named ''Connection'' x) (headers_mset r)
      + (if ok \<and> \<not> ka then {#\<lparr>hd_name = ''Connection'', hd_value = ''close''\<rparr>#}
         else if ok \<and> v = Some ''HTTP/1.0'' then {#\<lparr>hd_name = ''Connection'', hd_value = ''keep-alive''\<rparr>#}
         else {#})"
    and "ka \<and> v \<noteq> Some ''HTTP/1.0'' \<longrightarrow> ok" by blast+
qed

lemma policy_balanced:
  assumes "http_response_apply_connection_policy r ka v (mem w) = (ok, r', h')"
  shows "balanced r w [] r' (w\<lparr>mem := h'\<rparr>)"
  using policy_facts(1,2) [OF assms] by (auto simp: balanced_def response_blocks_def response_fds_def)

lemma policy_response_ok:
  assumes "http_response_apply_connection_policy r ka v h = (ok, r', h')" and "response_ok r"
  shows "response_ok r'"
  using policy_facts(1) [OF assms(1)] assms(2)
  by (cases "rs_body_kind r"; cases "rs_body r") (auto simp: response_ok_def)

lemma auto_fields_connection:
  "filter (named ''Connection'') (auto_fields r) =
     (if response_has_header r ''Connection'' \<or> rs_suppress_auto_connection_close r then []
      else [\<lparr>hd_name = ''Connection'', hd_value = ''close''\<rparr>])"
  by (auto simp: auto_fields_def header_name_equal_response_lower ascii_tolower_def)

lemma policy_announces:
  assumes "http_response_apply_connection_policy r ka v h = (ok, r', h')"
  shows "map hd_value (filter (\<lambda>x. header_name_equal_response (hd_name x) ''Connection'') (response_fields r'))
    = (if ka \<and> v \<noteq> Some ''HTTP/1.0'' then []
       else if ok \<and> ka then [''keep-alive''] else [''close''])"
proof -
  note f = policy_facts [OF assms]
  have sup: "rs_suppress_auto_connection_close r' = (ka \<and> v \<noteq> Some ''HTTP/1.0'')" using f(1) by auto
  define new where "new = (if ok \<and> \<not> ka then [\<lparr>hd_name = ''Connection'', hd_value = ''close''\<rparr>]
     else if ok \<and> v = Some ''HTTP/1.0'' then [\<lparr>hd_name = ''Connection'', hd_value = ''keep-alive''\<rparr>] else [])"
  have "mset (filter (named ''Connection'') (header_list (rs_headers r'))) = mset new"
    using f(3) by (auto simp: new_def rs_ci.refl filter_mset_eq_conv simp flip: filter_filter_mset)
  then have own: "filter (named ''Connection'') (header_list (rs_headers r')) = new"
    by (rule mset_eq_short) (simp add: new_def)
  have "response_has_header r' ''Connection'' \<longleftrightarrow> new \<noteq> []"
    unfolding own [symmetric] by (auto simp: response_has_header_def list_ex_iff filter_empty_conv)
  then have fields: "filter (named ''Connection'') (response_fields r') = new
      @ (if new \<noteq> [] \<or> (ka \<and> v \<noteq> Some ''HTTP/1.0'') then [] else [\<lparr>hd_name = ''Connection'', hd_value = ''close''\<rparr>])"
    by (simp only: filter_append own auto_fields_connection sup)
  show ?thesis unfolding fields new_def using f(4) by (cases ok; cases ka) simp_all
qed

text \<open>
  C35. The scanner for header tokens finds exactly the items of the comma-separated list: a
  token is found if and only if one of the items, without the blanks around it and without
  regard to case, is that token. Substrings do not match.
\<close>

theorem http_header_value_has_token_spec:
  "http_header_value_has_token value_opt token \<longleftrightarrow>
     (\<exists>v. value_opt = Some v \<and> token \<noteq> []
        \<and> (\<exists>i\<in>set (comma_items v). lower (strip i) = lower token))"
  by (rule has_token_items)

theorem http_header_value_has_token_spec_witness:
  "http_header_value_has_token (Some ''Upgrade , Keep-Alive ,closed'') ''keep-alive''
   \<and> \<not> http_header_value_has_token (Some ''Upgrade , Keep-Alive ,closed'') ''close''"
  unfolding http_header_value_has_token_spec
  by (simp add: strip_def is_ows_def ascii_tolower_def)



text \<open>
  C26. The decision to keep a connection, for the versions the parser accepts: HTTP/1.1 persists
  unless the \<open>Connection\<close> header that is looked up has the token \<open>close\<close>, HTTP/1.0 closes unless it
  has \<open>keep-alive\<close> and not \<open>close\<close>.
\<close>

theorem http_request_wants_keep_alive_spec:
  assumes "rq_version r = Some ''HTTP/1.0'' \<or> rq_version r = Some ''HTTP/1.1''"
  shows "http_request_wants_keep_alive r \<longleftrightarrow>
    \<not> (\<exists>v. http_request_get_header r ''Connection'' = Some v
         \<and> (\<exists>i\<in>set (comma_items v). lower (strip i) = lower ''close''))
    \<and> (rq_version r = Some ''HTTP/1.1''
       \<or> (\<exists>v. http_request_get_header r ''Connection'' = Some v
            \<and> (\<exists>i\<in>set (comma_items v). lower (strip i) = lower ''keep-alive'')))"
proof -
  define cl ka where "cl = ''close''" and "ka = ''keep-alive''"
  have ne: "cl \<noteq> []" "ka \<noteq> []" by (simp_all add: cl_def ka_def)
  have "http_request_wants_keep_alive r \<longleftrightarrow>
    \<not> http_header_value_has_token (http_request_get_header r ''Connection'') cl
    \<and> (rq_version r = Some ''HTTP/1.1'' \<or> http_header_value_has_token (http_request_get_header r ''Connection'') ka)"
    using assms by (auto simp: http_request_wants_keep_alive_def cl_def ka_def Let_def)
  then show ?thesis unfolding cl_def [symmetric] ka_def [symmetric] has_token_items using ne by blast
qed

definition sample_two_connections :: http_request_t where
  "sample_two_connections = http_request_init\<lparr>rq_method := HTTP_METHOD_GET, rq_target := Some ''/'',
     rq_version := Some ''HTTP/1.1'',
     rq_headers := Some [\<lparr>hd_name = ''Connection'', hd_value = ''keep-alive''\<rparr>,
       \<lparr>hd_name = ''Connection'', hd_value = ''close''\<rparr>]\<rparr>"

text \<open>
  The witness is a request with two \<open>Connection\<close> header lines: only the first is looked at, so
  the connection is kept although the request also says \<open>close\<close>.
\<close>

theorem http_request_wants_keep_alive_spec_witness:
  "(rq_version sample_two_connections = Some ''HTTP/1.0'' \<or> rq_version sample_two_connections = Some ''HTTP/1.1'')
   \<and> http_request_wants_keep_alive sample_two_connections"
proof -
  have v: "rq_version sample_two_connections = Some ''HTTP/1.1''" by code_simp
  have c: "http_request_get_header sample_two_connections ''Connection'' = Some ''keep-alive''" by code_simp
  have "http_request_wants_keep_alive sample_two_connections"
    using http_request_wants_keep_alive_spec [of sample_two_connections] v c
    by (simp add: strip_def is_ows_def ascii_tolower_def)
  with v show ?thesis by simp
qed

end
