(* ===== verification/Mime.thy ===== *)
theory Mime
  imports Http_Request
begin

text \<open>The MIME table and the choice of a type by file name of \<^verbatim>\<open>src/mime.c\<close>.\<close>

definition MIME_TABLE :: "(string \<times> string) list" where
  "MIME_TABLE =
    [(''html'', ''text/html; charset=utf-8''),
     (''htm'', ''text/html; charset=utf-8''),
     (''css'', ''text/css; charset=utf-8''),
     (''js'', ''application/javascript''),
     (''json'', ''application/json''),
     (''txt'', ''text/plain; charset=utf-8''),
     (''csv'', ''text/csv; charset=utf-8''),
     (''xml'', ''application/xml''),
     (''png'', ''image/png''),
     (''jpg'', ''image/jpeg''),
     (''jpeg'', ''image/jpeg''),
     (''gif'', ''image/gif''),
     (''svg'', ''image/svg+xml''),
     (''ico'', ''image/x-icon''),
     (''webp'', ''image/webp''),
     (''pdf'', ''application/pdf''),
     (''woff'', ''font/woff''),
     (''woff2'', ''font/woff2'')]"

fun extension_equal :: "string \<Rightarrow> string \<Rightarrow> bool" where
  "extension_equal (a # as) (b # bs) =
     (if ascii_tolower a \<noteq> ascii_tolower b then False else extension_equal as bs)"
| "extension_equal as bs = (as = [] \<and> bs = [])"

text \<open>The loop that moves \<open>base\<close> behind every slash it meets.\<close>

fun basename :: "string \<Rightarrow> string \<Rightarrow> string" where
  "basename base [] = base"
| "basename base (c # p) = basename (if c = CHR ''/'' then p else base) p"

text \<open>The loop that keeps the last dot: the text from it on.\<close>

fun last_dot :: "string option \<Rightarrow> string \<Rightarrow> string option" where
  "last_dot dot [] = dot"
| "last_dot dot (c # p) = last_dot (if c = CHR ''.'' then Some (c # p) else dot) p"

fun mime_lookup :: "(string \<times> string) list \<Rightarrow> string \<Rightarrow> string" where
  "mime_lookup [] ext = ''application/octet-stream''"
| "mime_lookup ((key, mime_type) # entries) ext =
     (if extension_equal ext key then mime_type else mime_lookup entries ext)"

definition mime_type_from_path :: "string option \<Rightarrow> string" where
  "mime_type_from_path path =
     (case path of None \<Rightarrow> ''application/octet-stream''
      | Some p \<Rightarrow>
        if p = [] then ''application/octet-stream''
        else let base = basename p p in
          (case last_dot None base of None \<Rightarrow> ''application/octet-stream''
           | Some dot \<Rightarrow>
             if dot = base \<or> tl dot = [] then ''application/octet-stream''
             else mime_lookup MIME_TABLE (tl dot)))"

section \<open>Facts\<close>

lemma extension_equal_lower: "extension_equal a b \<longleftrightarrow> lower a = lower b"
  by (induction a b rule: extension_equal.induct) auto

interpretation mi_ci: ascii_ci extension_equal
  by unfold_locales (rule extension_equal_lower)

lemma basename_no_slash: "CHR ''/'' \<notin> set p \<Longrightarrow> basename base p = base"
  by (induction p arbitrary: base) auto

lemma basename_append: "CHR ''/'' \<notin> set n \<Longrightarrow> basename base (d @ CHR ''/'' # n) = n"
  by (induction d arbitrary: base) (auto simp: basename_no_slash)

lemma last_dot_no_dot: "CHR ''.'' \<notin> set p \<Longrightarrow> last_dot dot p = dot"
  by (induction p arbitrary: dot) auto

lemma last_dot_append: "CHR ''.'' \<notin> set e \<Longrightarrow> last_dot dot (n @ CHR ''.'' # e) = Some (CHR ''.'' # e)"
  by (induction n arbitrary: dot) (auto simp: last_dot_no_dot)

lemma mime_lookup_congr: "extension_equal e e' \<Longrightarrow> mime_lookup tab e = mime_lookup tab e'"
  by (induction tab) (auto simp: mi_ci.congr)

lemma mime_type_of_name:
  assumes "CHR ''/'' \<notin> set n" and "CHR ''/'' \<notin> set e" and "CHR ''.'' \<notin> set e" and "n \<noteq> []" and "e \<noteq> []"
  shows "mime_type_from_path (Some (d @ CHR ''/'' # n @ CHR ''.'' # e)) = mime_lookup MIME_TABLE e"
proof -
  have b: "basename p (d @ CHR ''/'' # n @ CHR ''.'' # e) = n @ CHR ''.'' # e" for p
    using assms by (intro basename_append) auto
  show ?thesis
    using assms by (simp add: mime_type_from_path_def b last_dot_append Let_def)
qed

lemma mime_types_clean: "list_all (\<lambda>(_, t). LF \<notin> set t \<and> CR \<notin> set t \<and> NUL \<notin> set t) MIME_TABLE"
  by code_simp

lemma mime_lookup_cases: "mime_lookup tab e = ''application/octet-stream'' \<or> mime_lookup tab e \<in> snd ` set tab"
  by (induction tab) force+

lemma mime_type_values:
  "mime_type_from_path p = ''application/octet-stream'' \<or> mime_type_from_path p \<in> snd ` set MIME_TABLE"
  using mime_lookup_cases [of MIME_TABLE]
  by (auto simp: mime_type_from_path_def Let_def split: option.splits)



end
