(* ===== verification/Static_Files.thy ===== *)
theory Static_Files
  imports Http_Response_Properties Mime
begin

text \<open>
  Static files of \<^verbatim>\<open>src/static_files.c\<close>: from the request target to an open file.

  The file system is not under the program's control and may change between two calls. The
  state \<open>site\<close> therefore gives, for every call in turn, a file system that answers it
  (\<open>fs_at\<close>, indexed by the number of calls made so far), and logs the files that were opened.
  \<open>realpath\<close>, \<open>stat\<close> and \<open>open\<close> answer with an error number or a result; of a mode only the
  file type is kept.
\<close>

section \<open>The file system\<close>

datatype fs_errno = EACCES | ENOENT | EFS_OTHER

datatype file_type = S_REG | S_DIR | S_OTHER

record stat_t =
  st_mode :: file_type
  st_size :: int

record fsys =
  fs_realpath :: "string \<Rightarrow> fs_errno + string"
  fs_stat :: "string \<Rightarrow> fs_errno + stat_t"
  fs_open :: "string \<Rightarrow> fs_errno + nat"
  fs_fstat :: "int \<Rightarrow> stat_t option"

record site = world +
  fs_at :: "nat \<Rightarrow> fsys"
  fs_calls :: nat
  opened :: "(string \<times> int) list"

definition os_realpath :: "string \<Rightarrow> 'a site_scheme \<Rightarrow> (fs_errno + string) \<times> 'a site_scheme" where
  "os_realpath path w = (fs_realpath (fs_at w (fs_calls w)) path, w\<lparr>fs_calls := fs_calls w + 1\<rparr>)"

definition os_stat :: "string \<Rightarrow> 'a site_scheme \<Rightarrow> (fs_errno + stat_t) \<times> 'a site_scheme" where
  "os_stat path w = (fs_stat (fs_at w (fs_calls w)) path, w\<lparr>fs_calls := fs_calls w + 1\<rparr>)"

definition os_open :: "string \<Rightarrow> 'a site_scheme \<Rightarrow> (fs_errno + nat) \<times> 'a site_scheme" where
  "os_open path w = (let answer = fs_open (fs_at w (fs_calls w)) path in
     (answer, w\<lparr>fs_calls := fs_calls w + 1,
        opened := opened w @ (case answer of Inl _ \<Rightarrow> [] | Inr fd \<Rightarrow> [(path, int fd)])\<rparr>))"

definition os_fstat :: "int \<Rightarrow> 'a site_scheme \<Rightarrow> stat_t option \<times> 'a site_scheme" where
  "os_fstat fd w = (fs_fstat (fs_at w (fs_calls w)) fd, w\<lparr>fs_calls := fs_calls w + 1\<rparr>)"

section \<open>From the target to a relative path\<close>

datatype static_file_result_t =
  STATIC_FILE_OK | STATIC_FILE_NOT_FOUND | STATIC_FILE_FORBIDDEN | STATIC_FILE_BAD_TARGET
  | STATIC_FILE_TOO_LARGE | STATIC_FILE_IO_ERROR | STATIC_FILE_OUT_OF_MEMORY

definition PATH_MAX :: nat where "PATH_MAX = 4096"

definition is_hex :: "char \<Rightarrow> bool" where
  "is_hex c = ((48 \<le> code c \<and> code c \<le> 57) \<or> (97 \<le> code c \<and> code c \<le> 102)
     \<or> (65 \<le> code c \<and> code c \<le> 70))"

definition hex_value :: "char \<Rightarrow> int" where
  "hex_value c =
     (if 48 \<le> code c \<and> code c \<le> 57 then int (code c) - 48
      else if 97 \<le> code c \<and> code c \<le> 102 then int (code c) - 97 + 10
      else if 65 \<le> code c \<and> code c \<le> 70 then int (code c) - 65 + 10
      else -1)"

text \<open>The path of a target; the start and length of the source are the string here.\<close>

definition path_portion :: "string option \<Rightarrow> static_file_result_t \<times> string" where
  "path_portion target =
     (case target of None \<Rightarrow> (STATIC_FILE_BAD_TARGET, [])
      | Some t \<Rightarrow>
        if t = [] then (STATIC_FILE_BAD_TARGET, [])
        else if hd t \<noteq> CHR ''/'' then (STATIC_FILE_BAD_TARGET, [])
        else (STATIC_FILE_OK, takeWhile (\<lambda>c. c \<noteq> CHR ''?'' \<and> c \<noteq> CHR ''#'') t))"

definition static_files_extract_path ::
  "string option \<Rightarrow> heap \<Rightarrow> static_file_result_t \<times> string option \<times> heap" where
  "static_files_extract_path request_target h =
     (case path_portion request_target of (rc, path) \<Rightarrow>
        if rc \<noteq> STATIC_FILE_OK then (rc, None, h)
        else (case malloc h of (ok, h') \<Rightarrow>
          if \<not> ok then (STATIC_FILE_OUT_OF_MEMORY, None, h')
          else (STATIC_FILE_OK, Some path, h')))"

text \<open>The decoding loop on the rest of the input; \<open>None\<close> is a bad escape.\<close>

fun url_decode_loop :: "string \<Rightarrow> string option" where
  "url_decode_loop [] = Some []"
| "url_decode_loop (c # cs) =
     (if c = CHR ''%'' then
        (case cs of
           a # b # rest \<Rightarrow>
             if \<not> is_hex a \<or> \<not> is_hex b then None
             else let decoded = char_of (nat (or (push_bit 4 (hex_value a)) (hex_value b))) in
               if decoded = NUL then None
               else map_option ((#) decoded) (url_decode_loop rest)
         | _ \<Rightarrow> None)
      else map_option ((#) c) (url_decode_loop cs))"

definition static_files_url_decode ::
  "string option \<Rightarrow> heap \<Rightarrow> static_file_result_t \<times> string option \<times> heap" where
  "static_files_url_decode input h =
     (case input of None \<Rightarrow> (STATIC_FILE_BAD_TARGET, None, h)
      | Some s \<Rightarrow> (case malloc h of (ok, h') \<Rightarrow>
          if \<not> ok then (STATIC_FILE_OUT_OF_MEMORY, None, h')
          else (case url_decode_loop s of
              None \<Rightarrow> (STATIC_FILE_BAD_TARGET, None, c_free (Some s) h')
            | Some decoded \<Rightarrow> (STATIC_FILE_OK, Some decoded, h'))))"

text \<open>
  The array of segments: \<open>capacity = 0\<close> is NULL. Every failure frees the segments and the
  array.
\<close>

fun free_strings :: "string list \<Rightarrow> heap \<Rightarrow> heap" where
  "free_strings [] h = h"
| "free_strings (s # ss) h = free_strings ss (c_free (Some s) h)"

definition free_segments :: "string list \<Rightarrow> nat \<Rightarrow> heap \<Rightarrow> heap" where
  "free_segments segments capacity h =
     c_free (if capacity = 0 then None else Some segments) (free_strings segments h)"

definition grow_segments :: "string list \<Rightarrow> nat \<Rightarrow> heap \<Rightarrow> bool \<times> nat \<times> heap" where
  "grow_segments segments capacity h =
     (if length segments = capacity
      then (case realloc (capacity = 0) h of (grown, h1) \<Rightarrow>
        (grown, if \<not> grown then capacity else if capacity = 0 then 8 else capacity * 2, h1))
      else (True, capacity, h))"

definition push_segment ::
  "string \<Rightarrow> string list \<Rightarrow> nat \<Rightarrow> heap \<Rightarrow> bool \<times> string list \<times> nat \<times> heap" where
  "push_segment seg segments capacity h =
     (case grow_segments segments capacity h of (grown, capacity1, h1) \<Rightarrow>
      if \<not> grown then (False, segments, capacity1, h1)
      else (case malloc h1 of (ok, h2) \<Rightarrow>
        if \<not> ok then (False, segments, capacity1, h2)
        else (True, segments @ [seg], capacity1, h2)))"

definition skip_slash :: "string \<Rightarrow> string" where
  "skip_slash p = (if p \<noteq> [] \<and> hd p = CHR ''/'' then tl p else p)"

lemma skip_slash_shorter:
  assumes "p \<noteq> []"
  shows "length (skip_slash (dropWhile (\<lambda>c. c \<noteq> CHR ''/'') p)) < length p"
proof (cases "dropWhile (\<lambda>c. c \<noteq> CHR ''/'') p")
  case Nil
  then show ?thesis unfolding Nil using assms by (simp add: skip_slash_def)
next
  case (Cons x xs)
  then have "x = CHR ''/''" using hd_dropWhile [of "\<lambda>c. c \<noteq> CHR ''/''" p] by simp
  moreover have "length (x # xs) \<le> length p" using Cons length_dropWhile_le [of "\<lambda>c. c \<noteq> CHR ''/''" p] by simp
  ultimately show ?thesis unfolding Cons by (simp add: skip_slash_def)
qed

function normalize_loop ::
  "string \<Rightarrow> string list \<Rightarrow> nat \<Rightarrow> heap \<Rightarrow> static_file_result_t \<times> string list \<times> nat \<times> heap" where
  "normalize_loop p segments capacity h =
     (if p = [] then (STATIC_FILE_OK, segments, capacity, h)
      else
        let seg = takeWhile (\<lambda>c. c \<noteq> CHR ''/'') p;
            rest = dropWhile (\<lambda>c. c \<noteq> CHR ''/'') p;
            p' = skip_slash rest
        in if seg = [] then normalize_loop p' segments capacity h
        else if seg = ''.'' then normalize_loop p' segments capacity h
        else if seg = ''..'' then
          (if segments = [] then (STATIC_FILE_FORBIDDEN, [], 0, free_segments segments capacity h)
           else normalize_loop p' (butlast segments) capacity (c_free (Some (last segments)) h))
        else (case push_segment seg segments capacity h of (ok, segments', capacity', h') \<Rightarrow>
          if \<not> ok then (STATIC_FILE_OUT_OF_MEMORY, [], 0, free_segments segments' capacity' h')
          else normalize_loop p' segments' capacity' h'))"
  by pat_completeness auto

termination
  by (relation "measure (\<lambda>(p, _). length p)") (simp_all del: dropWhile_eq_Nil_conv add: skip_slash_shorter)

declare normalize_loop.simps [simp del]

definition static_files_normalize_path ::
  "string option \<Rightarrow> heap \<Rightarrow> static_file_result_t \<times> string option \<times> heap" where
  "static_files_normalize_path decoded_path h =
     (case decoded_path of None \<Rightarrow> (STATIC_FILE_BAD_TARGET, None, h)
      | Some d \<Rightarrow>
        if d = [] \<or> hd d \<noteq> CHR ''/'' then (STATIC_FILE_BAD_TARGET, None, h)
        else (case normalize_loop (tl d) [] 0 h of (rc, segments, capacity, h1) \<Rightarrow>
          if rc \<noteq> STATIC_FILE_OK then (rc, None, h1)
          else (case malloc h1 of (ok, h2) \<Rightarrow>
            if \<not> ok then (STATIC_FILE_OUT_OF_MEMORY, None, free_segments segments capacity h2)
            else (STATIC_FILE_OK, Some (join_with (CHR ''/'') segments),
                  free_segments segments capacity h2))))"

section \<open>From the relative path to an open file\<close>

definition path_is_within_root :: "string \<Rightarrow> string \<Rightarrow> bool" where
  "path_is_within_root path root =
     (if length path < length root then False
      else if take (length root) path \<noteq> root then False
      else if length path = length root then True
      else path ! length root = CHR ''/'')"

definition join_root_relative :: "string \<Rightarrow> string \<Rightarrow> nat \<Rightarrow> static_file_result_t \<times> string" where
  "join_root_relative root relative out_size =
     (let out = (if relative = [] then root else root @ ''/'' @ relative) in
      if out_size \<le> length out then (STATIC_FILE_BAD_TARGET, []) else (STATIC_FILE_OK, out))"

definition file_fail ::
  "static_file_result_t \<Rightarrow> int \<Rightarrow> http_response_t \<Rightarrow> 'a site_scheme \<Rightarrow>
   static_file_result_t \<times> http_response_t \<times> 'a site_scheme" where
  "file_fail rc fd r w = (case http_response_destroy r (os_close fd w) of (r', w') \<Rightarrow> (rc, r', w'))"

definition fill_file_response ::
  "http_response_t \<Rightarrow> string \<Rightarrow> nat \<Rightarrow> bool \<Rightarrow> 'a site_scheme \<Rightarrow>
   static_file_result_t \<times> http_response_t \<times> 'a site_scheme" where
  "fill_file_response response fs_path expected_size load_body w =
     (case http_response_destroy response w of (_, w1) \<Rightarrow>
      (case http_response_add_header (http_response_set_status http_response_init 200)
          ''Content-Type'' (mime_type_from_path (Some fs_path)) (mem w1) of (ok, r, h) \<Rightarrow>
        if \<not> ok then (STATIC_FILE_OUT_OF_MEMORY, r, w1\<lparr>mem := h\<rparr>)
        else (case os_open fs_path (w1\<lparr>mem := h\<rparr>) of
            (Inl e, w2) \<Rightarrow> (case http_response_destroy r w2 of (r', w3) \<Rightarrow>
              (if e = EACCES then STATIC_FILE_FORBIDDEN
               else if e = ENOENT then STATIC_FILE_NOT_FOUND
               else STATIC_FILE_IO_ERROR, r', w3))
          | (Inr fd, w2) \<Rightarrow> (case os_fstat (int fd) w2 of
              (None, w3) \<Rightarrow> file_fail STATIC_FILE_IO_ERROR (int fd) r w3
            | (Some st, w3) \<Rightarrow>
              if st_mode st \<noteq> S_REG then file_fail STATIC_FILE_FORBIDDEN (int fd) r w3
              else if st_size st < 0 then file_fail STATIC_FILE_IO_ERROR (int fd) r w3
              else if int HTTP_MAX_STATIC_FILE_SIZE < st_size st
              then file_fail STATIC_FILE_TOO_LARGE (int fd) r w3
              else if int SIZE_MAX < st_size st then file_fail STATIC_FILE_TOO_LARGE (int fd) r w3
              else (case http_response_set_file_body r (int fd) (st_size st) w3 of (ok, r', w4) \<Rightarrow>
                if \<not> ok then file_fail STATIC_FILE_OUT_OF_MEMORY (int fd) r' w4
                else (STATIC_FILE_OK, r', w4))))))"

text \<open>The out-parameters are results: the path, the size and whether it is a directory.\<close>

definition resolve_under_root ::
  "string \<Rightarrow> string \<Rightarrow> 'a site_scheme \<Rightarrow>
   static_file_result_t \<times> string option \<times> nat \<times> bool \<times> 'a site_scheme" where
  "resolve_under_root canonical_root relative w =
     (case join_root_relative canonical_root relative PATH_MAX of (jr, joined) \<Rightarrow>
      if jr \<noteq> STATIC_FILE_OK then (jr, None, 0, False, w)
      else (case os_realpath joined w of
          (Inl e, w1) \<Rightarrow>
            (if e = ENOENT then STATIC_FILE_NOT_FOUND
             else if e = EACCES then STATIC_FILE_FORBIDDEN
             else STATIC_FILE_NOT_FOUND, None, 0, False, w1)
        | (Inr resolved, w1) \<Rightarrow>
          if \<not> path_is_within_root resolved canonical_root
          then (STATIC_FILE_FORBIDDEN, None, 0, False, w1)
          else (case os_stat resolved w1 of
              (Inl e, w2) \<Rightarrow>
                (if e = ENOENT then STATIC_FILE_NOT_FOUND
                 else if e = EACCES then STATIC_FILE_FORBIDDEN
                 else STATIC_FILE_IO_ERROR, None, 0, False, w2)
            | (Inr st, w2) \<Rightarrow>
              let is_dir = (st_mode st = S_DIR) in
              if \<not> is_dir \<and> st_mode st \<noteq> S_REG then (STATIC_FILE_FORBIDDEN, None, 0, is_dir, w2)
              else if \<not> is_dir \<and> st_size st < 0 then (STATIC_FILE_IO_ERROR, None, 0, is_dir, w2)
              else if \<not> is_dir \<and> int HTTP_MAX_STATIC_FILE_SIZE < st_size st
              then (STATIC_FILE_TOO_LARGE, None, 0, is_dir, w2)
              else if \<not> is_dir \<and> int SIZE_MAX < st_size st
              then (STATIC_FILE_TOO_LARGE, None, 0, is_dir, w2)
              else let out_size = (if is_dir then 0 else nat (st_size st)) in
                (case malloc (mem w2) of (ok, h) \<Rightarrow>
                  if \<not> ok then (STATIC_FILE_OUT_OF_MEMORY, None, out_size, is_dir, w2\<lparr>mem := h\<rparr>)
                  else (STATIC_FILE_OK, Some resolved, out_size, is_dir, w2\<lparr>mem := h\<rparr>)))))"

definition try_index ::
  "string \<Rightarrow> string \<Rightarrow> 'a site_scheme \<Rightarrow> static_file_result_t \<times> string option \<times> nat \<times> 'a site_scheme" where
  "try_index canonical_root dir_relative w =
     (let index_rel = (if dir_relative = [] then ''index.html'' else dir_relative @ ''/index.html'') in
      if PATH_MAX \<le> length index_rel then (STATIC_FILE_BAD_TARGET, None, 0, w)
      else (case resolve_under_root canonical_root index_rel w of (rc, resolved, out_size, is_dir, w') \<Rightarrow>
        if rc = STATIC_FILE_OK \<and> is_dir
        then (STATIC_FILE_FORBIDDEN, None, out_size, w'\<lparr>mem := c_free resolved (mem w')\<rparr>)
        else (rc, resolved, out_size, w')))"

text \<open>The two halves of \<open>static_files_serve\<close>: the work on the target, and the work on the files.\<close>

definition serve_path ::
  "string option \<Rightarrow> heap \<Rightarrow>
   static_file_result_t \<times> string option \<times> string option \<times> string option \<times> heap" where
  "serve_path target h =
     (case static_files_extract_path target h of (rc, path_only, h1) \<Rightarrow>
      if rc \<noteq> STATIC_FILE_OK then (rc, path_only, None, None, h1)
      else (case static_files_url_decode path_only h1 of (rc, decoded, h2) \<Rightarrow>
        if rc \<noteq> STATIC_FILE_OK then (rc, path_only, decoded, None, h2)
        else (case static_files_normalize_path decoded h2 of (rc, relative, h3) \<Rightarrow>
          (rc, path_only, decoded, relative, h3))))"

definition serve_resolve ::
  "string \<Rightarrow> string \<Rightarrow> 'a site_scheme \<Rightarrow> static_file_result_t \<times> string option \<times> nat \<times> 'a site_scheme" where
  "serve_resolve document_root relative w =
     (case os_realpath document_root w of
        (Inl _, w1) \<Rightarrow> (STATIC_FILE_IO_ERROR, None, 0, w1)
      | (Inr canonical_root, w1) \<Rightarrow> (case os_stat canonical_root w1 of
          (Inl _, w2) \<Rightarrow> (STATIC_FILE_IO_ERROR, None, 0, w2)
        | (Inr root_st, w2) \<Rightarrow>
          if st_mode root_st \<noteq> S_DIR then (STATIC_FILE_IO_ERROR, None, 0, w2)
          else (case resolve_under_root canonical_root relative w2 of (rc, resolved, sz, is_dir, w3) \<Rightarrow>
            if rc = STATIC_FILE_OK \<and> is_dir then
              (case try_index canonical_root relative (w3\<lparr>mem := c_free resolved (mem w3)\<rparr>) of
                (rc, resolved, sz, w4) \<Rightarrow>
                  (if rc = STATIC_FILE_NOT_FOUND then STATIC_FILE_FORBIDDEN else rc, resolved, sz, w4))
            else (rc, resolved, sz, w3))))"

definition static_files_serve ::
  "string option \<Rightarrow> http_request_t \<Rightarrow> http_response_t \<Rightarrow> bool \<Rightarrow> 'a site_scheme \<Rightarrow>
   static_file_result_t \<times> http_response_t \<times> 'a site_scheme" where
  "static_files_serve document_root request response load_body w =
     (case document_root of None \<Rightarrow> (STATIC_FILE_BAD_TARGET, response, w)
      | Some root \<Rightarrow>
      if rq_target request = None then (STATIC_FILE_BAD_TARGET, response, w)
      else (case http_response_destroy response w of (_, w1) \<Rightarrow>
       (case serve_path (rq_target request) (mem w1) of (rc, path_only, decoded, relative, h2) \<Rightarrow>
        (case (if rc \<noteq> STATIC_FILE_OK then (rc, None, http_response_init, w1\<lparr>mem := h2\<rparr>)
               else (case serve_resolve root (the relative) (w1\<lparr>mem := h2\<rparr>) of (rc, resolved, sz, w3) \<Rightarrow>
                 if rc \<noteq> STATIC_FILE_OK then (rc, resolved, http_response_init, w3)
                 else (case fill_file_response http_response_init (the resolved) sz load_body w3 of
                   (rc, r, w4) \<Rightarrow>
                     if rc \<noteq> STATIC_FILE_OK
                     then (case http_response_destroy r w4 of (r', w5) \<Rightarrow> (rc, resolved, r', w5))
                     else (rc, resolved, r, w4)))) of (rc, resolved, r, w6) \<Rightarrow>
         (rc, r, w6\<lparr>mem := c_free resolved (c_free relative (c_free decoded (c_free path_only (mem w6))))\<rparr>)))))"

section \<open>Error pages\<close>

definition static_files_build_error ::
  "http_response_t \<Rightarrow> int \<Rightarrow> string \<Rightarrow> 'a world_scheme \<Rightarrow> bool \<times> http_response_t \<times> 'a world_scheme" where
  "static_files_build_error response status_code heading w =
     (let title = print_int status_code @ '' '' @ heading;
          body = ''<!doctype html>'' @ [LF] @ ''<html><head><title>'' @ title @ ''</title></head>''
            @ ''<body><h1>'' @ title @ ''</h1></body></html>'' @ [LF]
      in if 512 \<le> length body then (False, response, w)
      else (case http_response_destroy response w of (_, w1) \<Rightarrow>
       (case http_response_set_body_text (http_response_set_status http_response_init status_code)
           (Some body) w1 of (ok, r, w2) \<Rightarrow>
        if \<not> ok then (False, r, w2)
        else (case http_response_add_header r ''Content-Type'' ''text/html; charset=utf-8'' (mem w2) of
          (ok, r', h) \<Rightarrow> (ok, r', w2\<lparr>mem := h\<rparr>)))))"

text \<open>
  The request made up for the error page borrows its strings: they are taken out before the
  request is destroyed, which frees nothing.
\<close>

definition static_files_build_not_found ::
  "string option \<Rightarrow> http_response_t \<Rightarrow> 'a site_scheme \<Rightarrow> bool \<times> http_response_t \<times> 'a site_scheme" where
  "static_files_build_not_found document_root response w =
     (case document_root of
        None \<Rightarrow> static_files_build_error response 404 ''Not Found'' w
      | Some root \<Rightarrow>
        let fake = http_request_init\<lparr>rq_method := HTTP_METHOD_GET, rq_target := Some ''/404.html'',
              rq_version := Some ''HTTP/1.1''\<rparr> in
        (case static_files_serve (Some root) fake http_response_init True w of (rc, page, w1) \<Rightarrow>
         (case http_request_destroy (fake\<lparr>rq_target := None, rq_version := None\<rparr>) (mem w1) of (_, h2) \<Rightarrow>
          if rc = STATIC_FILE_OK then
            (case http_response_destroy response (w1\<lparr>mem := h2\<rparr>) of (_, w2) \<Rightarrow>
              (True, http_response_set_status page 404, w2))
          else (case http_response_destroy page (w1\<lparr>mem := h2\<rparr>) of (_, w2) \<Rightarrow>
            static_files_build_error response 404 ''Not Found'' w2))))"

end
