(* ===== verification/Static_Files_Properties.thy ===== *)
theory Static_Files_Properties
  imports Static_Files
begin

text \<open>
  The properties of static file serving: what the decoder accepts and what it returns, what
  normalisation does to the segments of a path, that every file that is opened lies under the
  document root, and that memory and descriptors are accounted for.
\<close>

section \<open>Percent-decoding\<close>

text \<open>The reference: a byte stands for itself, or for the byte whose two hexadecimal digits follow a \<open>%\<close>.\<close>

definition encodes :: "string \<Rightarrow> char \<Rightarrow> bool" where
  "encodes item c = ((item = [c] \<and> c \<noteq> CHR ''%'')
     \<or> (\<exists>a b. item = [CHR ''%'', a, b] \<and> is_hex a \<and> is_hex b
          \<and> int (code c) = 16 * hex_value a + hex_value b))"

lemma hex_value_range:
  assumes "is_hex a"
  shows "0 \<le> hex_value a" and "hex_value a < 16"
  using assms by (auto simp: is_hex_def hex_value_def)

lemma nibbles:
  assumes "0 \<le> x" "x < 16" "0 \<le> y" "y < 16"
  shows "or (push_bit 4 x) y = 16 * x + (y::int)"
proof -
  have y: "take_bit 4 y = y" using assms by (simp add: take_bit_eq_mod)
  have "\<not> bit (push_bit 4 x) n \<or> \<not> bit y n" for n
    by (subst y [symmetric]) (auto simp: bit_push_bit_iff bit_take_bit_iff)
  then have "push_bit 4 x + y = or (push_bit 4 x) y" by (rule disjunctive_add)
  then show ?thesis by (simp add: push_bit_eq_mult)
qed

lemma decoded_byte:
  assumes "is_hex a" "is_hex b"
  shows "char_of (nat (or (push_bit 4 (hex_value a)) (hex_value b))) = c
     \<longleftrightarrow> int (code c) = 16 * hex_value a + hex_value b"
proof -
  let ?v = "16 * hex_value a + hex_value b"
  note r = hex_value_range [OF assms(1)] hex_value_range [OF assms(2)]
  then have v: "0 \<le> ?v" "?v < 256" by simp_all
  then have m: "nat ?v mod 256 = nat ?v" by simp
  have "char_of (nat ?v) = c \<longleftrightarrow> nat ?v = code c"
    using m by (metis char_of_char of_char_of)
  then show ?thesis unfolding nibbles [OF r] using v by auto
qed

lemma url_decode_loop_sound:
  "url_decode_loop s = Some d \<Longrightarrow> NUL \<notin> set s \<Longrightarrow>
     (\<exists>items. s = concat items \<and> list_all2 encodes items d) \<and> NUL \<notin> set d"
proof (induction s arbitrary: d rule: url_decode_loop.induct)
  case (2 c cs)
  show ?case
  proof (cases "c = CHR ''%''")
    case True
    with 2(3) obtain a b rest where cs: "cs = a # b # rest" by (auto split: list.splits)
    let ?dec = "char_of (nat (or (push_bit 4 (hex_value a)) (hex_value b))) :: char"
    from 2(3) True cs obtain d' where hex: "is_hex a" "is_hex b" and nn: "?dec \<noteq> NUL"
      and rest: "url_decode_loop rest = Some d'" and d: "d = ?dec # d'"
      by (auto simp: Let_def split: if_splits)
    have "NUL \<notin> set rest" using 2(4) cs by simp
    with 2(1) [OF True cs refl _ refl nn rest] hex obtain items where
      "rest = concat items" "list_all2 encodes items d'" "NUL \<notin> set d'"
      by blast
    moreover have "encodes [CHR ''%'', a, b] ?dec"
      using hex decoded_byte [OF hex, THEN iffD1, OF refl] unfolding encodes_def by blast
    ultimately show ?thesis using True cs d nn by (auto intro!: exI [of _ "[CHR ''%'', a, b] # items"])
  next
    case False
    with 2(3) obtain d' where rest: "url_decode_loop cs = Some d'" and d: "d = c # d'" by auto
    from 2(2) [OF False rest] 2(4) obtain items where
      "cs = concat items" "list_all2 encodes items d'" "NUL \<notin> set d'" by auto
    moreover have "encodes [c] c" using False by (simp add: encodes_def)
    ultimately show ?thesis using d 2(4) by (auto intro!: exI [of _ "[c] # items"])
  qed
qed simp

lemma url_decode_loop_complete:
  "list_all2 encodes items d \<Longrightarrow> NUL \<notin> set d \<Longrightarrow> url_decode_loop (concat items) = Some d"
proof (induction items d rule: list_all2_induct)
  case (Cons item items c d)
  then have IH: "url_decode_loop (concat items) = Some d" and c: "c \<noteq> NUL" by auto
  from Cons.hyps(1) show ?case
  proof (unfold encodes_def, elim disjE exE conjE)
    fix a b
    assume i: "item = [CHR ''%'', a, b]" and hex: "is_hex a" "is_hex b"
      and v: "int (code c) = 16 * hex_value a + hex_value b"
    then have "char_of (nat (or (push_bit 4 (hex_value a)) (hex_value b))) = c"
      using decoded_byte [OF hex] by blast
    with i hex IH c show ?thesis by (simp add: Let_def)
  qed (simp add: IH)
qed simp

lemma url_decode_loop_iff:
  "NUL \<notin> set s \<Longrightarrow> url_decode_loop s = Some d \<longleftrightarrow>
     (\<exists>items. s = concat items \<and> list_all2 encodes items d) \<and> NUL \<notin> set d"
  using url_decode_loop_sound url_decode_loop_complete by blast

section \<open>Normalisation\<close>

text \<open>The reference: the segments of the path taken one after the other, with a stack of names.\<close>

fun walk :: "string list \<Rightarrow> string list \<Rightarrow> string list option" where
  "walk st [] = Some st"
| "walk st (s # ss) =
     (if s = [] \<or> s = ''.'' then walk st ss
      else if s = ''..'' then (if st = [] then None else walk (butlast st) ss)
      else walk (st @ [s]) ss)"

text \<open>A name that stays where it is put.\<close>

definition plain :: "string \<Rightarrow> bool" where
  "plain s = (s \<noteq> [] \<and> s \<noteq> ''.'' \<and> s \<noteq> ''..'')"

definition climb :: "string \<Rightarrow> int" where
  "climb s = (if s = [] \<or> s = ''.'' then 0 else if s = ''..'' then -1 else 1)"

lemma walk_plain: "walk st ss = Some st' \<Longrightarrow> \<forall>s\<in>set st. plain s \<Longrightarrow> \<forall>s\<in>set st'. plain s"
proof (induction st ss rule: walk.induct)
  case (2 st s ss)
  have "\<forall>x\<in>set (butlast st). plain x" using 2(5) by (meson in_set_butlastD)
  moreover have "\<forall>x\<in>set (st @ [s]). plain x" if "\<not> (s = [] \<or> s = ''.'')" "s \<noteq> ''..''"
    using 2(5) that by (simp add: plain_def)
  ultimately show ?case
    using 2(1) [OF _ _ 2(5)] 2(2) [OF _ _ _ _ _] 2(3) 2(4) by (simp split: if_splits)
qed simp

lemma walk_subset: "walk st ss = Some st' \<Longrightarrow> set st' \<subseteq> set st \<union> set ss"
proof (induction st ss rule: walk.induct)
  case (2 st s ss)
  then show ?case by (fastforce split: if_splits dest: in_set_butlastD)
qed simp

lemma walk_of_plain: "\<forall>s\<in>set ss. plain s \<Longrightarrow> walk st ss = Some (st @ ss)"
  by (induction ss arbitrary: st) (auto simp: plain_def)

lemma walk_None_iff:
  "walk st ss = None \<longleftrightarrow> (\<exists>k\<le>length ss. int (length st) + sum_list (map climb (take k ss)) < 0)"
proof (induction st ss rule: walk.induct)
  case (2 st s ss)
  have split: "(\<exists>k\<le>length (s # ss). int (length st) + sum_list (map climb (take k (s # ss))) < 0)
      \<longleftrightarrow> (\<exists>k\<le>length ss. int (length st) + climb s + sum_list (map climb (take k ss)) < 0)"
    (is "?L \<longleftrightarrow> ?R")
  proof
    assume ?L
    then obtain k where k: "k \<le> length (s # ss)" "int (length st) + sum_list (map climb (take k (s # ss))) < 0" by blast
    then obtain k' where "k = Suc k'" by (cases k) auto
    with k show ?R by (auto intro!: exI [of _ k'])
  next
    assume ?R
    then obtain k where "k \<le> length ss" "int (length st) + climb s + sum_list (map climb (take k ss)) < 0" by blast
    then show ?L by (auto intro!: exI [of _ "Suc k"])
  qed
  show ?case
  proof (cases "s = [] \<or> s = ''.''")
    case True
    then have "climb s = 0" by (simp add: climb_def)
    with True 2(1) split show ?thesis by simp
  next
    case not_dot: False
    show ?thesis
    proof (cases "s = ''..''")
      case up: True
      then have c: "climb s = -1" by (simp add: climb_def)
      show ?thesis
      proof (cases "st = []")
        case True
        then have ?thesis if "\<exists>k\<le>length ss. int (length st) + climb s + sum_list (map climb (take k ss)) < 0"
          unfolding split using that up not_dot by simp
        moreover have "\<exists>k\<le>length ss. int (length st) + climb s + sum_list (map climb (take k ss)) < 0"
          using True c by (intro exI [of _ 0]) simp
        ultimately show ?thesis by blast
      next
        case False
        then have l: "int (length (butlast st)) = int (length st) + climb s" using c by (cases st) auto
        from 2(2) [OF not_dot up False] show ?thesis unfolding split l [symmetric] using not_dot up False by simp
      qed
    next
      case False
      then have l: "int (length (st @ [s])) = int (length st) + climb s" using not_dot by (simp add: climb_def)
      from 2(3) [OF not_dot False] show ?thesis unfolding split l [symmetric] using not_dot False by simp
    qed
  qed
qed auto

definition seg_blocks :: "string list \<Rightarrow> nat \<Rightarrow> int" where
  "seg_blocks segments capacity = int (length segments) + (if capacity = 0 then 0 else 1)"

lemma free_strings_heap [simp]:
  "live (free_strings ss h) = live h - int (length ss)" "never_fails (free_strings ss h) = never_fails h"
  by (induction ss h rule: free_strings.induct) simp_all

lemma free_segments_heap [simp]:
  "live (free_segments ss cap h) = live h - seg_blocks ss cap"
  "never_fails (free_segments ss cap h) = never_fails h"
  by (simp_all add: free_segments_def seg_blocks_def)

lemma push_segment_facts:
  assumes "push_segment seg ss cap h = (ok, ss', cap', h')" and "cap = 0 \<longrightarrow> ss = []"
  shows "live h' - seg_blocks ss' cap' = live h - seg_blocks ss cap"
    and "ss' = (if ok then ss @ [seg] else ss)" and "cap' = 0 \<longrightarrow> ss' = []"
    and "never_fails h \<Longrightarrow> ok \<and> never_fails h'"
proof -
  obtain g c1 h1 where g: "grow_segments ss cap h = (g, c1, h1)" by (cases "grow_segments ss cap h")
  obtain b h0 where b: "realloc (cap = 0) h = (b, h0)" by fastforce
  have gf: "live h1 - seg_blocks ss c1 = live h - seg_blocks ss cap" "g \<longrightarrow> c1 \<noteq> 0"
      "c1 = 0 \<longrightarrow> ss = []" "never_fails h \<Longrightarrow> g \<and> never_fails h1"
    using g b assms(2) realloc_live [OF b] never_fails_realloc [OF _ b]
    by (cases "length ss = cap"; cases "cap = 0"; cases b; auto simp: seg_blocks_def grow_segments_def)+
  obtain m h2 where m: "malloc h1 = (m, h2)" by fastforce
  have "live h' - seg_blocks ss' cap' = live h - seg_blocks ss cap
      \<and> ss' = (if ok then ss @ [seg] else ss) \<and> (cap' = 0 \<longrightarrow> ss' = [])
      \<and> (never_fails h \<longrightarrow> ok \<and> never_fails h')"
    using assms(1) gf malloc_live [OF m] never_fails_malloc [OF _ m]
    by (cases g; cases m) (auto simp: push_segment_def g m seg_blocks_def)
  then show "live h' - seg_blocks ss' cap' = live h - seg_blocks ss cap"
    and "ss' = (if ok then ss @ [seg] else ss)" and "cap' = 0 \<longrightarrow> ss' = []"
    and "never_fails h \<Longrightarrow> ok \<and> never_fails h'" by blast+
qed

text \<open>One round of the loop, in terms of the list of segments.\<close>

lemma split_on_skip_slash:
  assumes "p \<noteq> []"
  defines "rest \<equiv> dropWhile (\<lambda>c. c \<noteq> CHR ''/'') p"
  shows "walk st (split_on (CHR ''/'') p)
    = walk st (takeWhile (\<lambda>c. c \<noteq> CHR ''/'') p # split_on (CHR ''/'') (skip_slash rest))"
proof (cases rest)
  case Nil
  have "split_on (CHR ''/'') p = [takeWhile (\<lambda>c. c \<noteq> CHR ''/'') p]"
    by (subst split_on_takeWhile) (simp only: Nil [unfolded rest_def] list.case)
  then show ?thesis unfolding Nil by (simp add: skip_slash_def)
next
  case (Cons x xs)
  then have "x = CHR ''/''" unfolding rest_def using hd_dropWhile [of "\<lambda>c. c \<noteq> CHR ''/''" p] by simp
  then have "skip_slash rest = xs" unfolding Cons by (simp add: skip_slash_def)
  moreover have "split_on (CHR ''/'') p = takeWhile (\<lambda>c. c \<noteq> CHR ''/'') p # split_on (CHR ''/'') xs"
    by (subst split_on_takeWhile) (simp only: Cons [unfolded rest_def] list.case)
  ultimately show ?thesis by simp
qed

lemma normalize_loop_facts:
  assumes "normalize_loop p ss cap h = (rc, ss', cap', h')" and "cap = 0 \<longrightarrow> ss = []"
  shows "live h' - seg_blocks ss' cap' = live h - seg_blocks ss cap
    \<and> rc \<in> {STATIC_FILE_OK, STATIC_FILE_FORBIDDEN, STATIC_FILE_OUT_OF_MEMORY}
    \<and> (rc = STATIC_FILE_OK \<longrightarrow> walk ss (split_on (CHR ''/'') p) = Some ss')
    \<and> (rc \<noteq> STATIC_FILE_OK \<longrightarrow> ss' = [] \<and> cap' = 0)
    \<and> (rc = STATIC_FILE_FORBIDDEN \<longrightarrow> walk ss (split_on (CHR ''/'') p) = None)
    \<and> (never_fails h \<longrightarrow> rc \<noteq> STATIC_FILE_OUT_OF_MEMORY \<and> never_fails h')"
  using assms
proof (induction "length p" arbitrary: p ss cap h rule: less_induct)
  case less
  define seg where "seg = takeWhile (\<lambda>c. c \<noteq> CHR ''/'') p"
  define p' where "p' = skip_slash (dropWhile (\<lambda>c. c \<noteq> CHR ''/'') p)"
  show ?case
  proof (cases "p = []")
    case True
    with less.prems show ?thesis by (simp add: normalize_loop.simps)
  next
    case ne: False
    have w: "walk ss (split_on (CHR ''/'') p) = walk ss (seg # split_on (CHR ''/'') p')"
      unfolding seg_def p'_def by (rule split_on_skip_slash [OF ne])
    have shorter: "length p' < length p" unfolding p'_def by (rule skip_slash_shorter [OF ne])
    obtain ok ss1 cap1 h1 where ps: "push_segment seg ss cap h = (ok, ss1, cap1, h1)" by (metis prod_cases4)
    note pf = push_segment_facts [OF ps less.prems(2)]
    have run: "(rc, ss', cap', h') =
       (if seg = [] then normalize_loop p' ss cap h
        else if seg = ''.'' then normalize_loop p' ss cap h
        else if seg = ''..'' then
          (if ss = [] then (STATIC_FILE_FORBIDDEN, [], 0, free_segments ss cap h)
           else normalize_loop p' (butlast ss) cap (c_free (Some (last ss)) h))
        else if \<not> ok then (STATIC_FILE_OUT_OF_MEMORY, [], 0, free_segments ss1 cap1 h1)
        else normalize_loop p' ss1 cap1 h1)"
      unfolding less.prems(1) [symmetric] normalize_loop.simps [of p] Let_def seg_def [symmetric] p'_def [symmetric] ps
      using ne by simp
    consider (skip) "seg = [] \<or> seg = ''.''" | (top) "seg = ''..''" "ss = []" | (up) "seg = ''..''" "ss \<noteq> []"
      | (oom) "plain seg" "\<not> ok" | (push) "plain seg" "ok"
      by (auto simp: plain_def)
    then show ?thesis
    proof cases
      case skip
      with run have "normalize_loop p' ss cap h = (rc, ss', cap', h')" by auto
      from less.hyps [OF shorter this less.prems(2)] skip w show ?thesis by simp
    next
      case top
      with run have "rc = STATIC_FILE_FORBIDDEN" "ss' = []" "cap' = 0" "h' = free_segments ss cap h" by auto
      with top w show ?thesis by (simp add: seg_blocks_def)
    next
      case up
      with run have r: "normalize_loop p' (butlast ss) cap (c_free (Some (last ss)) h) = (rc, ss', cap', h')" by auto
      have c: "cap = 0 \<longrightarrow> butlast ss = []" using less.prems(2) by simp
      have "seg_blocks (butlast ss) cap = seg_blocks ss cap - 1"
        using up(2) by (cases ss rule: rev_cases) (simp_all add: seg_blocks_def)
      with less.hyps [OF shorter r c] up w show ?thesis by simp
    next
      case oom
      with run have "rc = STATIC_FILE_OUT_OF_MEMORY" "ss' = []" "cap' = 0" "h' = free_segments ss1 cap1 h1"
        by (auto simp: plain_def)
      with oom pf(1,4) show ?thesis by (auto simp: seg_blocks_def)
    next
      case push
      with run have r: "normalize_loop p' ss1 cap1 h1 = (rc, ss', cap', h')" by (auto simp: plain_def)
      have ss1: "ss1 = ss @ [seg]" using pf(2) push(2) by simp
      have "walk ss (seg # split_on (CHR ''/'') p') = walk ss1 (split_on (CHR ''/'') p')"
        using push(1) ss1 by (simp add: plain_def)
      with less.hyps [OF shorter r pf(3)] w pf(1,4) show ?thesis by auto
    qed
  qed
qed

lemma normalize_path_facts:
  assumes "static_files_normalize_path (Some (CHR ''/'' # p)) h = (rc, out, h')"
  shows "live h' = live h + blocks out"
    and "rc = STATIC_FILE_OK \<Longrightarrow> \<exists>ss. walk [] (split_on (CHR ''/'') p) = Some ss \<and> out = Some (join_with (CHR ''/'') ss)"
    and "rc \<noteq> STATIC_FILE_OK \<Longrightarrow> out = None"
    and "rc = STATIC_FILE_FORBIDDEN \<Longrightarrow> walk [] (split_on (CHR ''/'') p) = None"
    and "rc \<in> {STATIC_FILE_OK, STATIC_FILE_FORBIDDEN, STATIC_FILE_OUT_OF_MEMORY}"
    and "never_fails h \<Longrightarrow> never_fails h' \<and> rc \<noteq> STATIC_FILE_OUT_OF_MEMORY"
proof -
  obtain rc1 ss cap h1 where n: "normalize_loop p [] 0 h = (rc1, ss, cap, h1)" by (metis prod_cases4)
  have f: "live h1 - seg_blocks ss cap = live h - seg_blocks [] 0"
     "rc1 \<in> {STATIC_FILE_OK, STATIC_FILE_FORBIDDEN, STATIC_FILE_OUT_OF_MEMORY}"
     "rc1 = STATIC_FILE_OK \<longrightarrow> walk [] (split_on (CHR ''/'') p) = Some ss"
     "rc1 \<noteq> STATIC_FILE_OK \<longrightarrow> ss = [] \<and> cap = 0"
     "rc1 = STATIC_FILE_FORBIDDEN \<longrightarrow> walk [] (split_on (CHR ''/'') p) = None"
     "never_fails h \<longrightarrow> rc1 \<noteq> STATIC_FILE_OUT_OF_MEMORY \<and> never_fails h1"
    using normalize_loop_facts [OF n] by blast+
  obtain m h2 where m: "malloc h1 = (m, h2)" by fastforce
  have run: "(rc, out, h') = (if rc1 \<noteq> STATIC_FILE_OK then (rc1, None, h1)
     else if \<not> m then (STATIC_FILE_OUT_OF_MEMORY, None, free_segments ss cap h2)
     else (STATIC_FILE_OK, Some (join_with (CHR ''/'') ss), free_segments ss cap h2))"
    unfolding assms [symmetric] by (simp add: static_files_normalize_path_def n m)
  note mf = malloc_live [OF m] never_fails_malloc [OF _ m]
  consider (bad) "rc1 \<noteq> STATIC_FILE_OK" | (oom) "rc1 = STATIC_FILE_OK" "\<not> m" | (good) "rc1 = STATIC_FILE_OK" "m" by blast
  then have "live h' = live h + blocks out
    \<and> (rc = STATIC_FILE_OK \<longrightarrow> (\<exists>ss. walk [] (split_on (CHR ''/'') p) = Some ss \<and> out = Some (join_with (CHR ''/'') ss)))
    \<and> (rc \<noteq> STATIC_FILE_OK \<longrightarrow> out = None)
    \<and> (rc = STATIC_FILE_FORBIDDEN \<longrightarrow> walk [] (split_on (CHR ''/'') p) = None)
    \<and> rc \<in> {STATIC_FILE_OK, STATIC_FILE_FORBIDDEN, STATIC_FILE_OUT_OF_MEMORY}
    \<and> (never_fails h \<longrightarrow> never_fails h' \<and> rc \<noteq> STATIC_FILE_OUT_OF_MEMORY)"
  proof cases
    case bad
    with run have "rc = rc1" "out = None" "h' = h1" by simp_all
    with f bad show ?thesis by (auto simp: seg_blocks_def)
  next
    case oom
    with run have "rc = STATIC_FILE_OUT_OF_MEMORY" "out = None" "h' = free_segments ss cap h2" by simp_all
    with f oom mf show ?thesis by (auto simp: seg_blocks_def)
  next
    case good
    with run have "rc = STATIC_FILE_OK" "out = Some (join_with (CHR ''/'') ss)" "h' = free_segments ss cap h2" by simp_all
    with f good mf show ?thesis by (auto simp: seg_blocks_def)
  qed
  then show "live h' = live h + blocks out"
    and "rc = STATIC_FILE_OK \<Longrightarrow> \<exists>ss. walk [] (split_on (CHR ''/'') p) = Some ss \<and> out = Some (join_with (CHR ''/'') ss)"
    and "rc \<noteq> STATIC_FILE_OK \<Longrightarrow> out = None"
    and "rc = STATIC_FILE_FORBIDDEN \<Longrightarrow> walk [] (split_on (CHR ''/'') p) = None"
    and "rc \<in> {STATIC_FILE_OK, STATIC_FILE_FORBIDDEN, STATIC_FILE_OUT_OF_MEMORY}"
    and "never_fails h \<Longrightarrow> never_fails h' \<and> rc \<noteq> STATIC_FILE_OUT_OF_MEMORY" by blast+
qed

text \<open>The segments a target stands for, or why it stands for none.\<close>

definition target_segments :: "string \<Rightarrow> static_file_result_t + string list" where
  "target_segments t =
     (if t = [] \<or> hd t \<noteq> CHR ''/'' then Inl STATIC_FILE_BAD_TARGET
      else case url_decode_loop (takeWhile (\<lambda>c. c \<noteq> CHR ''?'' \<and> c \<noteq> CHR ''#'') t) of
        None \<Rightarrow> Inl STATIC_FILE_BAD_TARGET
      | Some d \<Rightarrow> (case walk [] (split_on (CHR ''/'') (tl d)) of
          None \<Rightarrow> Inl STATIC_FILE_FORBIDDEN
        | Some ss \<Rightarrow> Inr ss))"

lemma target_segments_plain:
  assumes "target_segments t = Inr ss"
  shows "\<forall>s\<in>set ss. plain s \<and> CHR ''/'' \<notin> set s"
proof -
  from assms obtain d where w: "walk [] (split_on (CHR ''/'') (tl d)) = Some ss"
    by (auto simp: target_segments_def split: if_splits option.splits)
  from walk_plain [OF w] walk_subset [OF w] show ?thesis
    using split_on_no_sep [of _ "CHR ''/''" "tl d"] by auto
qed

lemma serve_path_facts:
  assumes "serve_path (Some t) h = (rc, a, b, c, h')"
  shows "live h' = live h + blocks a + blocks b + blocks c"
    and "rc = STATIC_FILE_OK \<Longrightarrow> \<exists>ss. target_segments t = Inr ss \<and> c = Some (join_with (CHR ''/'') ss)"
    and "rc \<in> {STATIC_FILE_OK, STATIC_FILE_FORBIDDEN, STATIC_FILE_BAD_TARGET, STATIC_FILE_OUT_OF_MEMORY}"
    and "never_fails h \<Longrightarrow> never_fails h' \<and> rc = (case target_segments t of Inl e \<Rightarrow> e | Inr _ \<Rightarrow> STATIC_FILE_OK)"
proof -
  let ?path = "takeWhile (\<lambda>c. c \<noteq> CHR ''?'' \<and> c \<noteq> CHR ''#'') t"
  have "live h' = live h + blocks a + blocks b + blocks c
    \<and> (rc = STATIC_FILE_OK \<longrightarrow> (\<exists>ss. target_segments t = Inr ss \<and> c = Some (join_with (CHR ''/'') ss)))
    \<and> rc \<in> {STATIC_FILE_OK, STATIC_FILE_FORBIDDEN, STATIC_FILE_BAD_TARGET, STATIC_FILE_OUT_OF_MEMORY}
    \<and> (never_fails h \<longrightarrow> never_fails h' \<and> rc = (case target_segments t of Inl e \<Rightarrow> e | Inr _ \<Rightarrow> STATIC_FILE_OK))"
  proof (cases "t = [] \<or> hd t \<noteq> CHR ''/''")
    case True
    then have "(rc, a, b, c, h') = (STATIC_FILE_BAD_TARGET, None, None, None, h)"
      unfolding assms [symmetric]
      by (auto simp: serve_path_def static_files_extract_path_def path_portion_def)
    with True show ?thesis by (simp add: target_segments_def)
  next
    case False
    then obtain t' where t: "t = CHR ''/'' # t'" by (cases t) auto
    define path' where "path' = takeWhile (\<lambda>c. c \<noteq> CHR ''?'' \<and> c \<noteq> CHR ''#'') t'"
    have path: "?path = CHR ''/'' # path'" by (simp add: t path'_def)
    obtain m1 h1 where m1: "malloc h = (m1, h1)" by fastforce
    obtain m2 h2 where m2: "malloc h1 = (m2, h2)" by fastforce
    note mf = malloc_live [OF m1] malloc_live [OF m2] never_fails_malloc [OF _ m1] never_fails_malloc [OF _ m2]
    have ex: "static_files_extract_path (Some t) h
        = (if m1 then (STATIC_FILE_OK, Some (CHR ''/'' # path'), h1) else (STATIC_FILE_OUT_OF_MEMORY, None, h1))"
      using path by (simp add: static_files_extract_path_def path_portion_def t m1)
    show ?thesis
    proof (cases "m1 \<and> m2")
      case False
      then have "rc = STATIC_FILE_OUT_OF_MEMORY" "b = None" "c = None" "h' = (if m1 then h2 else h1)"
          "blocks a = (if m1 then 1 else 0)"
        using assms by (auto simp: serve_path_def ex static_files_url_decode_def m2 split: if_splits)
      with mf False show ?thesis by auto
    next
      case True
      show ?thesis
      proof (cases "url_decode_loop path'")
        case None
        then have "rc = STATIC_FILE_BAD_TARGET" "b = None" "c = None" "h' = c_free (Some ?path) h2" "blocks a = 1"
          using assms True path by (auto simp: serve_path_def ex static_files_url_decode_def m2)
        moreover have "target_segments t = Inl STATIC_FILE_BAD_TARGET"
          using None path by (simp add: target_segments_def t)
        ultimately show ?thesis using mf True by auto
      next
        case (Some d)
        obtain rc3 c3 h3 where n: "static_files_normalize_path (Some (CHR ''/'' # d)) h2 = (rc3, c3, h3)"
          by (metis prod_cases3)
        have "rc = rc3" "c = c3" "h' = h3" "blocks a = 1" "blocks b = 1"
          using assms True Some n by (auto simp: serve_path_def ex static_files_url_decode_def m2)
        moreover have "target_segments t = (case walk [] (split_on (CHR ''/'') d) of
            None \<Rightarrow> Inl STATIC_FILE_FORBIDDEN | Some ss \<Rightarrow> Inr ss)"
          using Some path by (simp add: target_segments_def t)
        moreover note normalize_path_facts [OF n]
        ultimately show ?thesis using mf True by (cases rc3) auto
      qed
    qed
  qed
  then show "live h' = live h + blocks a + blocks b + blocks c"
    and "rc = STATIC_FILE_OK \<Longrightarrow> \<exists>ss. target_segments t = Inr ss \<and> c = Some (join_with (CHR ''/'') ss)"
    and "rc \<in> {STATIC_FILE_OK, STATIC_FILE_FORBIDDEN, STATIC_FILE_BAD_TARGET, STATIC_FILE_OUT_OF_MEMORY}"
    and "never_fails h \<Longrightarrow> never_fails h' \<and> rc = (case target_segments t of Inl e \<Rightarrow> e | Inr _ \<Rightarrow> STATIC_FILE_OK)"
    by blast+
qed

section \<open>Confinement\<close>

text \<open>What the functions below may change: memory, the closed and the opened descriptors.\<close>

definition site_frame :: "'a site_scheme \<Rightarrow> 'a site_scheme \<Rightarrow> bool" where
  "site_frame w w' =
     (w' = w\<lparr>mem := mem w', closed := closed w', fs_calls := fs_calls w', opened := opened w'\<rparr>
      \<and> fs_calls w \<le> fs_calls w')"

lemma site_frame_refl [simp]: "site_frame w w"
  by (simp add: site_frame_def)

lemma site_frame_trans [trans]: "site_frame w w1 \<Longrightarrow> site_frame w1 w2 \<Longrightarrow> site_frame w w2"
  by (cases w; cases w1; cases w2) (simp add: site_frame_def)

lemma site_frame_keeps:
  assumes "site_frame w w'"
  shows "fs_at w' = fs_at w" "file_data w' = file_data w" "sent w' = sent w" "sends w' = sends w"
    "sendfiles w' = sendfiles w" "reads w' = reads w" "seeks w' = seeks w" "site.more w' = site.more w"
    "fs_calls w \<le> fs_calls w'"
  using assms by (cases w; cases w'; simp add: site_frame_def)+

lemma site_frame_mem [simp]: "site_frame w (w\<lparr>mem := h\<rparr>)"
  by (simp add: site_frame_def)

lemma destroy_frame:
  "http_response_destroy r w = (r', w') \<Longrightarrow> w' = w\<lparr>mem := mem w', closed := closed w'\<rparr>"
  by (auto simp: http_response_destroy_def clear_body_def close_body_def free_body_def os_close_def Let_def
      split: if_splits)

lemma destroy_site_frame:
  assumes "http_response_destroy r w = (r', w')"
  shows "site_frame w w'" and "opened w' = opened w" and "fs_calls w' = fs_calls w"
  using destroy_frame [OF assms] by (cases w; cases w'; simp add: site_frame_def)+

lemma fs_call_frame:
  "os_realpath p w = (a, w') \<Longrightarrow> site_frame w w' \<and> opened w' = opened w \<and> closed w' = closed w \<and> mem w' = mem w
     \<and> a = fs_realpath (fs_at w (fs_calls w)) p"
  "os_stat p w = (b, w') \<Longrightarrow> site_frame w w' \<and> opened w' = opened w \<and> closed w' = closed w \<and> mem w' = mem w
     \<and> b = fs_stat (fs_at w (fs_calls w)) p"
  "os_fstat fd w = (c, w') \<Longrightarrow> site_frame w w' \<and> opened w' = opened w \<and> closed w' = closed w \<and> mem w' = mem w
     \<and> c = fs_fstat (fs_at w (fs_calls w)) fd"
  "os_open p w = (d, w') \<Longrightarrow> site_frame w w' \<and> closed w' = closed w \<and> mem w' = mem w
     \<and> d = fs_open (fs_at w (fs_calls w)) p
     \<and> opened w' = opened w @ (case d of Inl _ \<Rightarrow> [] | Inr fd \<Rightarrow> [(p, int fd)])"
  by (auto simp: os_realpath_def os_stat_def os_fstat_def os_open_def site_frame_def Let_def)

definition root_path :: "string \<Rightarrow> string \<Rightarrow> string" where
  "root_path root relative = (if relative = [] then root else root @ ''/'' @ relative)"

lemma path_is_within_root_iff:
  "path_is_within_root p root \<longleftrightarrow> p = root \<or> (\<exists>rest. p = root @ CHR ''/'' # rest)"
proof
  assume w: "path_is_within_root p root"
  then have p: "p = root @ drop (length root) p"
    by (metis append_take_drop_id path_is_within_root_def)
  show "p = root \<or> (\<exists>rest. p = root @ CHR ''/'' # rest)"
  proof (cases "drop (length root) p")
    case Nil
    with p show ?thesis by simp
  next
    case (Cons x xs)
    with w nth_via_drop [OF Cons] have "x = CHR ''/''"
      by (auto simp: path_is_within_root_def split: if_splits)
    with p Cons show ?thesis by metis
  qed
qed (auto simp: path_is_within_root_def)

text \<open>A path that was found: where it came from.\<close>

definition found ::
  "'a site_scheme \<Rightarrow> string \<Rightarrow> string \<Rightarrow> string \<Rightarrow> bool" where
  "found w root relative p = (path_is_within_root p root
     \<and> (\<exists>k\<ge>fs_calls w. fs_realpath (fs_at w k) (root_path root relative) = Inr p))"

lemma found_mono: "site_frame w w' \<Longrightarrow> found w' root rel p \<Longrightarrow> found w root rel p"
  unfolding found_def by (metis site_frame_keeps(1,9) le_trans)

lemma resolve_under_root_facts:
  assumes "resolve_under_root root rel w = (rc, res, sz, d, w')"
  shows "site_frame w w' \<and> closed w' = closed w \<and> opened w' = opened w
    \<and> live (mem w') = live (mem w) + blocks res
    \<and> (if rc = STATIC_FILE_OK then \<exists>p. res = Some p \<and> found w root rel p else res = None)"
proof (cases "length (root_path root rel) < PATH_MAX")
  case False
  with assms show ?thesis
    by (auto simp: resolve_under_root_def join_root_relative_def root_path_def Let_def split: if_splits)
next
  case True
  then have j: "join_root_relative root rel PATH_MAX = (STATIC_FILE_OK, root_path root rel)"
    by (simp add: join_root_relative_def root_path_def Let_def)
  obtain a w1 where r: "os_realpath (root_path root rel) w = (a, w1)" by fastforce
  note rf = fs_call_frame(1) [OF r]
  show ?thesis
  proof (cases a)
    case (Inl e)
    with assms j r have "w' = w1" "res = None" "rc \<noteq> STATIC_FILE_OK"
      by (auto simp: resolve_under_root_def split: if_splits)
    with rf show ?thesis by simp
  next
    case (Inr p)
    show ?thesis
    proof (cases "path_is_within_root p root")
      case False
      with assms j r Inr have "w' = w1" "res = None" "rc \<noteq> STATIC_FILE_OK" by (auto simp: resolve_under_root_def)
      with rf show ?thesis by simp
    next
      case within: True
      have fnd: "found w root rel p" unfolding found_def using within rf Inr by (metis order_refl)
      obtain b w2 where s: "os_stat p w1 = (b, w2)" by fastforce
      note sf = fs_call_frame(2) [OF s]
      have fr: "site_frame w w2" using rf sf site_frame_trans by blast
      obtain m h where m: "malloc (mem w2) = (m, h)" by fastforce
      consider (fail) "w' = w2" "res = None" "rc \<noteq> STATIC_FILE_OK"
        | (oom) "w' = w2\<lparr>mem := h\<rparr>" "\<not> m" "res = None" "rc \<noteq> STATIC_FILE_OK"
        | (good) "w' = w2\<lparr>mem := h\<rparr>" "m" "res = Some p" "rc = STATIC_FILE_OK"
        using assms j r Inr within s m
        by (cases b) (auto simp: resolve_under_root_def Let_def split: if_splits)
      then show ?thesis
        by cases (use fr rf sf fnd malloc_live [OF m] in \<open>auto intro: site_frame_trans\<close>)
    qed
  qed
qed

definition index_of :: "string \<Rightarrow> string" where
  "index_of relative = (if relative = [] then ''index.html'' else relative @ ''/index.html'')"

lemma try_index_facts:
  assumes "try_index root rel w = (rc, res, sz, w')"
  shows "site_frame w w' \<and> closed w' = closed w \<and> opened w' = opened w
    \<and> live (mem w') = live (mem w) + blocks res
    \<and> (if rc = STATIC_FILE_OK then \<exists>p. res = Some p \<and> found w root (index_of rel) p else res = None)"
proof (cases "PATH_MAX \<le> length (index_of rel)")
  case True
  with assms have "rc = STATIC_FILE_BAD_TARGET" "res = None" "w' = w"
    by (auto simp: try_index_def index_of_def Let_def)
  then show ?thesis by simp
next
  case False
  obtain rc1 res1 sz1 d w1 where r: "resolve_under_root root (index_of rel) w = (rc1, res1, sz1, d, w1)"
    by (metis prod_cases5)
  note rf = resolve_under_root_facts [OF r]
  have run: "(rc, res, sz, w') = (if rc1 = STATIC_FILE_OK \<and> d
      then (STATIC_FILE_FORBIDDEN, None, sz1, w1\<lparr>mem := c_free res1 (mem w1)\<rparr>) else (rc1, res1, sz1, w1))"
    unfolding assms [symmetric] using False r by (simp add: try_index_def index_of_def Let_def)
  show ?thesis
  proof (cases "rc1 = STATIC_FILE_OK \<and> d")
    case True
    with run have "rc = STATIC_FILE_FORBIDDEN" "res = None" "w' = w1\<lparr>mem := c_free res1 (mem w1)\<rparr>" by auto
    with rf show ?thesis by (auto intro: site_frame_trans)
  qed (use run rf in auto)
qed

lemma serve_resolve_facts:
  assumes "serve_resolve root rel w = (rc, res, sz, w')"
  shows "site_frame w w' \<and> closed w' = closed w \<and> opened w' = opened w
    \<and> live (mem w') = live (mem w) + blocks res
    \<and> (if rc = STATIC_FILE_OK
       then \<exists>p canonical rel'. res = Some p \<and> fs_realpath (fs_at w (fs_calls w)) root = Inr canonical
          \<and> rel' \<in> {rel, index_of rel} \<and> found w canonical rel' p
       else res = None)"
proof -
  obtain a w1 where r: "os_realpath root w = (a, w1)" by fastforce
  note rf = fs_call_frame(1) [OF r]
  show ?thesis
  proof (cases a)
    case (Inl e)
    with assms r have "rc = STATIC_FILE_IO_ERROR" "res = None" "w' = w1" by (auto simp: serve_resolve_def)
    with rf show ?thesis by simp
  next
    case (Inr c)
    obtain b w2 where s: "os_stat c w1 = (b, w2)" by fastforce
    note sf = fs_call_frame(2) [OF s]
    have fr: "site_frame w w2" using rf sf site_frame_trans by blast
    have canon: "fs_realpath (fs_at w (fs_calls w)) root = Inr c" using rf Inr by simp
    show ?thesis
    proof (cases "\<exists>st. b = Inr st \<and> st_mode st = S_DIR")
      case False
      with assms r Inr s have "rc = STATIC_FILE_IO_ERROR" "res = None" "w' = w2"
        by (cases b; auto simp: serve_resolve_def)+
      with rf sf fr show ?thesis by simp
    next
      case True
      obtain rc3 res3 sz3 d w3 where u: "resolve_under_root c rel w2 = (rc3, res3, sz3, d, w3)" by (metis prod_cases5)
      note uf = resolve_under_root_facts [OF u]
      have fr3: "site_frame w w3" using fr uf site_frame_trans by blast
      let ?w3 = "w3\<lparr>mem := c_free res3 (mem w3)\<rparr>"
      obtain rc4 res4 sz4 w4 where i: "try_index c rel ?w3 = (rc4, res4, sz4, w4)" by (metis prod_cases4)
      note xf = try_index_facts [OF i]
      have run: "(rc, res, sz, w') = (if rc3 = STATIC_FILE_OK \<and> d
          then (if rc4 = STATIC_FILE_NOT_FOUND then STATIC_FILE_FORBIDDEN else rc4, res4, sz4, w4)
          else (rc3, res3, sz3, w3))"
        unfolding assms [symmetric] using True r Inr s u i by (auto simp: serve_resolve_def)
      show ?thesis
      proof (cases "rc3 = STATIC_FILE_OK \<and> d")
        case True
        have fr4: "site_frame w w4" using fr3 xf site_frame_trans site_frame_mem by blast
        have fnd: "found w c (index_of rel) p" if "found ?w3 c (index_of rel) p" for p
          using found_mono [OF site_frame_trans [OF fr3 site_frame_mem] that] .
        from True run have "rc = (if rc4 = STATIC_FILE_NOT_FOUND then STATIC_FILE_FORBIDDEN else rc4)"
          "res = res4" "w' = w4" by auto
        moreover have "\<exists>p. res4 = Some p \<and> found w c (index_of rel) p" if "rc4 = STATIC_FILE_OK"
          using that xf fnd by auto
        moreover note canon
        ultimately show ?thesis using xf rf sf uf fr4 True by (auto split: if_splits)
      next
        case False
        with run have "rc = rc3" "res = res3" "w' = w3" by auto
        moreover have "\<exists>p. res3 = Some p \<and> found w c rel p" if "rc3 = STATIC_FILE_OK"
          using that uf found_mono [OF fr] by auto
        moreover note canon
        ultimately show ?thesis using uf rf sf fr3 by (auto split: if_splits)
      qed
    qed
  qed
qed

text \<open>The response for a file: what it says and what it owns.\<close>

definition file_response :: "string \<Rightarrow> int \<Rightarrow> int \<Rightarrow> http_response_t" where
  "file_response path fd file_size = http_response_init\<lparr>rs_status_code := 200, rs_reason_phrase := Some ''OK'',
     rs_headers := Some [\<lparr>hd_name = ''Content-Type'', hd_value = mime_type_from_path (Some path)\<rparr>],
     rs_body_kind := HTTP_BODY_FILE, rs_file_fd := fd, rs_body_length := nat file_size\<rparr>"

lemma file_fail_facts:
  assumes "file_fail c fd r w = (rc, r', w')"
  shows "rc = c" "r' = http_response_init" "site_frame w w'" "opened w' = opened w"
    "live (mem w') = live (mem w) - response_blocks r" "closed w' = closed w @ [fd] @ response_fds r"
proof -
  obtain r1 w1 where d: "http_response_destroy r (os_close fd w) = (r1, w1)" by fastforce
  with assms have "rc = c" "r' = r1" "w' = w1" by (auto simp: file_fail_def)
  moreover have "site_frame w (os_close fd w)" by (simp add: site_frame_def os_close_def)
  moreover have "opened (os_close fd w) = opened w" by (simp add: os_close_def)
  ultimately show "rc = c" "r' = http_response_init" "site_frame w w'" "opened w' = opened w"
    "live (mem w') = live (mem w) - response_blocks r" "closed w' = closed w @ [fd] @ response_fds r"
    using destroy_facts [OF d] destroy_site_frame [OF d] by (auto intro: site_frame_trans)
qed

lemma fill_file_response_facts:
  assumes "fill_file_response http_response_init p n lb w = (rc, r', w')"
  shows "site_frame w w' \<and> (\<exists>new. set new \<subseteq> {p} \<times> UNIV \<and> opened w' = opened w @ new \<and> length new \<le> 1
      \<and> balanced http_response_init w (map snd new) r' w')
    \<and> (rc = STATIC_FILE_OK \<longrightarrow> (\<exists>fd st k. r' = file_response p (int fd) (st_size st) \<and> fs_calls w \<le> k
        \<and> opened w' = opened w @ [(p, int fd)]
        \<and> fs_fstat (fs_at w k) (int fd) = Some st \<and> st_mode st = S_REG
        \<and> 0 \<le> st_size st \<and> st_size st \<le> int HTTP_MAX_STATIC_FILE_SIZE))"
proof -
  obtain r0 w1 where d: "http_response_destroy http_response_init w = (r0, w1)" by fastforce
  note df = destroy_facts [OF d] destroy_site_frame [OF d]
  let ?r1 = "http_response_set_status http_response_init 200"
  obtain ok r h where a: "http_response_add_header ?r1 ''Content-Type'' (mime_type_from_path (Some p)) (mem w1) = (ok, r, h)"
    by (metis prod_cases3)
  note af = add_header_facts(1) [OF a]
  let ?w1 = "w1\<lparr>mem := h\<rparr>"
  have b1: "balanced http_response_init w [] r ?w1"
    using balanced_trans [OF destroy_balanced [OF d, unfolded df(1)]
        balanced_trans [OF set_status_balanced [of _ _ 200] add_header_balanced [OF a]]] by simp
  have fr1: "site_frame w ?w1" using df(4) site_frame_trans site_frame_mem by blast
  have op1: "opened ?w1 = opened w" using df(5) by simp
  show ?thesis
  proof (cases ok)
    case False
    with assms d a have "rc = STATIC_FILE_OUT_OF_MEMORY" "r' = r" "w' = ?w1"
      by (auto simp: fill_file_response_def)
    with b1 fr1 op1 show ?thesis by (auto intro!: exI [of _ "[]"])
  next
    case ok: True
    then have r: "r = ?r1\<lparr>rs_headers := Some [\<lparr>hd_name = ''Content-Type'', hd_value = mime_type_from_path (Some p)\<rparr>]\<rparr>"
      using af by (simp add: http_response_set_status_def http_response_init_def header_list_def)
    have r_fds: "response_fds r = []"
      unfolding r by (simp add: response_fds_def http_response_set_status_def http_response_init_def)
    obtain e w2 where o: "os_open p ?w1 = (e, w2)" by fastforce
    note of = fs_call_frame(4) [OF o]
    have fr2: "site_frame w w2" using fr1 of site_frame_trans by blast
    show ?thesis
    proof (cases e)
      case (Inl x)
      obtain r3 w3 where d3: "http_response_destroy r w2 = (r3, w3)" by fastforce
      have "rc \<noteq> STATIC_FILE_OK" "r' = r3" "w' = w3"
        using assms d a ok o Inl d3 by (auto simp: fill_file_response_def split: if_splits)
      moreover have "balanced r w2 [] r3 w3" by (rule destroy_balanced [OF d3])
      moreover have "balanced http_response_init w [] r w2" using b1 of by (simp add: balanced_def)
      moreover have "opened w2 = opened w" using of op1 unfolding Inl by simp
      moreover have "site_frame w w3" using site_frame_trans [OF fr2 destroy_site_frame(1) [OF d3]] .
      ultimately show ?thesis
        using balanced_trans [of http_response_init w "[]" r w2 "[]" r3 w3] destroy_site_frame(2) [OF d3]
        by (auto intro!: exI [of _ "[]"])
    next
      case (Inr fd)
      obtain st w3 where s: "os_fstat (int fd) w2 = (st, w3)" by fastforce
      note sf = fs_call_frame(3) [OF s]
      have fr3: "site_frame w w3" using fr2 sf site_frame_trans by blast
      have "opened w2 = opened w @ [(p, int fd)]" using of op1 unfolding Inr by simp
      then have op3: "opened w3 = opened w @ [(p, int fd)]" using sf by metis
      have b3: "balanced http_response_init w [] r w3" using b1 of sf by (simp add: balanced_def)
      have fail: ?thesis if "file_fail c (int fd) r w3 = (rc, r', w')" "c \<noteq> STATIC_FILE_OK" for c
      proof -
        note ff = file_fail_facts [OF that(1)]
        have "balanced http_response_init w [int fd] r' w'"
          using ff(2,5,6) b3 r_fds by (simp add: balanced_def)
        with ff(1,3,4) that(2) fr3 op3 show ?thesis
          by (auto intro!: exI [of _ "[(p, int fd)]"] intro: site_frame_trans)
      qed
      show ?thesis
      proof (cases "\<exists>t. st = Some t \<and> st_mode t = S_REG \<and> 0 \<le> st_size t \<and> st_size t \<le> int HTTP_MAX_STATIC_FILE_SIZE")
        case False
        then obtain c where "file_fail c (int fd) r w3 = (rc, r', w')" "c \<noteq> STATIC_FILE_OK"
          using assms d a ok o Inr s
          by (cases st) (auto simp: fill_file_response_def split: if_splits)
        then show ?thesis by (rule fail)
      next
        case True
        then obtain t where t: "st = Some t" "st_mode t = S_REG" "0 \<le> st_size t"
          "st_size t \<le> int HTTP_MAX_STATIC_FILE_SIZE" by blast
        then have sm: "\<not> int SIZE_MAX < st_size t" by (simp add: HTTP_MAX_STATIC_FILE_SIZE_def SIZE_MAX_def)
        obtain g r4 w4 where b: "http_response_set_file_body r (int fd) (st_size t) w3 = (g, r4, w4)" by (metis prod_cases3)
        have g: "g" "r4 = file_response p (int fd) (st_size t)" "w4 = w3"
          using b t(3) sm
          by (auto simp: http_response_set_file_body_def clear_body_def close_body_def free_body_def r
              file_response_def http_response_set_status_def http_response_init_def http_reason_phrase_def)
        have run: "rc = STATIC_FILE_OK" "r' = r4" "w' = w4"
          using assms d a ok o Inr s t b g(1) sm by (auto simp: fill_file_response_def)
        have "balanced r w3 [int fd] r4 w4" using set_file_body_balanced [OF b] g(1) by simp
        then have "balanced http_response_init w [int fd] r' w'" using balanced_trans [OF b3] run by simp
        moreover have "fs_fstat (fs_at w (fs_calls w2)) (int fd) = Some t" "fs_calls w \<le> fs_calls w2"
          using sf t(1) site_frame_keeps(1,9) [OF fr2] by auto
        ultimately show ?thesis using run g t fr3 op3 by auto
      qed
    qed
  qed
qed

lemma destroy_never_fails:
  "http_response_destroy r w = (r', w') \<Longrightarrow> never_fails (mem w') = never_fails (mem w)"
proof -
  assume "http_response_destroy r w = (r', w')"
  then have "w' = close_body r (free_body r (w\<lparr>mem := free_headers (rs_headers r) (mem w)\<rparr>))"
    by (simp add: http_response_destroy_def clear_body_def)
  moreover have "mem (close_body r x) = mem x" for x :: "'a world_scheme" by (simp add: close_body_def)
  moreover have "outcomes (mem (free_body r x)) = outcomes (mem x)" for x :: "'a world_scheme" by (simp add: free_body_def)
  ultimately show ?thesis by (simp add: never_fails_def)
qed

lemma fill_file_response_finds:
  assumes "fs_at w = (\<lambda>_. F)" and "never_fails (mem w)" and "fs_open F p = Inr fd"
    and "fs_fstat F (int fd) = Some st" and "st_mode st = S_REG" and "0 \<le> st_size st"
    and "st_size st \<le> int HTTP_MAX_STATIC_FILE_SIZE"
  shows "\<exists>w'. fill_file_response http_response_init p n lb w = (STATIC_FILE_OK, file_response p (int fd) (st_size st), w')"
proof -
  obtain r0 w1 where d: "http_response_destroy http_response_init w = (r0, w1)" by fastforce
  let ?r1 = "http_response_set_status http_response_init 200"
  obtain ok r h where a: "http_response_add_header ?r1 ''Content-Type'' (mime_type_from_path (Some p)) (mem w1) = (ok, r, h)"
    by (metis prod_cases3)
  have ok: "ok" using add_header_facts(3) [OF a] destroy_never_fails [OF d] assms(2) by simp
  have "fs_at w1 = (\<lambda>_. F)" using site_frame_keeps(1) [OF destroy_site_frame(1) [OF d]] assms(1) by simp
  moreover have "\<not> int SIZE_MAX < st_size st" using assms(7) by (simp add: HTTP_MAX_STATIC_FILE_SIZE_def SIZE_MAX_def)
  moreover have r: "r = ?r1\<lparr>rs_headers := Some [\<lparr>hd_name = ''Content-Type'', hd_value = mime_type_from_path (Some p)\<rparr>]\<rparr>"
    using add_header_facts(1) [OF a] ok by (simp add: http_response_set_status_def http_response_init_def header_list_def)
  ultimately show ?thesis
    using assms ok unfolding fill_file_response_def d prod.case a
    by (simp add: os_open_def os_fstat_def Let_def http_response_set_file_body_def clear_body_def close_body_def free_body_def
        file_response_def http_response_set_status_def http_response_init_def http_reason_phrase_def)
qed

lemma join_with_snoc:
  "ss \<noteq> [] \<Longrightarrow> join_with c (ss @ [s]) = join_with c ss @ c # s"
  by (induction c ss rule: join_with.induct) auto

lemma join_with_Nil_iff: "\<forall>s\<in>set ss. s \<noteq> [] \<Longrightarrow> join_with c ss = [] \<longleftrightarrow> ss = []"
  by (induction c ss rule: join_with.induct) auto

lemma index_of_join:
  assumes "\<forall>s\<in>set ss. plain s"
  shows "index_of (join_with (CHR ''/'') ss) = join_with (CHR ''/'') (ss @ [''index.html''])"
proof (cases "ss = []")
  case False
  have "\<forall>s\<in>set ss. s \<noteq> []" using assms by (simp add: plain_def)
  with False show ?thesis by (simp add: index_of_def join_with_snoc join_with_Nil_iff)
qed (simp add: index_of_def)

text \<open>
  Where an opened file may come from: the canonical root, the segments of the target (or those of
  its index page), and an answer of \<open>realpath\<close> that lies under the root.
\<close>

definition served_from :: "'a site_scheme \<Rightarrow> string \<Rightarrow> string \<Rightarrow> string \<Rightarrow> bool" where
  "served_from w root t p = (\<exists>canonical ss segs. fs_realpath (fs_at w (fs_calls w)) root = Inr canonical
     \<and> target_segments t = Inr ss \<and> segs \<in> {ss, ss @ [''index.html'']}
     \<and> found w canonical (join_with (CHR ''/'') segs) p)"

lemma serve_facts:
  assumes "static_files_serve (Some root) req r lb w = (rc, r', w')" and "rq_target req = Some t"
  shows "site_frame w w' \<and> (\<exists>new. opened w' = opened w @ new \<and> length new \<le> 1
      \<and> balanced r w (map snd new) r' w' \<and> (\<forall>x\<in>set new. served_from w root t (fst x)))
    \<and> (if rc = STATIC_FILE_OK
       then \<exists>p fd st k. r' = file_response p (int fd) (st_size st) \<and> fs_calls w \<le> k
          \<and> opened w' = opened w @ [(p, int fd)]
          \<and> fs_fstat (fs_at w k) (int fd) = Some st \<and> st_mode st = S_REG
          \<and> 0 \<le> st_size st \<and> st_size st \<le> int HTTP_MAX_STATIC_FILE_SIZE
       else r' = http_response_init)"
proof -
  obtain r0 w1 where d: "http_response_destroy r w = (r0, w1)" by fastforce
  note df = destroy_facts [OF d] destroy_site_frame [OF d]
  obtain rc2 a b c h2 where sp: "serve_path (Some t) (mem w1) = (rc2, a, b, c, h2)" by (metis prod_cases5)
  note pf = serve_path_facts [OF sp]
  let ?w2 = "w1\<lparr>mem := h2\<rparr>"
  have fr2: "site_frame w ?w2" using df(4) site_frame_trans site_frame_mem by blast
  define fin where "fin = (\<lambda>(res :: string option) (w6 :: 'a site_scheme). w6\<lparr>mem := c_free res (c_free c (c_free b (c_free a (mem w6))))\<rparr>)"
  have fin: "site_frame w (fin res w6)" "opened (fin res w6) = opened w6" "closed (fin res w6) = closed w6"
      "live (mem (fin res w6)) = live (mem w6) - blocks a - blocks b - blocks c - blocks res"
      if "site_frame w w6" for res w6
    using site_frame_trans [OF that site_frame_mem] by (simp_all add: fin_def)
  show ?thesis
  proof (cases "rc2 = STATIC_FILE_OK")
    case False
    then have "rc = rc2" "r' = http_response_init" "w' = fin None ?w2"
      using assms d sp by (auto simp: static_files_serve_def fin_def)
    moreover have "balanced r w [] http_response_init (fin None ?w2)"
      using fin(3,4) [OF fr2, of None] pf(1) df by (simp add: balanced_def)
    ultimately show ?thesis using fin(1,2) [OF fr2, of None] df(5) False by (auto intro!: exI [of _ "[]"])
  next
    case ok2: True
    then obtain ss where ss: "target_segments t = Inr ss" "c = Some (join_with (CHR ''/'') ss)" using pf(2) by blast
    have plain: "\<forall>s\<in>set ss. plain s" using target_segments_plain [OF ss(1)] by simp
    obtain rc3 res sz w3 where sr: "serve_resolve root (join_with (CHR ''/'') ss) ?w2 = (rc3, res, sz, w3)"
      by (metis prod_cases4)
    note rf = serve_resolve_facts [OF sr]
    have fr3: "site_frame w w3" using fr2 rf site_frame_trans by blast
    have live3: "live (mem w3) = live (mem w) - response_blocks r + blocks a + blocks b + blocks c + blocks res"
      using rf pf(1) df(2) by simp
    show ?thesis
    proof (cases "rc3 = STATIC_FILE_OK")
      case False
      then have "rc = rc3" "r' = http_response_init" "w' = fin res w3"
        using assms d sp ok2 ss sr by (auto simp: static_files_serve_def fin_def)
      moreover have "balanced r w [] http_response_init (fin res w3)"
        using fin(3,4) [OF fr3, of res] live3 rf df(3) by (simp add: balanced_def)
      ultimately show ?thesis using fin(1,2) [OF fr3, of res] rf df(5) False by (auto intro!: exI [of _ "[]"])
    next
      case ok3: True
      then obtain p canonical rel' where res: "res = Some p"
        and can: "fs_realpath (fs_at ?w2 (fs_calls ?w2)) root = Inr canonical"
        and rel': "rel' \<in> {join_with (CHR ''/'') ss, index_of (join_with (CHR ''/'') ss)}"
        and fnd: "found ?w2 canonical rel' p" using rf by auto
      have srv: "served_from w root t p"
        unfolding served_from_def
        using can rel' found_mono [OF fr2 fnd] ss(1) index_of_join [OF plain] site_frame_keeps(1) [OF fr2] df(6)
        by auto
      obtain rc4 r4 w4 where fl: "fill_file_response http_response_init p sz lb w3 = (rc4, r4, w4)" by (metis prod_cases3)
      from fill_file_response_facts [OF fl] obtain new where ff: "site_frame w3 w4" "set new \<subseteq> {p} \<times> UNIV"
        "opened w4 = opened w3 @ new" "length new \<le> 1" "balanced http_response_init w3 (map snd new) r4 w4"
        and ffok: "rc4 = STATIC_FILE_OK \<longrightarrow> (\<exists>fd st k. r4 = file_response p (int fd) (st_size st) \<and> fs_calls w3 \<le> k
          \<and> opened w4 = opened w3 @ [(p, int fd)]
          \<and> fs_fstat (fs_at w3 k) (int fd) = Some st \<and> st_mode st = S_REG
          \<and> 0 \<le> st_size st \<and> st_size st \<le> int HTTP_MAX_STATIC_FILE_SIZE)" by blast
      have fr4: "site_frame w w4" using fr3 ff(1) site_frame_trans by blast
      have new: "\<forall>x\<in>set new. served_from w root t (fst x)" using ff(2) srv by auto
      have b4: "closed w4 @ response_fds r4 = closed w @ response_fds r @ map snd new"
          "live (mem w4) - response_blocks r4 = live (mem w) - response_blocks r + blocks a + blocks b + blocks c + blocks res"
        using ff(5) rf df(3) live3 by (simp_all add: balanced_def)
      have op4: "opened w4 = opened w @ new" using ff(3) rf df(5) by simp
      show ?thesis
      proof (cases "rc4 = STATIC_FILE_OK")
        case True
        then have run: "rc = STATIC_FILE_OK" "r' = r4" "w' = fin res w4"
          using assms d sp ok2 ss sr ok3 res fl by (auto simp: static_files_serve_def fin_def)
        moreover have "balanced r w (map snd new) r4 (fin res w4)"
          using fin(3,4) [OF fr4, of res] b4 by (simp add: balanced_def)
        moreover obtain fd st k where ok4: "r4 = file_response p (int fd) (st_size st)" "fs_calls w3 \<le> k"
          "opened w4 = opened w3 @ [(p, int fd)]"
          "fs_fstat (fs_at w3 k) (int fd) = Some st" "st_mode st = S_REG"
          "0 \<le> st_size st" "st_size st \<le> int HTTP_MAX_STATIC_FILE_SIZE" using ffok True by blast
        moreover have "fs_calls w \<le> k" "fs_fstat (fs_at w k) (int fd) = Some st"
          using ok4 site_frame_keeps(1,9) [OF fr3] by auto
        moreover have "opened w3 = opened w" using rf df(5) by simp
        ultimately show ?thesis using fin(1,2) [OF fr4, of res] op4 ff(4) new by auto
      next
        case False
        obtain r5 w5 where d5: "http_response_destroy r4 w4 = (r5, w5)" by fastforce
        note df5 = destroy_facts [OF d5] destroy_site_frame [OF d5]
        have fr5: "site_frame w w5" using fr4 df5(4) site_frame_trans by blast
        have run: "rc = rc4" "r' = http_response_init" "w' = fin res w5"
          using assms d sp ok2 ss sr ok3 res fl False d5 df5(1) by (auto simp: static_files_serve_def fin_def)
        moreover have "balanced r w (map snd new) http_response_init (fin res w5)"
          using fin(3,4) [OF fr5, of res] b4 df5(2,3) by (simp add: balanced_def)
        ultimately show ?thesis using fin(1,2) [OF fr5, of res] op4 df5(5) ff(4) new False by auto
      qed
    qed
  qed
qed

section \<open>Error pages\<close>

text \<open>The books when descriptors may be closed in another order than they were handed over.\<close>

definition books ::
  "http_response_t \<Rightarrow> 'a world_scheme \<Rightarrow> int list \<Rightarrow> http_response_t \<Rightarrow> 'a world_scheme \<Rightarrow> bool" where
  "books r w fds r' w' =
     (live (mem w') - response_blocks r' = live (mem w) - response_blocks r
      \<and> mset (closed w') + mset (response_fds r') = mset (closed w) + mset (response_fds r) + mset fds)"

lemma balanced_books: "balanced r w fds r' w' \<Longrightarrow> books r w fds r' w'"
  unfolding balanced_def books_def by (metis append_assoc mset_append)

lemma set_body_text_frame:
  "http_response_set_body_text r t w = (ok, r', w') \<Longrightarrow> w' = w\<lparr>mem := mem w', closed := closed w'\<rparr>"
  by (auto simp: http_response_set_body_text_def http_response_set_body_owned_def clear_body_def close_body_def
      free_body_def os_close_def split: if_splits option.splits prod.splits)

lemma resp_frame_trans:
  "w1 = w\<lparr>mem := mem w1, closed := closed w1\<rparr> \<Longrightarrow> w2 = w1\<lparr>mem := mem w2, closed := closed w2\<rparr> \<Longrightarrow>
   w2 = w\<lparr>mem := mem w2, closed := closed w2\<rparr>"
  by (cases w; cases w1; cases w2) simp

lemma resp_site_frame:
  assumes "(w' :: 'a site_scheme) = w\<lparr>mem := mem w', closed := closed w'\<rparr>"
  shows "site_frame w w'" and "opened w' = opened w" and "fs_calls w' = fs_calls w"
  using assms by (cases w; cases w'; simp add: site_frame_def)+

lemma build_error_facts:
  assumes "static_files_build_error r c heading w = (ok, r', w')"
  shows "balanced r w [] r' w'" and "w' = w\<lparr>mem := mem w', closed := closed w'\<rparr>"
    and "response_ok r \<Longrightarrow> response_ok r'" and "ok \<Longrightarrow> rs_status_code r' = c"
proof -
  define body where "body = (let title = print_int c @ '' '' @ heading in
      ''<!doctype html>'' @ [LF] @ ''<html><head><title>'' @ title @ ''</title></head>''
            @ ''<body><h1>'' @ title @ ''</h1></body></html>'' @ [LF])"
  obtain r0 w1 where d: "http_response_destroy r w = (r0, w1)" by fastforce
  let ?r1 = "http_response_set_status http_response_init c"
  obtain g r2 w2 where t: "http_response_set_body_text ?r1 (Some body) w1 = (g, r2, w2)" by (metis prod_cases3)
  obtain a r3 h3 where h: "http_response_add_header r2 ''Content-Type'' ''text/html; charset=utf-8'' (mem w2) = (a, r3, h3)"
    by (metis prod_cases3)
  have run: "(ok, r', w') = (if 512 \<le> length body then (False, r, w)
      else if \<not> g then (False, r2, w2) else (a, r3, w2\<lparr>mem := h3\<rparr>))"
    unfolding assms [symmetric] static_files_build_error_def body_def [unfolded Let_def, symmetric] Let_def d prod.case t h
    by simp
  have b1: "balanced r w [] ?r1 w1"
    using balanced_trans [OF destroy_balanced [OF d, unfolded destroy_facts(1) [OF d]] set_status_balanced [of _ _ c]] by simp
  note b2 = balanced_trans [OF b1 set_body_text_balanced [OF t]]
  note b3 = balanced_trans [OF b2 add_header_balanced [OF h]]
  note fr2 = resp_frame_trans [OF destroy_frame [OF d] set_body_text_frame [OF t]]
  have fr3: "w2\<lparr>mem := h3\<rparr> = w\<lparr>mem := h3, closed := closed w2\<rparr>" by (subst fr2) simp
  show "balanced r w [] r' w'" using run b2 b3 balanced_refl [of r w] by (auto split: if_splits)
  show "w' = w\<lparr>mem := mem w', closed := closed w'\<rparr>" using run fr2 fr3 by (auto split: if_splits)
  have ok2: "response_ok r2" using response_ok_set_body_text [OF t] by simp
  show "response_ok r'" if "response_ok r"
    using run that ok2 response_ok_add_header [OF h] by (auto split: if_splits)
  have "rs_status_code r2 = c" if g
    using t that by (auto simp: http_response_set_body_text_def http_response_set_body_owned_def clear_body_def
        http_response_set_status_def split: prod.splits if_splits)
  then show "rs_status_code r' = c" if ok
    using run that add_header_facts(1) [OF h] by (auto split: if_splits)
qed

lemma file_response_simps [simp]:
  "response_ok (file_response p (int fd) n)" "response_fds (file_response p (int fd) n) = [int fd]"
  "rs_status_code (file_response p (int fd) n) = 200"
  by (simp_all add: file_response_def response_ok_def response_fds_def http_response_init_def)

lemma set_status_owns [simp]:
  "response_blocks (http_response_set_status r c) = response_blocks r"
  "response_fds (http_response_set_status r c) = response_fds r"
  "rs_status_code (http_response_set_status r c) = c"
  by (simp_all add: http_response_set_status_def response_blocks_def response_fds_def)

lemma build_not_found_facts:
  assumes "static_files_build_not_found (Some root) r w = (ok, r', w')"
  shows "site_frame w w' \<and> (\<exists>new. opened w' = opened w @ new \<and> length new \<le> 1
      \<and> books r w (map snd new) r' w' \<and> (\<forall>x\<in>set new. served_from w root ''/404.html'' (fst x)))
    \<and> (response_ok r \<longrightarrow> response_ok r') \<and> (ok \<longrightarrow> rs_status_code r' = 404)"
proof -
  define fake where "fake = http_request_init\<lparr>rq_method := HTTP_METHOD_GET, rq_target := Some ''/404.html'',
    rq_version := Some ''HTTP/1.1''\<rparr>"
  obtain rc page w1 where sv: "static_files_serve (Some root) fake http_response_init True w = (rc, page, w1)"
    by (metis prod_cases3)
  have t: "rq_target fake = Some ''/404.html''" by (simp add: fake_def)
  from serve_facts [OF sv t] obtain new where sf: "site_frame w w1" "opened w1 = opened w @ new" "length new \<le> 1"
    "balanced http_response_init w (map snd new) page w1" "\<forall>x\<in>set new. served_from w root ''/404.html'' (fst x)"
    and page: "if rc = STATIC_FILE_OK then \<exists>p fd n. page = file_response p (int fd) n else page = http_response_init"
    by (cases "rc = STATIC_FILE_OK") auto
  have fd: "http_request_destroy (fake\<lparr>rq_target := None, rq_version := None\<rparr>) (mem w1) = (http_request_init, mem w1)"
    by (simp add: http_request_destroy_def fake_def http_request_init_def free_headers_def Let_def c_free_def)
  have books: "live (mem w1) - response_blocks page = live (mem w)"
      "closed w1 @ response_fds page = closed w @ map snd new"
    using sf(4) by (simp_all add: balanced_def)
  show ?thesis
  proof (cases "rc = STATIC_FILE_OK")
    case True
    obtain r2 w2 where d: "http_response_destroy r w1 = (r2, w2)" by fastforce
    have run: "ok" "r' = http_response_set_status page 404" "w' = w2"
      using assms sv fd d True unfolding static_files_build_not_found_def fake_def [symmetric] by auto
    have "books r w (map snd new) r' w'"
      unfolding books_def run
      using destroy_facts(2,3) [OF d] books(1) arg_cong [OF books(2), of mset] by (simp add: union_ac)
    moreover have "site_frame w w'" unfolding run using site_frame_trans [OF sf(1) destroy_site_frame(1) [OF d]] .
    ultimately show ?thesis
      using run sf(2,3,5) page True destroy_site_frame(2) [OF d] by auto
  next
    case False
    then have p: "page = http_response_init" using page by simp
    obtain r2 w2 where d: "http_response_destroy page w1 = (r2, w2)" by fastforce
    have run: "static_files_build_error r 404 ''Not Found'' w2 = (ok, r', w')"
      using assms sv fd d False unfolding static_files_build_not_found_def fake_def [symmetric] by auto
    note ef = build_error_facts [OF run]
    note ff = resp_site_frame [OF ef(2)]
    have "mset (closed w') + mset (response_fds r') = mset (closed w2) + mset (response_fds r)"
      using balanced_books [OF ef(1)] by (simp add: books_def)
    then have "books r w (map snd new) r' w'"
      unfolding books_def using ef(1) destroy_facts(2,3) [OF d] books p by (simp add: balanced_def)
    moreover have "site_frame w w'"
      using site_frame_trans [OF sf(1) site_frame_trans [OF destroy_site_frame(1) [OF d] ff(1)]] .
    ultimately show ?thesis
      using sf(2,3,5) ef(3,4) destroy_site_frame(2) [OF d] ff(2) by auto
  qed
qed

section \<open>Properties\<close>

definition sample_fs :: fsys where
  "sample_fs = \<lparr>
     fs_realpath = (\<lambda>p. if p = ''public'' then Inr ''/srv/www''
       else if p \<in> {''/srv/www'', ''/srv/www/a b.css'', ''/srv/www/d''} then Inr p
       else if p = ''/srv/www/link'' then Inr ''/srv/wwwother/secret'' else Inl ENOENT),
     fs_stat = (\<lambda>p. if p \<in> {''/srv/www'', ''/srv/www/d''} then Inr \<lparr>st_mode = S_DIR, st_size = 4096\<rparr>
       else if p = ''/srv/www/a b.css'' then Inr \<lparr>st_mode = S_REG, st_size = 5\<rparr> else Inl ENOENT),
     fs_open = (\<lambda>p. if p = ''/srv/www/a b.css'' then Inr 7 else Inl ENOENT),
     fs_fstat = (\<lambda>fd. if fd = 7 then Some \<lparr>st_mode = S_REG, st_size = 5\<rparr> else None)\<rparr>"

definition sample_site :: site where
  "sample_site = \<lparr>mem = \<lparr>outcomes = [], live = 0\<rparr>, closed = [], sent = [],
     sends = [SENT 1000, SENT 1000], sendfiles = [SENDFILE 5], reads = [], seeks = [],
     file_data = (\<lambda>fd. if fd = 7 then ''hello'' else []),
     fs_at = (\<lambda>_. sample_fs), fs_calls = 0, opened = []\<rparr>"

definition sample_get :: "string \<Rightarrow> http_request_t" where
  "sample_get t = http_request_init\<lparr>rq_method := HTTP_METHOD_GET, rq_target := Some t,
     rq_version := Some ''HTTP/1.1''\<rparr>"

text \<open>
  C25. Percent-decoding is exact: unless memory runs out, a string is accepted if and only if it is
  a sequence of plain bytes other than \<open>%\<close> and of escapes with two hexadecimal digits, none of
  them the NUL byte, and the result is the sequence of the bytes they stand for, decoded once.
\<close>

theorem static_files_url_decode_exact:
  assumes "NUL \<notin> set s" and "static_files_url_decode (Some s) h = (rc, out, h')"
    and "rc \<noteq> STATIC_FILE_OUT_OF_MEMORY"
  shows "(\<forall>d. (rc = STATIC_FILE_OK \<and> out = Some d) \<longleftrightarrow>
        (\<exists>items. s = concat items \<and> list_all2 encodes items d) \<and> NUL \<notin> set d)
    \<and> (rc = STATIC_FILE_OK \<or> rc = STATIC_FILE_BAD_TARGET \<and> out = None)
    \<and> live h' = live h + blocks out"
proof -
  obtain m h1 where m: "malloc h = (m, h1)" by fastforce
  show ?thesis
  proof (cases "url_decode_loop s")
    case None
    with assms(2,3) m have "rc = STATIC_FILE_BAD_TARGET" "out = None" "live h' = live h"
      using malloc_live [OF m] by (auto simp: static_files_url_decode_def split: if_splits)
    with None url_decode_loop_iff [OF assms(1)] show ?thesis by simp
  next
    case (Some d)
    with assms(2,3) m have "rc = STATIC_FILE_OK" "out = Some d" "live h' = live h + 1"
      using malloc_live [OF m] by (auto simp: static_files_url_decode_def split: if_splits)
    with Some show ?thesis by (auto simp flip: url_decode_loop_iff [OF assms(1)])
  qed
qed

theorem static_files_url_decode_exact_witness:
  "\<exists>out h'. static_files_url_decode (Some ''/%252e%41'') \<lparr>outcomes = [], live = 0\<rparr> = (STATIC_FILE_OK, out, h')
     \<and> out = Some ''/%2eA'' \<and> live h' = 1 \<and> (\<exists>items. ''/%252e%41'' = concat items \<and> list_all2 encodes items ''/%2eA'')"
proof -
  have run: "static_files_url_decode (Some ''/%252e%41'') \<lparr>outcomes = [], live = 0\<rparr>
      = (STATIC_FILE_OK, Some ''/%2eA'', \<lparr>outcomes = [], live = 1\<rparr>)" by code_simp
  have "(\<exists>items. ''/%252e%41'' = concat items \<and> list_all2 encodes items ''/%2eA'')"
    using static_files_url_decode_exact [OF _ run] by (simp, blast)
  with run show ?thesis by simp
qed

text \<open>
  C24. Normalisation of a path: unless memory runs out, it is refused if and only if at some point
  it has gone up more often than down, and otherwise the result consists of plain names (not
  empty, not \<open>.\<close> or \<open>..\<close>, without a slash); normalising the result again changes nothing.
\<close>

theorem static_files_normalize_path_canonical:
  assumes "static_files_normalize_path (Some (CHR ''/'' # p)) h = (rc, out, h')" and "never_fails h"
  shows "(rc = STATIC_FILE_FORBIDDEN \<longleftrightarrow> (\<exists>k\<le>length (split_on (CHR ''/'') p).
        sum_list (map climb (take k (split_on (CHR ''/'') p))) < 0))
    \<and> (if rc = STATIC_FILE_FORBIDDEN then out = None
       else rc = STATIC_FILE_OK \<and> (\<exists>ss. out = Some (join_with (CHR ''/'') ss)
         \<and> (\<forall>s\<in>set ss. plain s \<and> CHR ''/'' \<notin> set s)
         \<and> fst (static_files_normalize_path (Some (CHR ''/'' # join_with (CHR ''/'') ss)) h') = STATIC_FILE_OK
         \<and> fst (snd (static_files_normalize_path (Some (CHR ''/'' # join_with (CHR ''/'') ss)) h')) = out))"
proof -
  note f = normalize_path_facts [OF assms(1)]
  have nf: "never_fails h'" "rc \<noteq> STATIC_FILE_OUT_OF_MEMORY" using f(6) assms(2) by simp_all
  show ?thesis
  proof (cases "rc = STATIC_FILE_FORBIDDEN")
    case True
    with f(3,4) walk_None_iff [of "[]" "split_on (CHR ''/'') p"] show ?thesis by simp
  next
    case False
    then have ok: "rc = STATIC_FILE_OK" using f(5) nf(2) by blast
    then obtain ss where ss: "walk [] (split_on (CHR ''/'') p) = Some ss" "out = Some (join_with (CHR ''/'') ss)"
      using f(2) by blast
    have pl: "\<forall>s\<in>set ss. plain s \<and> CHR ''/'' \<notin> set s"
      using walk_plain [OF ss(1)] walk_subset [OF ss(1)] split_on_no_sep [of _ "CHR ''/''" p] by auto
    obtain rc2 out2 h2 where again: "static_files_normalize_path (Some (CHR ''/'' # join_with (CHR ''/'') ss)) h' = (rc2, out2, h2)"
      by (metis prod_cases3)
    have w2: "walk [] (split_on (CHR ''/'') (join_with (CHR ''/'') ss)) = Some ss"
    proof (cases "ss = []")
      case False
      with pl walk_of_plain [of ss "[]"] show ?thesis by (simp add: split_on_join)
    qed simp
    note f2 = normalize_path_facts [OF again]
    have "rc2 = STATIC_FILE_OK" using f2(4,5,6) nf(1) w2 by auto
    with f2(2) w2 ss(2) have "out2 = out" by simp
    with ok ss pl again \<open>rc2 = STATIC_FILE_OK\<close> walk_None_iff [of "[]" "split_on (CHR ''/'') p"] show ?thesis by auto
  qed
qed

theorem static_files_normalize_path_canonical_witness:
  "fst (static_files_normalize_path (Some ''/a//./b/../c/'') fresh_heap) = STATIC_FILE_OK
   \<and> (\<exists>k\<le>length (split_on (CHR ''/'') ''a/../../etc/passwd'').
        sum_list (map climb (take k (split_on (CHR ''/'') ''a/../../etc/passwd''))) < 0)"
proof -
  have nf: "never_fails fresh_heap" by (simp add: fresh_heap_def never_fails_def)
  have bad: "static_files_normalize_path (Some (CHR ''/'' # ''a/../../etc/passwd'')) fresh_heap
      = (STATIC_FILE_FORBIDDEN, None, fresh_heap)" by code_simp
  have "fst (static_files_normalize_path (Some ''/a//./b/../c/'') fresh_heap) = STATIC_FILE_OK" by code_simp
  with static_files_normalize_path_canonical [OF bad nf] show ?thesis by blast
qed



text \<open>
  C13. The books of serving a file: on every path, including allocation failures and files that
  disappear, all memory is released and every descriptor that was opened is either owned by the
  response or closed, once. The response is that of the file when the result is OK and empty
  otherwise; an accepted file is regular and not larger than the limit.
\<close>

theorem static_files_serve_books:
  assumes "static_files_serve (Some root) request r load_body w = (rc, r', w')" and "rq_target request = Some t"
  shows "(\<exists>new. opened w' = opened w @ new
      \<and> live (mem w') - response_blocks r' = live (mem w) - response_blocks r
      \<and> closed w' @ response_fds r' = closed w @ response_fds r @ map snd new)
    \<and> (if rc = STATIC_FILE_OK
       then \<exists>p fd st k. r' = file_response p (int fd) (st_size st) \<and> opened w' = opened w @ [(p, int fd)]
          \<and> fs_fstat (fs_at w k) (int fd) = Some st \<and> st_mode st = S_REG
          \<and> 0 \<le> st_size st \<and> st_size st \<le> int HTTP_MAX_STATIC_FILE_SIZE
       else r' = http_response_init)"
proof -
  have "\<exists>new. opened w' = opened w @ new
      \<and> live (mem w') - response_blocks r' = live (mem w) - response_blocks r
      \<and> closed w' @ response_fds r' = closed w @ response_fds r @ map snd new"
    using serve_facts [OF assms] unfolding balanced_def by blast
  with serve_facts [OF assms] show ?thesis by (cases "rc = STATIC_FILE_OK") auto
qed

theorem static_files_serve_books_witness:
  "\<exists>rc r' w'. static_files_serve (Some ''public'') (sample_get ''/a%20b.css'') http_response_init True
        (sample_site\<lparr>mem := \<lparr>outcomes = [True, True, True, True, True, True, False], live = 0\<rparr>\<rparr>) = (rc, r', w')
     \<and> rc = STATIC_FILE_OUT_OF_MEMORY \<and> r' = http_response_init \<and> live (mem w') = 0"
proof -
  let ?run = "static_files_serve (Some ''public'') (sample_get ''/a%20b.css'') http_response_init True
        (sample_site\<lparr>mem := \<lparr>outcomes = [True, True, True, True, True, True, False], live = 0\<rparr>\<rparr>)"
  obtain rc r' w' where run: "?run = (rc, r', w')" by (metis prod_cases3)
  have "fst ?run = STATIC_FILE_OUT_OF_MEMORY" by code_simp
  then have rc: "rc = STATIC_FILE_OUT_OF_MEMORY" using run by simp
  have t: "rq_target (sample_get ''/a%20b.css'') = Some ''/a%20b.css''" by (simp add: sample_get_def)
  from static_files_serve_books [OF run t] rc have "r' = http_response_init" "live (mem w') = 0"
    by auto
  with run rc show ?thesis by blast
qed



text \<open>
  The 404 page: on success the response has status 404; the file \<open>404.html\<close> it may carry is
  found under the document root in the same way as any other file, and memory and descriptors are
  accounted for whether it exists or not.
\<close>

theorem static_files_build_not_found_correct:
  assumes "static_files_build_not_found (Some root) r w = (ok, r', w')"
  shows "(ok \<longrightarrow> rs_status_code r' = 404)
    \<and> (\<exists>new. opened w' = opened w @ new \<and> length new \<le> 1
        \<and> live (mem w') - response_blocks r' = live (mem w) - response_blocks r
        \<and> mset (closed w') + mset (response_fds r') = mset (closed w) + mset (response_fds r) + mset (map snd new)
        \<and> (\<forall>x\<in>set new. \<exists>canonical. fs_realpath (fs_at w (fs_calls w)) root = Inr canonical
             \<and> path_is_within_root (fst x) canonical))"
  using build_not_found_facts [OF assms] unfolding books_def served_from_def found_def by blast

definition page_fs :: fsys where
  "page_fs = \<lparr>fs_realpath = (\<lambda>p. if p = ''w'' then Inr ''/w'' else Inr p),
     fs_stat = (\<lambda>p. if p = ''/w'' then Inr \<lparr>st_mode = S_DIR, st_size = 4096\<rparr> else Inr \<lparr>st_mode = S_REG, st_size = 5\<rparr>),
     fs_open = (\<lambda>p. Inr 8), fs_fstat = (\<lambda>fd. Some \<lparr>st_mode = S_REG, st_size = 5\<rparr>)\<rparr>"

theorem static_files_build_not_found_correct_witness:
  "\<exists>r' w'. static_files_build_not_found (Some ''w'') http_response_init (sample_site\<lparr>fs_at := \<lambda>_. page_fs\<rparr>) = (True, r', w')
     \<and> rs_status_code r' = 404"
proof -
  let ?run = "static_files_build_not_found (Some ''w'') http_response_init (sample_site\<lparr>fs_at := \<lambda>_. page_fs\<rparr>)"
  have "fst ?run" by code_simp
  then obtain r' w' where run: "?run = (True, r', w')" by (cases ?run) auto
  with static_files_build_not_found_correct [OF run] show ?thesis by auto
qed

text \<open>
  C38. A limit of the containment test: when the document root is \<open>/\<close>, the test asks for a second
  slash after the root, which no canonical path has. So no file below the root is ever opened.
\<close>

theorem static_files_serve_root_slash:
  assumes "static_files_serve (Some root) request r load_body w = (rc, r', w')" and "rq_target request = Some t"
    and "fs_realpath (fs_at w (fs_calls w)) root = Inr ''/''"
    and "\<And>k q p. fs_realpath (fs_at w k) q = Inr p \<Longrightarrow> \<not> prefix ''//'' p"
  shows "\<exists>new. opened w' = opened w @ new \<and> (\<forall>x\<in>set new. fst x = ''/'')"
proof -
  from serve_facts [OF assms(1,2)] obtain new where new: "opened w' = opened w @ new"
    "\<forall>x\<in>set new. served_from w root t (fst x)" by blast
  moreover have "p = ''/''" if "served_from w root t p" for p
  proof -
    from that assms(3) obtain segs k where within: "path_is_within_root p ''/''"
      and rp: "fs_realpath (fs_at w k) (root_path ''/'' (join_with (CHR ''/'') segs)) = Inr p"
      by (auto simp: served_from_def found_def)
    from within assms(4) [OF rp] show ?thesis by (auto simp: path_is_within_root_iff)
  qed
  ultimately show ?thesis by blast
qed

definition slash_fs :: fsys where
  "slash_fs = \<lparr>fs_realpath = (\<lambda>p. if p = ''/'' then Inr ''/'' else if p = ''//a.txt'' then Inr ''/a.txt'' else Inl ENOENT),
     fs_stat = (\<lambda>p. if p = ''/'' then Inr \<lparr>st_mode = S_DIR, st_size = 4096\<rparr> else Inr \<lparr>st_mode = S_REG, st_size = 5\<rparr>),
     fs_open = (\<lambda>p. Inr 7), fs_fstat = (\<lambda>fd. Some \<lparr>st_mode = S_REG, st_size = 5\<rparr>)\<rparr>"

theorem static_files_serve_root_slash_witness:
  "\<exists>r' w'. static_files_serve (Some ''/'') (sample_get ''/a.txt'') http_response_init True
       (sample_site\<lparr>fs_at := \<lambda>_. slash_fs\<rparr>) = (STATIC_FILE_FORBIDDEN, r', w') \<and> opened w' = []"
proof -
  let ?w = "sample_site\<lparr>fs_at := \<lambda>_. slash_fs\<rparr>"
  let ?run = "static_files_serve (Some ''/'') (sample_get ''/a.txt'') http_response_init True ?w"
  have "fst ?run = STATIC_FILE_FORBIDDEN \<and> opened (snd (snd ?run)) = []" by code_simp
  then obtain r' w' where run: "?run = (STATIC_FILE_FORBIDDEN, r', w')" and op: "opened w' = []" by (cases ?run) auto
  have t: "rq_target (sample_get ''/a.txt'') = Some ''/a.txt''" by (simp add: sample_get_def)
  have "\<exists>new. opened w' = opened ?w @ new \<and> (\<forall>x\<in>set new. fst x = ''/'')"
    by (rule static_files_serve_root_slash [OF run t]) (auto simp: slash_fs_def split: if_splits)
  with run op show ?thesis by blast
qed

end
