(* ===== verification/Server_Stats.thy ===== *)
theory Server_Stats
  imports Prelude "HOL-Library.Word" "HOL-Library.Multiset"
begin

text \<open>
  The counters of \<^verbatim>\<open>src/server_stats.c\<close>: six unsigned 64-bit numbers that wrap around.
  Every operation holds the mutex from its first to its last access, so an execution of many
  threads is a sequence of whole operations; \<open>apply_event\<close> runs one of them.
\<close>

section \<open>State\<close>

type_synonym uint64 = "64 word"

record server_stats_t =
  stats_initialized :: bool
  connections_accepted :: uint64
  requests_total :: uint64
  responses_2xx :: uint64
  responses_4xx :: uint64
  responses_5xx :: uint64
  active_connections :: uint64

record server_stats_snapshot_t =
  sn_connections_accepted :: uint64
  sn_requests_total :: uint64
  sn_responses_2xx :: uint64
  sn_responses_4xx :: uint64
  sn_responses_5xx :: uint64
  sn_active_connections :: uint64

section \<open>Operations\<close>

text \<open>\<open>mutex_ok\<close> is whether \<open>pthread_mutex_init\<close> succeeds; the first component is the return value 0.\<close>

definition server_stats_init :: "bool \<Rightarrow> bool \<times> server_stats_t" where
  "server_stats_init mutex_ok =
     (mutex_ok, \<lparr>stats_initialized = mutex_ok, connections_accepted = 0, requests_total = 0,
        responses_2xx = 0, responses_4xx = 0, responses_5xx = 0, active_connections = 0\<rparr>)"

definition server_stats_destroy :: "server_stats_t \<Rightarrow> server_stats_t" where
  "server_stats_destroy s = (if \<not> stats_initialized s then s else s\<lparr>stats_initialized := False\<rparr>)"

definition server_stats_connection_accepted :: "server_stats_t \<Rightarrow> server_stats_t" where
  "server_stats_connection_accepted s =
     (if \<not> stats_initialized s then s else s\<lparr>connections_accepted := connections_accepted s + 1\<rparr>)"

definition server_stats_connection_started :: "server_stats_t \<Rightarrow> server_stats_t" where
  "server_stats_connection_started s =
     (if \<not> stats_initialized s then s else s\<lparr>active_connections := active_connections s + 1\<rparr>)"

definition server_stats_connection_finished :: "server_stats_t \<Rightarrow> server_stats_t" where
  "server_stats_connection_finished s =
     (if \<not> stats_initialized s then s
      else if 0 < active_connections s then s\<lparr>active_connections := active_connections s - 1\<rparr>
      else s)"

definition server_stats_request_received :: "server_stats_t \<Rightarrow> server_stats_t" where
  "server_stats_request_received s =
     (if \<not> stats_initialized s then s else s\<lparr>requests_total := requests_total s + 1\<rparr>)"

definition server_stats_response_sent :: "server_stats_t \<Rightarrow> int \<Rightarrow> server_stats_t" where
  "server_stats_response_sent s status =
     (if \<not> stats_initialized s then s
      else if 200 \<le> status \<and> status \<le> 299 then s\<lparr>responses_2xx := responses_2xx s + 1\<rparr>
      else if 400 \<le> status \<and> status \<le> 499 then s\<lparr>responses_4xx := responses_4xx s + 1\<rparr>
      else if 500 \<le> status \<and> status \<le> 599 then s\<lparr>responses_5xx := responses_5xx s + 1\<rparr>
      else s)"

definition server_stats_snapshot :: "server_stats_t \<Rightarrow> server_stats_snapshot_t" where
  "server_stats_snapshot s =
     (if \<not> stats_initialized s
      then \<lparr>sn_connections_accepted = 0, sn_requests_total = 0, sn_responses_2xx = 0,
        sn_responses_4xx = 0, sn_responses_5xx = 0, sn_active_connections = 0\<rparr>
      else \<lparr>sn_connections_accepted = connections_accepted s, sn_requests_total = requests_total s,
        sn_responses_2xx = responses_2xx s, sn_responses_4xx = responses_4xx s,
        sn_responses_5xx = responses_5xx s, sn_active_connections = active_connections s\<rparr>)"

section \<open>Executions\<close>

datatype stats_event =
  CONN_ACCEPTED | CONN_STARTED | CONN_FINISHED | REQUEST_RECEIVED | RESPONSE_SENT int

fun apply_event :: "stats_event \<Rightarrow> server_stats_t \<Rightarrow> server_stats_t" where
  "apply_event CONN_ACCEPTED s = server_stats_connection_accepted s"
| "apply_event CONN_STARTED s = server_stats_connection_started s"
| "apply_event CONN_FINISHED s = server_stats_connection_finished s"
| "apply_event REQUEST_RECEIVED s = server_stats_request_received s"
| "apply_event (RESPONSE_SENT status) s = server_stats_response_sent s status"

definition stats_run :: "stats_event list \<Rightarrow> server_stats_t \<Rightarrow> server_stats_t" where
  "stats_run es s = fold apply_event es s"

lemmas stats_op_defs =
  server_stats_connection_accepted_def server_stats_connection_started_def
  server_stats_connection_finished_def server_stats_request_received_def server_stats_response_sent_def

lemma stats_run_Nil [simp]: "stats_run [] s = s"
  by (simp add: stats_run_def)

lemma stats_run_snoc: "stats_run (es @ [e]) s = apply_event e (stats_run es s)"
  by (simp add: stats_run_def)

lemma apply_event_initialized [simp]: "stats_initialized (apply_event e s) = stats_initialized s"
  by (cases e) (simp_all add: stats_op_defs)

lemma stats_run_initialized [simp]: "stats_initialized (stats_run es s) = stats_initialized s"
  by (induction es rule: rev_induct) (simp_all add: stats_run_snoc)

text \<open>How often a class of events happened.\<close>

abbreviation occ :: "(stats_event \<Rightarrow> bool) \<Rightarrow> stats_event list \<Rightarrow> nat" where
  "occ P es \<equiv> length (filter P es)"

definition response_class :: "int \<Rightarrow> int \<Rightarrow> stats_event \<Rightarrow> bool" where
  "response_class lo hi e = (case e of RESPONSE_SENT status \<Rightarrow> lo \<le> status \<and> status \<le> hi | _ \<Rightarrow> False)"

lemma stats_run_counts:
  assumes "stats_initialized s"
  shows "connections_accepted (stats_run es s) = connections_accepted s + of_nat (occ ((=) CONN_ACCEPTED) es)"
    and "requests_total (stats_run es s) = requests_total s + of_nat (occ ((=) REQUEST_RECEIVED) es)"
    and "responses_2xx (stats_run es s) = responses_2xx s + of_nat (occ (response_class 200 299) es)"
    and "responses_4xx (stats_run es s) = responses_4xx s + of_nat (occ (response_class 400 499) es)"
    and "responses_5xx (stats_run es s) = responses_5xx s + of_nat (occ (response_class 500 599) es)"
proof (induction es rule: rev_induct)
  case (snoc e es)
  case 1
  from snoc(1) assms show ?case by (cases e) (simp_all add: stats_run_snoc stats_op_defs)
next
  case (snoc e es)
  case 2
  from snoc(2) assms show ?case by (cases e) (simp_all add: stats_run_snoc stats_op_defs)
next
  case (snoc e es)
  case 3
  from snoc(3) assms show ?case by (cases e) (simp_all add: stats_run_snoc stats_op_defs response_class_def)
next
  case (snoc e es)
  case 4
  from snoc(4) assms show ?case by (cases e) (simp_all add: stats_run_snoc stats_op_defs response_class_def)
next
  case (snoc e es)
  case 5
  from snoc(5) assms show ?case by (cases e) (simp_all add: stats_run_snoc stats_op_defs response_class_def)
qed simp_all

text \<open>The number of active connections follows its bracketed calls as long as no finish precedes its start.\<close>

lemma stats_run_active:
  assumes "stats_initialized s" and "active_connections s = 0"
    and "\<forall>k\<le>length es. occ ((=) CONN_FINISHED) (take k es) \<le> occ ((=) CONN_STARTED) (take k es)"
    and "occ ((=) CONN_STARTED) es < 2 ^ 64"
  shows "unat (active_connections (stats_run es s)) = occ ((=) CONN_STARTED) es - occ ((=) CONN_FINISHED) es"
  using assms(3,4)
proof (induction es rule: rev_induct)
  case Nil
  with assms(2) show ?case by simp
next
  case (snoc e es)
  have pre: "\<forall>k\<le>length es. occ ((=) CONN_FINISHED) (take k es) \<le> occ ((=) CONN_STARTED) (take k es)"
  proof (intro allI impI)
    fix k
    assume "k \<le> length es"
    with snoc.prems(1) [rule_format, of k] show "occ ((=) CONN_FINISHED) (take k es) \<le> occ ((=) CONN_STARTED) (take k es)"
      by simp
  qed
  have now: "occ ((=) CONN_FINISHED) (es @ [e]) \<le> occ ((=) CONN_STARTED) (es @ [e])"
    using snoc.prems(1) [rule_format, of "length (es @ [e])"] by simp
  have "occ ((=) CONN_STARTED) es < 2 ^ 64" using snoc.prems(2) by (simp split: if_splits)
  with snoc.IH pre have IH: "unat (active_connections (stats_run es s))
      = occ ((=) CONN_STARTED) es - occ ((=) CONN_FINISHED) es" by blast
  have le: "occ ((=) CONN_FINISHED) es \<le> occ ((=) CONN_STARTED) es"
    using pre [rule_format, of "length es"] by simp
  show ?case
  proof (cases e)
    case CONN_STARTED
    with snoc.prems(2) have "unat (active_connections (stats_run es s)) + 1 < 2 ^ 64" using IH by simp
    then have "unat (active_connections (stats_run es s) + 1) = unat (active_connections (stats_run es s)) + 1"
      by (simp add: unat_word_ariths)
    with CONN_STARTED IH le assms(1) show ?thesis by (simp add: stats_run_snoc stats_op_defs)
  next
    case CONN_FINISHED
    with now have pos: "0 < occ ((=) CONN_STARTED) es - occ ((=) CONN_FINISHED) es" by simp
    then have "0 < active_connections (stats_run es s)" using IH by (simp add: word_less_nat_alt)
    moreover have "unat (active_connections (stats_run es s) - 1) = unat (active_connections (stats_run es s)) - 1"
    proof (rule unat_minus_one)
      show "active_connections (stats_run es s) \<noteq> 0" using pos IH by (metis less_irrefl unat_0)
    qed
    ultimately show ?thesis using CONN_FINISHED IH assms(1) by (simp add: stats_run_snoc stats_op_defs)
  qed (use IH assms(1) in \<open>simp_all add: stats_run_snoc stats_op_defs\<close>)
qed

section \<open>Properties\<close>

definition sample_stats :: server_stats_t where
  "sample_stats = snd (server_stats_init True)"

text \<open>
  C33. Counting is exact and does not depend on the interleaving: after any sequence of operations
  by any number of threads, every class counter has grown by the number of operations of its
  class, modulo $2^{64}$, so two executions with the same operations in another order show the
  same five counters.
\<close>

theorem server_stats_counters_exact:
  assumes "stats_initialized s" and "mset es = mset es'"
  shows "connections_accepted (stats_run es s) = connections_accepted s + of_nat (occ ((=) CONN_ACCEPTED) es)
    \<and> requests_total (stats_run es s) = requests_total s + of_nat (occ ((=) REQUEST_RECEIVED) es)
    \<and> responses_2xx (stats_run es s) = responses_2xx s + of_nat (occ (response_class 200 299) es)
    \<and> responses_4xx (stats_run es s) = responses_4xx s + of_nat (occ (response_class 400 499) es)
    \<and> responses_5xx (stats_run es s) = responses_5xx s + of_nat (occ (response_class 500 599) es)
    \<and> server_stats_snapshot (stats_run es' s) = (server_stats_snapshot (stats_run es s))
        \<lparr>sn_active_connections := active_connections (stats_run es' s)\<rparr>"
proof -
  have "occ P es' = occ P es" for P using assms(2) by (metis mset_filter size_mset)
  with stats_run_counts [OF assms(1), of es] stats_run_counts [OF assms(1), of es'] assms(1) show ?thesis
    by (simp add: server_stats_snapshot_def)
qed

theorem server_stats_counters_exact_witness:
  "stats_initialized sample_stats
   \<and> responses_4xx (stats_run [REQUEST_RECEIVED, RESPONSE_SENT 404, RESPONSE_SENT 302] sample_stats) = 1
   \<and> requests_total (stats_run [RESPONSE_SENT 302, REQUEST_RECEIVED, RESPONSE_SENT 404] sample_stats) = 1"
proof -
  have i: "stats_initialized sample_stats" "requests_total sample_stats = 0" "responses_4xx sample_stats = 0"
    by (simp_all add: sample_stats_def server_stats_init_def)
  let ?es = "[REQUEST_RECEIVED, RESPONSE_SENT 404, RESPONSE_SENT 302]"
    and ?es' = "[RESPONSE_SENT 302, REQUEST_RECEIVED, RESPONSE_SENT 404]"
  have m: "mset ?es = mset ?es'" by simp
  show ?thesis
    using server_stats_counters_exact [OF i(1) m] server_stats_counters_exact [OF i(1) m [symmetric]] i
    by (simp add: response_class_def)
qed

text \<open>
  The gauge of active connections is the number of connections started and not yet finished,
  as long as no \<open>finished\<close> overtakes the \<open>started\<close> of its connection.
\<close>

theorem server_stats_active_exact:
  assumes "\<forall>k\<le>length es. occ ((=) CONN_FINISHED) (take k es) \<le> occ ((=) CONN_STARTED) (take k es)"
    and "occ ((=) CONN_STARTED) es < 2 ^ 64"
  shows "unat (active_connections (stats_run es (snd (server_stats_init True))))
    = occ ((=) CONN_STARTED) es - occ ((=) CONN_FINISHED) es"
  by (rule stats_run_active [OF _ _ assms]) (simp_all add: server_stats_init_def)

theorem server_stats_active_exact_witness:
  "unat (active_connections (stats_run [CONN_STARTED, CONN_STARTED, CONN_FINISHED] (snd (server_stats_init True)))) = 1"
proof -
  have "\<forall>k\<le>length [CONN_STARTED, CONN_STARTED, CONN_FINISHED].
      occ ((=) CONN_FINISHED) (take k [CONN_STARTED, CONN_STARTED, CONN_FINISHED])
      \<le> occ ((=) CONN_STARTED) (take k [CONN_STARTED, CONN_STARTED, CONN_FINISHED])"
    by (auto simp: le_Suc_eq numeral_eq_Suc)
  from server_stats_active_exact [OF this] show ?thesis by simp
qed

end
