(* ===== verification/Config.thy ===== *)
theory Config
  imports C_Library
begin

text \<open>
  The configuration of \<^verbatim>\<open>src/config.c\<close>: defaults, bounds and the command line.

  \<open>argv\<close> is the list of the arguments after the program name; the loop index is the rest of
  that list. Diagnostics on the standard streams are not part of the model. \<open>document_root\<close> is
  an array of \<open>PATH_MAX\<close> bytes, so a path that does not fit is cut off before the error is
  returned.
\<close>

section \<open>Data\<close>

definition CONFIG_PATH_MAX :: nat where "CONFIG_PATH_MAX = 4096"

definition CONFIG_DEFAULT_PORT :: int where "CONFIG_DEFAULT_PORT = 8080"
definition CONFIG_DEFAULT_WORKER_COUNT :: int where "CONFIG_DEFAULT_WORKER_COUNT = 4"
definition CONFIG_DEFAULT_QUEUE_CAPACITY :: int where "CONFIG_DEFAULT_QUEUE_CAPACITY = 64"
definition CONFIG_DEFAULT_DOCUMENT_ROOT :: string where "CONFIG_DEFAULT_DOCUMENT_ROOT = ''./public''"
definition CONFIG_DEFAULT_KEEP_ALIVE_TIMEOUT_SEC :: int where "CONFIG_DEFAULT_KEEP_ALIVE_TIMEOUT_SEC = 5"
definition CONFIG_DEFAULT_REQUEST_TIMEOUT_SEC :: int where "CONFIG_DEFAULT_REQUEST_TIMEOUT_SEC = 10"

definition CONFIG_MIN_PORT :: int where "CONFIG_MIN_PORT = 1"
definition CONFIG_MAX_PORT :: int where "CONFIG_MAX_PORT = 65535"
definition CONFIG_MIN_WORKER_COUNT :: int where "CONFIG_MIN_WORKER_COUNT = 1"
definition CONFIG_MAX_WORKER_COUNT :: int where "CONFIG_MAX_WORKER_COUNT = 256"
definition CONFIG_MIN_QUEUE_CAPACITY :: int where "CONFIG_MIN_QUEUE_CAPACITY = 1"
definition CONFIG_MAX_QUEUE_CAPACITY :: int where "CONFIG_MAX_QUEUE_CAPACITY = 4096"
definition CONFIG_MIN_KEEP_ALIVE_TIMEOUT_SEC :: int where "CONFIG_MIN_KEEP_ALIVE_TIMEOUT_SEC = 1"
definition CONFIG_MAX_KEEP_ALIVE_TIMEOUT_SEC :: int where "CONFIG_MAX_KEEP_ALIVE_TIMEOUT_SEC = 300"
definition CONFIG_MIN_REQUEST_TIMEOUT_SEC :: int where "CONFIG_MIN_REQUEST_TIMEOUT_SEC = 1"
definition CONFIG_MAX_REQUEST_TIMEOUT_SEC :: int where "CONFIG_MAX_REQUEST_TIMEOUT_SEC = 300"

lemmas config_limits =
  CONFIG_PATH_MAX_def CONFIG_DEFAULT_PORT_def CONFIG_DEFAULT_WORKER_COUNT_def
  CONFIG_DEFAULT_QUEUE_CAPACITY_def CONFIG_DEFAULT_DOCUMENT_ROOT_def
  CONFIG_DEFAULT_KEEP_ALIVE_TIMEOUT_SEC_def CONFIG_DEFAULT_REQUEST_TIMEOUT_SEC_def
  CONFIG_MIN_PORT_def CONFIG_MAX_PORT_def CONFIG_MIN_WORKER_COUNT_def CONFIG_MAX_WORKER_COUNT_def
  CONFIG_MIN_QUEUE_CAPACITY_def CONFIG_MAX_QUEUE_CAPACITY_def
  CONFIG_MIN_KEEP_ALIVE_TIMEOUT_SEC_def CONFIG_MAX_KEEP_ALIVE_TIMEOUT_SEC_def
  CONFIG_MIN_REQUEST_TIMEOUT_SEC_def CONFIG_MAX_REQUEST_TIMEOUT_SEC_def

record server_config_t =
  port :: int
  worker_count :: int
  queue_capacity :: int
  document_root :: string
  verbose :: bool
  keep_alive_timeout_sec :: int
  request_timeout_sec :: int

datatype config_parse_result_t = CONFIG_PARSE_OK | CONFIG_PARSE_HELP | CONFIG_PARSE_ERROR

section \<open>Operations\<close>

text \<open>The value after an option and the arguments that follow it.\<close>

definition parse_long_arg :: "string list \<Rightarrow> (int \<times> string list) option" where
  "parse_long_arg argv = (case argv of [] \<Rightarrow> None
     | value_str # rest \<Rightarrow> (case strtol value_str of (v, end_ptr, erange) \<Rightarrow>
         if end_ptr = value_str \<or> end_ptr \<noteq> [] \<or> erange then None else Some (v, rest)))"

definition config_set_defaults :: server_config_t where
  "config_set_defaults = \<lparr>port = CONFIG_DEFAULT_PORT, worker_count = CONFIG_DEFAULT_WORKER_COUNT,
     queue_capacity = CONFIG_DEFAULT_QUEUE_CAPACITY,
     document_root = take (CONFIG_PATH_MAX - 1) CONFIG_DEFAULT_DOCUMENT_ROOT, verbose = False,
     keep_alive_timeout_sec = CONFIG_DEFAULT_KEEP_ALIVE_TIMEOUT_SEC,
     request_timeout_sec = CONFIG_DEFAULT_REQUEST_TIMEOUT_SEC\<rparr>"

lemma parse_long_arg_shorter:
  "parse_long_arg argv = Some (v, rest) \<Longrightarrow> length rest < length argv"
  by (auto simp: parse_long_arg_def split: list.splits prod.splits if_splits)

function config_parse_args ::
  "server_config_t \<Rightarrow> string list \<Rightarrow> config_parse_result_t \<times> server_config_t" where
  "config_parse_args config [] = (CONFIG_PARSE_OK, config)"
| "config_parse_args config (arg # argv) =
     (if arg = ''--help'' then (CONFIG_PARSE_HELP, config)
      else if arg = ''--verbose'' then config_parse_args (config\<lparr>verbose := True\<rparr>) argv
      else if arg = ''--port'' then
        (case parse_long_arg argv of None \<Rightarrow> (CONFIG_PARSE_ERROR, config)
         | Some (v, rest) \<Rightarrow>
           if v < CONFIG_MIN_PORT \<or> CONFIG_MAX_PORT < v then (CONFIG_PARSE_ERROR, config)
           else config_parse_args (config\<lparr>port := v\<rparr>) rest)
      else if arg = ''--workers'' then
        (case parse_long_arg argv of None \<Rightarrow> (CONFIG_PARSE_ERROR, config)
         | Some (v, rest) \<Rightarrow>
           if v < CONFIG_MIN_WORKER_COUNT \<or> CONFIG_MAX_WORKER_COUNT < v then (CONFIG_PARSE_ERROR, config)
           else config_parse_args (config\<lparr>worker_count := v\<rparr>) rest)
      else if arg = ''--queue-size'' then
        (case parse_long_arg argv of None \<Rightarrow> (CONFIG_PARSE_ERROR, config)
         | Some (v, rest) \<Rightarrow>
           if v < CONFIG_MIN_QUEUE_CAPACITY \<or> CONFIG_MAX_QUEUE_CAPACITY < v then (CONFIG_PARSE_ERROR, config)
           else config_parse_args (config\<lparr>queue_capacity := v\<rparr>) rest)
      else if arg = ''--root'' then
        (case argv of [] \<Rightarrow> (CONFIG_PARSE_ERROR, config)
         | root # rest \<Rightarrow>
           let config' = config\<lparr>document_root := take (CONFIG_PATH_MAX - 1) root\<rparr> in
           if CONFIG_PATH_MAX \<le> length root then (CONFIG_PARSE_ERROR, config')
           else config_parse_args config' rest)
      else if arg = ''--keep-alive-timeout'' then
        (case parse_long_arg argv of None \<Rightarrow> (CONFIG_PARSE_ERROR, config)
         | Some (v, rest) \<Rightarrow>
           if v < CONFIG_MIN_KEEP_ALIVE_TIMEOUT_SEC \<or> CONFIG_MAX_KEEP_ALIVE_TIMEOUT_SEC < v
           then (CONFIG_PARSE_ERROR, config)
           else config_parse_args (config\<lparr>keep_alive_timeout_sec := v\<rparr>) rest)
      else if arg = ''--request-timeout'' then
        (case parse_long_arg argv of None \<Rightarrow> (CONFIG_PARSE_ERROR, config)
         | Some (v, rest) \<Rightarrow>
           if v < CONFIG_MIN_REQUEST_TIMEOUT_SEC \<or> CONFIG_MAX_REQUEST_TIMEOUT_SEC < v
           then (CONFIG_PARSE_ERROR, config)
           else config_parse_args (config\<lparr>request_timeout_sec := v\<rparr>) rest)
      else (CONFIG_PARSE_ERROR, config))"
  by pat_completeness auto
termination
  by (relation "measure (\<lambda>(_, argv). length argv)") (auto dest: parse_long_arg_shorter)

declare config_parse_args.simps(2) [simp del]

section \<open>Facts\<close>

definition config_ok :: "server_config_t \<Rightarrow> bool" where
  "config_ok c = (CONFIG_MIN_PORT \<le> port c \<and> port c \<le> CONFIG_MAX_PORT
     \<and> CONFIG_MIN_WORKER_COUNT \<le> worker_count c \<and> worker_count c \<le> CONFIG_MAX_WORKER_COUNT
     \<and> CONFIG_MIN_QUEUE_CAPACITY \<le> queue_capacity c \<and> queue_capacity c \<le> CONFIG_MAX_QUEUE_CAPACITY
     \<and> CONFIG_MIN_KEEP_ALIVE_TIMEOUT_SEC \<le> keep_alive_timeout_sec c
     \<and> keep_alive_timeout_sec c \<le> CONFIG_MAX_KEEP_ALIVE_TIMEOUT_SEC
     \<and> CONFIG_MIN_REQUEST_TIMEOUT_SEC \<le> request_timeout_sec c
     \<and> request_timeout_sec c \<le> CONFIG_MAX_REQUEST_TIMEOUT_SEC
     \<and> length (document_root c) < CONFIG_PATH_MAX)"

lemma config_defaults_ok: "config_ok config_set_defaults"
  by (simp add: config_ok_def config_set_defaults_def config_limits)

text \<open>
  One step of the loop: it stops, possibly with a cut-off root, or goes on with one field set. The
  numeric options share their shape.
\<close>

definition steps_ok :: "server_config_t \<Rightarrow> string list \<Rightarrow> bool" where
  "steps_ok c argv = ((\<exists>rc c'. config_parse_args c argv = (rc, c') \<and> config_ok c')
     \<or> (\<exists>c' rest. config_parse_args c argv = config_parse_args c' rest
          \<and> config_ok c' \<and> length rest < length argv))"

lemma steps_ok_numeric:
  assumes "config_ok c" and "\<And>v. lo \<le> v \<Longrightarrow> v \<le> hi \<Longrightarrow> config_ok (f v)"
    and "config_parse_args c (arg # argv) = (case parse_long_arg argv of None \<Rightarrow> (CONFIG_PARSE_ERROR, c)
         | Some (v, rest) \<Rightarrow> if v < lo \<or> hi < v then (CONFIG_PARSE_ERROR, c) else config_parse_args (f v) rest)"
  shows "steps_ok c (arg # argv)"
proof (cases "parse_long_arg argv")
  case None
  with assms(1,3) show ?thesis by (simp add: steps_ok_def)
next
  case (Some p)
  obtain v rest where p: "p = (v, rest)" by fastforce
  have "length rest < length (arg # argv)" using Some p parse_long_arg_shorter by fastforce
  moreover have "config_parse_args c (arg # argv)
      = (if v < lo \<or> hi < v then (CONFIG_PARSE_ERROR, c) else config_parse_args (f v) rest)"
    using assms(3) Some p by simp
  ultimately show ?thesis
    unfolding steps_ok_def using assms(1) assms(2) [of v] by (cases "v < lo \<or> hi < v") auto
qed

lemma config_parse_args_step:
  assumes "config_ok c"
  shows "steps_ok c (arg # argv)"
proof -
  consider (usage) "arg = ''--help''" | (verbose) "arg = ''--verbose''" | (port) "arg = ''--port''"
    | (workers) "arg = ''--workers''" | (queue) "arg = ''--queue-size''" | (root) "arg = ''--root''"
    | (idle) "arg = ''--keep-alive-timeout''" | (request) "arg = ''--request-timeout''"
    | (other) "arg \<notin> {''--help'', ''--verbose'', ''--port'', ''--workers'', ''--queue-size'', ''--root'',
        ''--keep-alive-timeout'', ''--request-timeout''}" by auto
  then show ?thesis
  proof cases
    case port
    then show ?thesis
      by (intro steps_ok_numeric [where lo = CONFIG_MIN_PORT and hi = CONFIG_MAX_PORT
            and f = "\<lambda>v. c\<lparr>port := v\<rparr>"])
        (use assms in \<open>simp_all add: config_parse_args.simps(2) config_ok_def\<close>)
  next
    case workers
    then show ?thesis
      by (intro steps_ok_numeric [where lo = CONFIG_MIN_WORKER_COUNT and hi = CONFIG_MAX_WORKER_COUNT
            and f = "\<lambda>v. c\<lparr>worker_count := v\<rparr>"])
        (use assms in \<open>simp_all add: config_parse_args.simps(2) config_ok_def\<close>)
  next
    case queue
    then show ?thesis
      by (intro steps_ok_numeric [where lo = CONFIG_MIN_QUEUE_CAPACITY and hi = CONFIG_MAX_QUEUE_CAPACITY
            and f = "\<lambda>v. c\<lparr>queue_capacity := v\<rparr>"])
        (use assms in \<open>simp_all add: config_parse_args.simps(2) config_ok_def\<close>)
  next
    case idle
    then show ?thesis
      by (intro steps_ok_numeric [where lo = CONFIG_MIN_KEEP_ALIVE_TIMEOUT_SEC
            and hi = CONFIG_MAX_KEEP_ALIVE_TIMEOUT_SEC and f = "\<lambda>v. c\<lparr>keep_alive_timeout_sec := v\<rparr>"])
        (use assms in \<open>simp_all add: config_parse_args.simps(2) config_ok_def\<close>)
  next
    case request
    then show ?thesis
      by (intro steps_ok_numeric [where lo = CONFIG_MIN_REQUEST_TIMEOUT_SEC
            and hi = CONFIG_MAX_REQUEST_TIMEOUT_SEC and f = "\<lambda>v. c\<lparr>request_timeout_sec := v\<rparr>"])
        (use assms in \<open>simp_all add: config_parse_args.simps(2) config_ok_def\<close>)
  next
    case root
    have c: "config_ok (c\<lparr>document_root := take (CONFIG_PATH_MAX - 1) x\<rparr>)" for x
      using assms by (simp add: config_ok_def CONFIG_PATH_MAX_def)
    show ?thesis
    proof (cases argv)
      case Nil
      with root assms show ?thesis by (simp add: config_parse_args.simps(2) steps_ok_def)
    next
      case (Cons x rest)
      have "config_parse_args c (arg # argv) = (if CONFIG_PATH_MAX \<le> length x
          then (CONFIG_PARSE_ERROR, c\<lparr>document_root := take (CONFIG_PATH_MAX - 1) x\<rparr>)
          else config_parse_args (c\<lparr>document_root := take (CONFIG_PATH_MAX - 1) x\<rparr>) rest)"
        using root Cons by (simp add: config_parse_args.simps(2) Let_def)
      moreover have "length rest < length (arg # argv)" using Cons by simp
      ultimately show ?thesis
        unfolding steps_ok_def using c [of x] by (cases "CONFIG_PATH_MAX \<le> length x") auto
    qed
  next
    case verbose
    then have "config_parse_args c (arg # argv) = config_parse_args (c\<lparr>verbose := True\<rparr>) argv"
      by (simp add: config_parse_args.simps(2))
    moreover have "config_ok (c\<lparr>verbose := True\<rparr>)" using assms by (simp add: config_ok_def)
    moreover have "length argv < length (arg # argv)" by simp
    ultimately show ?thesis unfolding steps_ok_def by blast
  qed (use assms in \<open>simp_all add: config_parse_args.simps(2) steps_ok_def\<close>)
qed

lemma config_parse_args_ok: "config_ok c \<Longrightarrow> config_ok (snd (config_parse_args c argv))"
proof (induction "length argv" arbitrary: c argv rule: less_induct)
  case less
  show ?case
  proof (cases argv)
    case (Cons arg rest)
    from config_parse_args_step [OF less.prems, of arg rest] consider
        rc c' where "config_parse_args c argv = (rc, c')" "config_ok c'"
      | c' rest' where "config_parse_args c argv = config_parse_args c' rest'" "config_ok c'" "length rest' < length argv"
      unfolding Cons steps_ok_def by blast
    then show ?thesis by cases (use less.hyps in simp_all)
  qed (use less.prems in simp)
qed

lemma strtol_print_int:
  assumes "0 \<le> v" and "v \<le> LONG_MAX"
  shows "strtol (print_int v) = (v, [], False)"
proof -
  have d: "\<forall>c\<in>set (print_nat (nat v)). is_digit c" by (rule print_nat_digits)
  have "print_int v = print_nat (nat v)" using assms(1) by (simp add: print_int_def)
  with assms show ?thesis
    by (simp add: strtol_def scan_integer_digits [OF d] dec_value_print_nat Let_def LONG_MIN_def)
qed

lemma parse_long_arg_print_int:
  "0 \<le> v \<Longrightarrow> v \<le> LONG_MAX \<Longrightarrow> parse_long_arg (print_int v # rest) = Some (v, rest)"
  by (simp add: parse_long_arg_def strtol_print_int) (metis print_int_def print_nat_nonempty not_le)

section \<open>Properties\<close>

text \<open>
  C30. Every configuration the command line can produce is within the documented bounds, whatever
  the arguments and whatever the result of parsing them, also when they are rejected half-way.
\<close>

theorem config_parse_args_bounds:
  "config_ok (snd (config_parse_args config_set_defaults argv))"
  using config_parse_args_ok [OF config_defaults_ok] .

definition config_args :: "server_config_t \<Rightarrow> string list" where
  "config_args c = [''--port'', print_int (port c), ''--workers'', print_int (worker_count c),
     ''--queue-size'', print_int (queue_capacity c), ''--root'', document_root c,
     ''--keep-alive-timeout'', print_int (keep_alive_timeout_sec c),
     ''--request-timeout'', print_int (request_timeout_sec c)] @ (if verbose c then [''--verbose''] else [])"

text \<open>
  C31. Every admissible configuration can be written as a command line and is read back from it,
  whatever was configured before (verbosity can only be switched on).
\<close>

theorem config_parse_args_roundtrip:
  assumes "config_ok c"
  shows "config_parse_args d (config_args c)
    = (CONFIG_PARSE_OK, c\<lparr>verbose := (verbose c \<or> verbose d)\<rparr>)"
proof -
  note rd = parse_long_arg_print_int
  have le: "\<not> port c < CONFIG_MIN_PORT" "\<not> CONFIG_MAX_PORT < port c" "0 \<le> port c" "port c \<le> LONG_MAX"
    "\<not> worker_count c < CONFIG_MIN_WORKER_COUNT" "\<not> CONFIG_MAX_WORKER_COUNT < worker_count c"
    "0 \<le> worker_count c" "worker_count c \<le> LONG_MAX"
    "\<not> queue_capacity c < CONFIG_MIN_QUEUE_CAPACITY" "\<not> CONFIG_MAX_QUEUE_CAPACITY < queue_capacity c"
    "0 \<le> queue_capacity c" "queue_capacity c \<le> LONG_MAX"
    "\<not> keep_alive_timeout_sec c < CONFIG_MIN_KEEP_ALIVE_TIMEOUT_SEC"
    "\<not> CONFIG_MAX_KEEP_ALIVE_TIMEOUT_SEC < keep_alive_timeout_sec c"
    "0 \<le> keep_alive_timeout_sec c" "keep_alive_timeout_sec c \<le> LONG_MAX"
    "\<not> request_timeout_sec c < CONFIG_MIN_REQUEST_TIMEOUT_SEC"
    "\<not> CONFIG_MAX_REQUEST_TIMEOUT_SEC < request_timeout_sec c"
    "0 \<le> request_timeout_sec c" "request_timeout_sec c \<le> LONG_MAX"
    using assms by (simp_all add: config_ok_def config_limits LONG_MAX_def)
  have root: "\<not> CONFIG_PATH_MAX \<le> length (document_root c)" "take (CONFIG_PATH_MAX - 1) (document_root c) = document_root c"
    using assms by (simp_all add: config_ok_def CONFIG_PATH_MAX_def)
  show ?thesis
    by (cases "verbose c"; cases d; cases c)
      (use le root in \<open>simp_all add: config_args_def config_parse_args.simps(2) rd Let_def\<close>)
qed

theorem config_parse_args_roundtrip_witness:
  "config_ok config_set_defaults
   \<and> config_parse_args (config_set_defaults\<lparr>port := 80\<rparr>) (config_args config_set_defaults)
       = (CONFIG_PARSE_OK, config_set_defaults)"
  using config_parse_args_roundtrip [OF config_defaults_ok, of "config_set_defaults\<lparr>port := 80\<rparr>"] config_defaults_ok
  by (simp add: config_set_defaults_def)

end
