(* ===== verification/Router.thy ===== *)
theory Router
  imports Static_Files_Properties Server_Stats Config
begin

text \<open>
  The router of \<^verbatim>\<open>src/router.c\<close> for the \<open>/api\<close> namespace. The table of routes is data: the
  function pointers of the source are a datatype with one constructor per handler. The context
  gives the counters a handler reads.
\<close>

section \<open>Matching\<close>

datatype router_result_t = ROUTER_HANDLED | ROUTER_ERROR

record router_context_t =
  ctx_config :: server_config_t
  ctx_stats :: "server_stats_t option"

datatype route_handler_fn = handle_health_fn | handle_echo_fn | handle_stats_fn

record route_t =
  rt_method :: http_method_t
  rt_path :: string
  rt_handler :: route_handler_fn

fun path_equals_loop :: "string \<Rightarrow> string \<Rightarrow> bool" where
  "path_equals_loop (t # target) (p # route_path) =
     (if t = CHR ''?'' then False
      else if t \<noteq> p then False
      else path_equals_loop target route_path)"
| "path_equals_loop [] (p # route_path) = False"
| "path_equals_loop target [] = (target = [] \<or> hd target = CHR ''?'')"

definition path_equals :: "string option \<Rightarrow> string \<Rightarrow> bool" where
  "path_equals target route_path =
     (case target of None \<Rightarrow> False | Some t \<Rightarrow> path_equals_loop t route_path)"

fun api_prefix_loop :: "string \<Rightarrow> string \<Rightarrow> bool" where
  "api_prefix_loop [] target = True"
| "api_prefix_loop (p # ps) target =
     (case target of [] \<Rightarrow> False
      | t # target' \<Rightarrow> if t = CHR ''?'' \<or> t \<noteq> p then False else api_prefix_loop ps target')"

definition path_has_api_prefix :: "string option \<Rightarrow> bool" where
  "path_has_api_prefix target =
     (case target of None \<Rightarrow> False
      | Some t \<Rightarrow> if path_equals target ''/api'' then True else api_prefix_loop ''/api/'' t)"

definition router_is_api_request :: "http_request_t \<Rightarrow> bool" where
  "router_is_api_request request = path_has_api_prefix (rq_target request)"

definition method_compatible :: "http_method_t \<Rightarrow> http_method_t \<Rightarrow> bool" where
  "method_compatible route_method request_method =
     (if route_method = request_method then True
      else if route_method = HTTP_METHOD_GET \<and> request_method = HTTP_METHOD_HEAD then True
      else False)"

section \<open>Handlers\<close>

definition handle_health ::
  "http_response_t \<Rightarrow> 'a world_scheme \<Rightarrow> bool \<times> http_response_t \<times> 'a world_scheme" where
  "handle_health response w = http_response_build_json response 200 (Some ''{\"status\":\"ok\"}'') w"

definition handle_echo ::
  "http_request_t \<Rightarrow> http_response_t \<Rightarrow> 'a world_scheme \<Rightarrow> bool \<times> http_response_t \<times> 'a world_scheme" where
  "handle_echo request response w =
     (case http_response_destroy response w of (_, w1) \<Rightarrow>
      (case http_response_set_body_copy (http_response_set_status http_response_init 200)
          (rq_body request) (rq_body_length request) w1 of (ok, r, w2) \<Rightarrow>
       if \<not> ok then (False, r, w2)
       else
         let content_type = (case http_request_get_header request ''Content-Type'' of
               None \<Rightarrow> ''application/octet-stream''
             | Some v \<Rightarrow> if v = [] then ''application/octet-stream'' else v)
         in (case http_response_add_header r ''Content-Type'' content_type (mem w2) of
           (ok, r', h) \<Rightarrow> (ok, r', w2\<lparr>mem := h\<rparr>))))"

definition stats_json :: "server_stats_snapshot_t \<Rightarrow> string" where
  "stats_json snap =
     ''{\"connections_accepted\":'' @ print_nat (unat (sn_connections_accepted snap))
     @ '',\"requests_total\":'' @ print_nat (unat (sn_requests_total snap))
     @ '',\"responses_2xx\":'' @ print_nat (unat (sn_responses_2xx snap))
     @ '',\"responses_4xx\":'' @ print_nat (unat (sn_responses_4xx snap))
     @ '',\"responses_5xx\":'' @ print_nat (unat (sn_responses_5xx snap))
     @ '',\"active_connections\":'' @ print_nat (unat (sn_active_connections snap)) @ ''}''"

definition handle_stats ::
  "router_context_t \<Rightarrow> http_response_t \<Rightarrow> 'a world_scheme \<Rightarrow> bool \<times> http_response_t \<times> 'a world_scheme" where
  "handle_stats ctx response w =
     (case ctx_stats ctx of None \<Rightarrow> (False, response, w)
      | Some stats \<Rightarrow>
        let json = stats_json (server_stats_snapshot stats) in
        if 512 \<le> length json then (False, response, w)
        else http_response_build_json response 200 (Some json) w)"

definition ROUTES :: "route_t list" where
  "ROUTES = [\<lparr>rt_method = HTTP_METHOD_GET, rt_path = ''/api/health'', rt_handler = handle_health_fn\<rparr>,
     \<lparr>rt_method = HTTP_METHOD_POST, rt_path = ''/api/echo'', rt_handler = handle_echo_fn\<rparr>,
     \<lparr>rt_method = HTTP_METHOD_GET, rt_path = ''/api/stats'', rt_handler = handle_stats_fn\<rparr>]"

fun call_handler ::
  "route_handler_fn \<Rightarrow> router_context_t \<Rightarrow> http_request_t \<Rightarrow> http_response_t \<Rightarrow> 'a world_scheme \<Rightarrow>
   bool \<times> http_response_t \<times> 'a world_scheme" where
  "call_handler handle_health_fn ctx request response w = handle_health response w"
| "call_handler handle_echo_fn ctx request response w = handle_echo request response w"
| "call_handler handle_stats_fn ctx request response w = handle_stats ctx response w"

section \<open>Dispatch\<close>

text \<open>The text of the \<open>Allow\<close> header for a path, or \<open>None\<close> when it does not fit or there is none.\<close>

definition build_allow_header :: "string \<Rightarrow> nat \<Rightarrow> string option" where
  "build_allow_header path out_size =
     (let has_get = list_ex (\<lambda>r. rt_path r = path \<and> rt_method r = HTTP_METHOD_GET) ROUTES;
          has_post = list_ex (\<lambda>r. rt_path r = path \<and> rt_method r = HTTP_METHOD_POST) ROUTES;
          get_part = (if has_get then ''GET, HEAD'' else []);
          post_part = (if has_post then (if get_part \<noteq> [] then '', '' else []) @ ''POST'' else [])
      in if out_size = 0 then None
      else if has_get \<and> out_size \<le> length get_part then None
      else if has_post \<and> out_size - length get_part \<le> length post_part then None
      else if get_part @ post_part \<noteq> [] then Some (get_part @ post_part) else None)"

definition build_api_error ::
  "http_response_t \<Rightarrow> int \<Rightarrow> string \<Rightarrow> string option \<Rightarrow> 'a world_scheme \<Rightarrow>
   bool \<times> http_response_t \<times> 'a world_scheme" where
  "build_api_error response status json_error allow w =
     (case http_response_build_json response status (Some json_error) w of (ok, r, w1) \<Rightarrow>
      if \<not> ok then (False, r, w1)
      else (case allow of None \<Rightarrow> (True, r, w1)
        | Some a \<Rightarrow>
          if a = [] then (True, r, w1)
          else (case http_response_add_header r ''Allow'' a (mem w1) of
            (ok, r', h) \<Rightarrow> (ok, r', w1\<lparr>mem := h\<rparr>))))"

text \<open>The loop over the table: the route to call, or the last path that matched.\<close>

fun dispatch_loop :: "http_request_t \<Rightarrow> route_t list \<Rightarrow> string option \<Rightarrow> route_handler_fn + string option" where
  "dispatch_loop request [] matched_path = Inr matched_path"
| "dispatch_loop request (route # routes) matched_path =
     (if \<not> path_equals (rq_target request) (rt_path route)
      then dispatch_loop request routes matched_path
      else if method_compatible (rt_method route) (rq_method request) then Inl (rt_handler route)
      else dispatch_loop request routes (Some (rt_path route)))"

definition router_dispatch ::
  "router_context_t \<Rightarrow> http_request_t \<Rightarrow> http_response_t \<Rightarrow> 'a world_scheme \<Rightarrow>
   router_result_t \<times> http_response_t \<times> 'a world_scheme" where
  "router_dispatch ctx request response w =
     (if rq_target request = None then (ROUTER_ERROR, response, w)
      else (case (case dispatch_loop request ROUTES None of
            Inl handler \<Rightarrow> call_handler handler ctx request response w
          | Inr (Some matched_path) \<Rightarrow>
              build_api_error response 405 ''{\"error\":\"method not allowed\"}''
                (Some (case build_allow_header matched_path 64 of None \<Rightarrow> [] | Some a \<Rightarrow> a)) w
          | Inr None \<Rightarrow> build_api_error response 404 ''{\"error\":\"not found\"}'' None w) of
        (ok, r, w') \<Rightarrow> (if ok then ROUTER_HANDLED else ROUTER_ERROR, r, w')))"

section \<open>Facts\<close>

text \<open>The path of a target as the router sees it.\<close>

abbreviation route_path :: "string \<Rightarrow> string" where
  "route_path t \<equiv> takeWhile (\<lambda>c. c \<noteq> CHR ''?'') t"

lemma path_equals_loop_iff: "CHR ''?'' \<notin> set p \<Longrightarrow> path_equals_loop t p \<longleftrightarrow> route_path t = p"
  by (induction t p rule: path_equals_loop.induct) (auto simp: takeWhile_eq_Nil_iff)

lemma api_prefix_loop_iff: "CHR ''?'' \<notin> set p \<Longrightarrow> api_prefix_loop p t \<longleftrightarrow> prefix p (route_path t)"
  by (induction p t rule: api_prefix_loop.induct) (auto split: list.splits)

lemma router_is_api_request_iff:
  "router_is_api_request request \<longleftrightarrow>
     (\<exists>t. rq_target request = Some t \<and> (route_path t = ''/api'' \<or> prefix ''/api/'' (route_path t)))"
  by (auto simp: router_is_api_request_def path_has_api_prefix_def path_equals_def path_equals_loop_iff
      api_prefix_loop_iff simp del: api_prefix_loop.simps split: option.splits)

lemma length_print_nat: "n < 10 ^ k \<Longrightarrow> 0 < k \<Longrightarrow> length (print_nat n) \<le> k"
proof (induction n arbitrary: k rule: print_nat.induct)
  case (1 n)
  show ?case
  proof (cases "n < 10")
    case True
    with "1.prems" show ?thesis by (subst print_nat.simps) simp
  next
    case False
    then obtain k' where k': "k = Suc k'" "0 < k'" using "1.prems" by (cases k; cases "k - 1") auto
    have "n div 10 < 10 ^ k'" using "1.prems"(1) k'(1) by (simp add: less_mult_imp_div_less mult.commute)
    with "1.IH" [OF False _ k'(2)] have "length (print_nat (n div 10)) \<le> k'" by blast
    with False k' show ?thesis by (subst print_nat.simps) simp
  qed
qed

lemma length_print_uint64: "length (print_nat (unat (x :: uint64))) \<le> 20"
proof (rule length_print_nat)
  have "unat x < 2 ^ LENGTH(64)" by (rule unsigned_less)
  then show "unat x < 10 ^ 20" by simp
qed simp

lemma length_stats_json: "length (stats_json snap) < 512"
  using length_print_uint64 [of "sn_connections_accepted snap"] length_print_uint64 [of "sn_requests_total snap"]
    length_print_uint64 [of "sn_responses_2xx snap"] length_print_uint64 [of "sn_responses_4xx snap"]
    length_print_uint64 [of "sn_responses_5xx snap"] length_print_uint64 [of "sn_active_connections snap"]
  by (simp add: stats_json_def)

text \<open>What every handler keeps: the books, the rest of the world, and a consistent body.\<close>

definition keeps ::
  "http_response_t \<Rightarrow> 'a world_scheme \<Rightarrow> http_response_t \<Rightarrow> 'a world_scheme \<Rightarrow> bool" where
  "keeps r w r' w' = (balanced r w [] r' w' \<and> w' = w\<lparr>mem := mem w', closed := closed w'\<rparr>
     \<and> (response_ok r \<longrightarrow> response_ok r') \<and> (never_fails (mem w) \<longrightarrow> never_fails (mem w')))"

lemma keeps_refl [simp]: "keeps r w r w"
  by (simp add: keeps_def balanced_refl)

lemma keeps_trans:
  assumes "keeps r w r1 w1" and "keeps r1 w1 r2 w2"
  shows "keeps r w r2 w2"
proof -
  have "balanced r w [] r2 w2"
    using assms balanced_trans [of r w "[]" r1 w1 "[]" r2 w2] by (simp add: keeps_def)
  moreover have "w2 = w\<lparr>mem := mem w2, closed := closed w2\<rparr>"
    using assms resp_frame_trans unfolding keeps_def by blast
  ultimately show ?thesis using assms unfolding keeps_def by auto
qed

lemma destroy_keeps: "http_response_destroy r w = (r', w') \<Longrightarrow> keeps r w r' w'"
  using destroy_balanced destroy_frame destroy_facts(1) destroy_never_fails by (fastforce simp: keeps_def)

lemma set_status_keeps: "keeps r w (http_response_set_status r c) w"
  by (simp add: keeps_def set_status_balanced)

lemma add_header_keeps:
  assumes "http_response_add_header r n v (mem w) = (ok, r', h')"
  shows "keeps r w r' (w\<lparr>mem := h'\<rparr>)"
  using add_header_balanced [OF assms] add_header_facts(3) [OF assms] response_ok_add_header [OF assms]
  by (simp add: keeps_def)

lemma clear_body_keeps_mem:
  "clear_body r w = (r', w') \<Longrightarrow> w' = w\<lparr>mem := mem w', closed := closed w'\<rparr> \<and> outcomes (mem w') = outcomes (mem w)"
  by (auto simp: clear_body_def close_body_def free_body_def os_close_def)

lemma set_body_owned_frame:
  assumes "http_response_set_body_owned r b n w = (ok, r', w')"
  shows "w' = w\<lparr>mem := mem w', closed := closed w'\<rparr>" and "outcomes (mem w') = outcomes (mem w)" and "ok"
proof -
  obtain r1 w1 where c: "clear_body r w = (r1, w1)" by fastforce
  with assms have "w' = w1" "ok" by (auto simp: http_response_set_body_owned_def split: if_splits)
  with clear_body_keeps_mem [OF c] show "w' = w\<lparr>mem := mem w', closed := closed w'\<rparr>"
    and "outcomes (mem w') = outcomes (mem w)" and "ok" by simp_all
qed

lemma set_body_text_keeps:
  assumes "http_response_set_body_text r (Some t) w = (ok, r', w')"
  shows "keeps r w r' w'" and "never_fails (mem w) \<Longrightarrow> ok"
proof -
  obtain m h where m: "malloc (mem w) = (m, h)" by fastforce
  have "(never_fails (mem w) \<longrightarrow> ok \<and> never_fails (mem w'))"
  proof (cases m)
    case True
    with assms m have o: "http_response_set_body_owned r (Some t) (length t) (w\<lparr>mem := h\<rparr>) = (ok, r', w')"
      by (simp add: http_response_set_body_text_def)
    from set_body_owned_frame(2,3) [OF o] never_fails_malloc [OF _ m] show ?thesis by (auto simp: never_fails_def)
  next
    case False
    with never_fails_malloc [OF _ m] show ?thesis by auto
  qed
  moreover have "response_ok r \<longrightarrow> response_ok r'" using response_ok_set_body_text [OF assms] by simp
  ultimately show "keeps r w r' w'" and "never_fails (mem w) \<Longrightarrow> ok"
    using set_body_text_balanced [OF assms] set_body_text_frame [OF assms] by (auto simp: keeps_def)
qed

lemma set_body_copy_keeps:
  assumes "http_response_set_body_copy r b n w = (ok, r', w')" and "\<forall>s. b = Some s \<longrightarrow> n \<le> length s"
  shows "keeps r w r' w'" and "never_fails (mem w) \<Longrightarrow> ok \<or> (b = None \<and> n \<noteq> 0)"
proof -
  obtain m h where m: "malloc (mem w) = (m, h)" by fastforce
  have "w' = w\<lparr>mem := mem w', closed := closed w'\<rparr>
    \<and> (never_fails (mem w) \<longrightarrow> never_fails (mem w') \<and> (ok \<or> (b = None \<and> n \<noteq> 0)))"
  proof (cases "n = 0 \<or> b = None \<or> \<not> m")
    case True
    then consider "http_response_set_body_owned r None 0 w = (ok, r', w')" | "w' = w" "b = None" "n \<noteq> 0"
      | "w' = w\<lparr>mem := h\<rparr>" "\<not> m"
      using assms(1) m by (cases b) (auto simp: http_response_set_body_copy_def split: if_splits)
    then show ?thesis
    proof cases
      case 1
      from set_body_owned_frame [OF this] show ?thesis by (simp add: never_fails_def)
    next
      case 2
      then show ?thesis by simp
    next
      case 3
      with never_fails_malloc [OF _ m] show ?thesis by auto
    qed
  next
    case False
    then obtain s where s: "b = Some s" "n \<noteq> 0" "m" by auto
    with assms(1) m have o: "http_response_set_body_owned r (Some (take n s)) n (w\<lparr>mem := h\<rparr>) = (ok, r', w')"
      by (simp add: http_response_set_body_copy_def)
    note f = set_body_owned_frame [OF o]
    have "w' = w\<lparr>mem := mem w', closed := closed w'\<rparr>" by (subst f(1)) simp
    with f(2,3) never_fails_malloc [OF _ m] show ?thesis by (auto simp: never_fails_def)
  qed
  moreover have "response_ok r \<longrightarrow> response_ok r'" using response_ok_set_body_copy [OF assms(1) _ assms(2)] by simp
  ultimately show "keeps r w r' w'" and "never_fails (mem w) \<Longrightarrow> ok \<or> (b = None \<and> n \<noteq> 0)"
    using set_body_copy_balanced [OF assms(1)] by (auto simp: keeps_def)
qed

text \<open>A response built from a text: its status, its one header and its body.\<close>

definition text_response :: "string \<Rightarrow> int \<Rightarrow> string \<Rightarrow> http_response_t" where
  "text_response content_type status text = http_response_init\<lparr>rs_status_code := status,
     rs_reason_phrase := Some (http_reason_phrase status),
     rs_headers := Some [\<lparr>hd_name = ''Content-Type'', hd_value = content_type\<rparr>],
     rs_body_kind := HTTP_BODY_MEMORY, rs_body := Some text, rs_body_length := length text, rs_body_owned := True\<rparr>"

lemma build_with_type_keeps:
  assumes "build_with_type ct r c (Some t) w = (ok, r', w')"
  shows "keeps r w r' w'" and "never_fails (mem w) \<Longrightarrow> ok" and "ok \<Longrightarrow> r' = text_response ct c t"
proof -
  obtain r0 w1 where d: "http_response_destroy r w = (r0, w1)" by fastforce
  let ?r1 = "http_response_set_status http_response_init c"
  obtain g r2 w2 where t: "http_response_set_body_text ?r1 (Some t) w1 = (g, r2, w2)" by (metis prod_cases3)
  obtain a r3 h3 where h: "http_response_add_header r2 ''Content-Type'' ct (mem w2) = (a, r3, h3)" by (metis prod_cases3)
  have run: "(ok, r', w') = (if g then (a, r3, w2\<lparr>mem := h3\<rparr>) else (False, r2, w2))"
    unfolding assms [symmetric] by (simp add: build_with_type_def d t h Let_def)
  have k1: "keeps r w ?r1 w1"
    using keeps_trans [OF destroy_keeps [OF d, unfolded destroy_facts(1) [OF d]] set_status_keeps] .
  note k2 = keeps_trans [OF k1 set_body_text_keeps(1) [OF t]]
  note k3 = keeps_trans [OF k2 add_header_keeps [OF h]]
  show "keeps r w r' w'" using run k2 k3 by (cases g) auto
  show "ok" if "never_fails (mem w)"
  proof -
    have "never_fails (mem w1)" "never_fails (mem w2)" using that k1 k2 by (auto simp: keeps_def)
    with set_body_text_keeps(2) [OF t] add_header_facts(3) [OF h] run show ?thesis by auto
  qed
  have "r2 = ?r1\<lparr>rs_body_kind := HTTP_BODY_MEMORY, rs_body := Some t, rs_body_length := length t, rs_body_owned := True\<rparr>" if g
    using t that by (auto simp: http_response_set_body_text_def http_response_set_body_owned_def clear_body_def
        http_response_set_status_def http_response_init_def split: prod.splits if_splits)
  then show "r' = text_response ct c t" if ok
    using run that add_header_facts(1) [OF h]
    by (auto simp: text_response_def http_response_set_status_def http_response_init_def header_list_def split: if_splits)
qed

definition api_error_response :: "int \<Rightarrow> string \<Rightarrow> string option \<Rightarrow> http_response_t" where
  "api_error_response c t allow = (let base = text_response ''application/json'' c t in
     if allow = None \<or> allow = Some [] then base
     else base\<lparr>rs_headers := Some (header_list (rs_headers base) @ [\<lparr>hd_name = ''Allow'', hd_value = the allow\<rparr>])\<rparr>)"

lemma build_api_error_keeps:
  assumes "build_api_error r c t allow w = (ok, r', w')"
  shows "keeps r w r' w'" and "never_fails (mem w) \<Longrightarrow> ok" and "ok \<Longrightarrow> r' = api_error_response c t allow"
proof -
  obtain g r1 w1 where b: "build_with_type ''application/json'' r c (Some t) w = (g, r1, w1)" by (metis prod_cases3)
  note bf = build_with_type_keeps [OF b]
  have "keeps r w r' w' \<and> (never_fails (mem w) \<longrightarrow> ok) \<and> (ok \<longrightarrow> r' = api_error_response c t allow)"
  proof (cases "allow = None \<or> allow = Some [] \<or> \<not> g")
    case True
    with assms bf show ?thesis
      by (auto simp: build_api_error_def http_response_build_json_def b Let_def api_error_response_def
          split: option.splits if_splits)
  next
    case False
    then obtain a where a: "allow = Some a" "a \<noteq> []" "g" by auto
    obtain k r2 h2 where h: "http_response_add_header r1 ''Allow'' a (mem w1) = (k, r2, h2)" by (metis prod_cases3)
    have run: "ok = k" "r' = r2" "w' = w1\<lparr>mem := h2\<rparr>"
      using assms a h by (auto simp: build_api_error_def http_response_build_json_def b)
    have "never_fails (mem w) \<longrightarrow> ok" using bf(1) add_header_facts(3) [OF h] run by (auto simp: keeps_def)
    moreover have "ok \<longrightarrow> r' = api_error_response c t allow"
      using run add_header_facts(1) [OF h] bf(3) a by (simp add: Let_def api_error_response_def)
    ultimately show ?thesis unfolding run using keeps_trans [OF bf(1) add_header_keeps [OF h]] by simp
  qed
  then show "keeps r w r' w'" and "never_fails (mem w) \<Longrightarrow> ok" and "ok \<Longrightarrow> r' = api_error_response c t allow"
    by simp_all
qed

text \<open>The echo of a request.\<close>

definition echo_type :: "http_request_t \<Rightarrow> string" where
  "echo_type request = (case http_request_get_header request ''Content-Type'' of
     None \<Rightarrow> ''application/octet-stream'' | Some v \<Rightarrow> if v = [] then ''application/octet-stream'' else v)"

definition body_ok :: "http_request_t \<Rightarrow> bool" where
  "body_ok request = (case rq_body request of None \<Rightarrow> rq_body_length request = 0
     | Some b \<Rightarrow> rq_body_length request \<le> length b)"

lemma response_body_headers [simp]: "response_body (r\<lparr>rs_headers := hs\<rparr>) files = response_body r files"
  by (cases "rs_body_kind r") (simp_all add: response_body_def)

lemma handle_echo_keeps:
  assumes "handle_echo request r w = (ok, r', w')" and "body_ok request"
  shows "keeps r w r' w'" and "never_fails (mem w) \<Longrightarrow> ok"
    and "ok \<Longrightarrow> rs_status_code r' = 200 \<and> rs_headers r' = Some [\<lparr>hd_name = ''Content-Type'', hd_value = echo_type request\<rparr>]
      \<and> response_body r' files = take (rq_body_length request) (case rq_body request of None \<Rightarrow> [] | Some b \<Rightarrow> b)"
proof -
  obtain r0 w1 where d: "http_response_destroy r w = (r0, w1)" by fastforce
  let ?r1 = "http_response_set_status http_response_init 200"
  obtain g r2 w2 where t: "http_response_set_body_copy ?r1 (rq_body request) (rq_body_length request) w1 = (g, r2, w2)"
    by (metis prod_cases3)
  obtain a r3 h3 where h: "http_response_add_header r2 ''Content-Type'' (echo_type request) (mem w2) = (a, r3, h3)"
    by (metis prod_cases3)
  have run: "(ok, r', w') = (if g then (a, r3, w2\<lparr>mem := h3\<rparr>) else (False, r2, w2))"
    unfolding assms(1) [symmetric] handle_echo_def d prod.case t echo_type_def [symmetric] Let_def h by simp
  have len: "\<forall>s. rq_body request = Some s \<longrightarrow> rq_body_length request \<le> length s"
    using assms(2) by (auto simp: body_ok_def)
  have k1: "keeps r w ?r1 w1"
    using keeps_trans [OF destroy_keeps [OF d, unfolded destroy_facts(1) [OF d]] set_status_keeps] .
  note c = set_body_copy_keeps [OF t len]
  note k2 = keeps_trans [OF k1 c(1)]
  note k3 = keeps_trans [OF k2 add_header_keeps [OF h]]
  show "keeps r w r' w'" using run k2 k3 by (cases g) auto
  show "ok" if "never_fails (mem w)"
  proof -
    have "never_fails (mem w1)" "never_fails (mem w2)" using that k1 k2 by (auto simp: keeps_def)
    moreover have "\<not> (rq_body request = None \<and> rq_body_length request \<noteq> 0)"
      using assms(2) by (cases "rq_body request") (auto simp: body_ok_def)
    ultimately show ?thesis using c(2) add_header_facts(3) [OF h] run by auto
  qed
  have "rs_status_code r2 = 200 \<and> rs_headers r2 = None
      \<and> response_body r2 files = take (rq_body_length request) (case rq_body request of None \<Rightarrow> [] | Some b \<Rightarrow> b)" if g
    using t that by (auto simp: http_response_set_body_copy_def http_response_set_body_owned_def clear_body_def
        http_response_set_status_def http_response_init_def response_body_def split: prod.splits if_splits option.splits)
  then show "rs_status_code r' = 200 \<and> rs_headers r' = Some [\<lparr>hd_name = ''Content-Type'', hd_value = echo_type request\<rparr>]
      \<and> response_body r' files = take (rq_body_length request) (case rq_body request of None \<Rightarrow> [] | Some b \<Rightarrow> b)" if ok
    using run that add_header_facts(1) [OF h] by (auto simp: header_list_def split: if_splits)
qed

lemma handle_stats_eq:
  "handle_stats ctx r w = (case ctx_stats ctx of None \<Rightarrow> (False, r, w)
     | Some s \<Rightarrow> build_with_type ''application/json'' r 200 (Some (stats_json (server_stats_snapshot s))) w)"
  using length_stats_json
  by (cases "ctx_stats ctx") (auto simp: handle_stats_def http_response_build_json_def Let_def not_less [symmetric])

lemma handle_stats_keeps: "handle_stats ctx r w = (ok, r', w') \<Longrightarrow> keeps r w r' w'"
  using build_with_type_keeps(1) by (auto simp: handle_stats_eq split: option.splits)

lemma router_dispatch_keeps:
  assumes "router_dispatch ctx request r w = (rc, r', w')" and "body_ok request"
  shows "keeps r w r' w'"
proof (cases "rq_target request")
  case None
  with assms(1) show ?thesis by (simp add: router_dispatch_def)
next
  case (Some t)
  obtain ok r1 w1 where c: "(case dispatch_loop request ROUTES None of
            Inl handler \<Rightarrow> call_handler handler ctx request r w
          | Inr (Some matched_path) \<Rightarrow>
              build_api_error r 405 ''{\"error\":\"method not allowed\"}''
                (Some (case build_allow_header matched_path 64 of None \<Rightarrow> [] | Some a \<Rightarrow> a)) w
          | Inr None \<Rightarrow> build_api_error r 404 ''{\"error\":\"not found\"}'' None w) = (ok, r1, w1)"
    by (metis prod_cases3)
  have "r' = r1" "w' = w1" using assms(1) Some c by (auto simp: router_dispatch_def)
  moreover have "keeps r w r1 w1"
  proof (cases "dispatch_loop request ROUTES None")
    case (Inl handler)
    with c have "call_handler handler ctx request r w = (ok, r1, w1)" by simp
    then show ?thesis
      using handle_echo_keeps(1) [OF _ assms(2)] handle_stats_keeps build_with_type_keeps(1)
      by (cases handler) (auto simp: handle_health_def http_response_build_json_def)
  next
    case (Inr m)
    with c show ?thesis using build_api_error_keeps(1) by (cases m) auto
  qed
  ultimately show ?thesis by simp
qed

lemma dispatch_loop_routes:
  assumes "rq_target request = Some t"
  shows "dispatch_loop request ROUTES None =
    (if route_path t = ''/api/health''
     then (if rq_method request \<in> {HTTP_METHOD_GET, HTTP_METHOD_HEAD} then Inl handle_health_fn else Inr (Some ''/api/health''))
     else if route_path t = ''/api/echo''
     then (if rq_method request = HTTP_METHOD_POST then Inl handle_echo_fn else Inr (Some ''/api/echo''))
     else if route_path t = ''/api/stats''
     then (if rq_method request \<in> {HTTP_METHOD_GET, HTTP_METHOD_HEAD} then Inl handle_stats_fn else Inr (Some ''/api/stats''))
     else Inr None)"
proof -
  have "path_equals (Some t) p \<longleftrightarrow> route_path t = p" if "CHR ''?'' \<notin> set p" for p
    using path_equals_loop_iff [OF that] by (simp add: path_equals_def)
  then have eq: "path_equals (Some t) ''/api/health'' \<longleftrightarrow> route_path t = ''/api/health''"
    "path_equals (Some t) ''/api/echo'' \<longleftrightarrow> route_path t = ''/api/echo''"
    "path_equals (Some t) ''/api/stats'' \<longleftrightarrow> route_path t = ''/api/stats''" by simp_all
  show ?thesis
    unfolding ROUTES_def dispatch_loop.simps route_t.simps assms eq by (auto simp: method_compatible_def)
qed

lemma allow_headers:
  "build_allow_header ''/api/health'' 64 = Some ''GET, HEAD''"
  "build_allow_header ''/api/stats'' 64 = Some ''GET, HEAD''"
  "build_allow_header ''/api/echo'' 64 = Some ''POST''"
  by code_simp+

section \<open>Properties\<close>

text \<open>
  C11. The routing table: when memory does not run out every API request is answered. The three
  known paths (without the query) answer 200 to their methods, HEAD included where GET is allowed,
  and 405 with the right \<open>Allow\<close> header to all others; every other path answers 404. The echo has
  the body and the content type of the request, the statistics are those of the counters.
\<close>

theorem router_dispatch_table:
  assumes "rq_target request = Some t" and "body_ok request" and "never_fails (mem w)" and "ctx_stats ctx = Some s"
    and "router_dispatch ctx request r w = (rc, r', w')"
  shows "rc = ROUTER_HANDLED \<and>
    (if route_path t = ''/api/health'' \<and> rq_method request \<in> {HTTP_METHOD_GET, HTTP_METHOD_HEAD}
     then r' = text_response ''application/json'' 200 ''{\"status\":\"ok\"}''
     else if route_path t = ''/api/stats'' \<and> rq_method request \<in> {HTTP_METHOD_GET, HTTP_METHOD_HEAD}
     then r' = text_response ''application/json'' 200 (stats_json (server_stats_snapshot s))
     else if route_path t = ''/api/echo'' \<and> rq_method request = HTTP_METHOD_POST
     then rs_status_code r' = 200
       \<and> rs_headers r' = Some [\<lparr>hd_name = ''Content-Type'', hd_value = echo_type request\<rparr>]
       \<and> response_body r' (file_data w) = take (rq_body_length request) (case rq_body request of None \<Rightarrow> [] | Some b \<Rightarrow> b)
     else if route_path t \<in> {''/api/health'', ''/api/stats''}
     then r' = api_error_response 405 ''{\"error\":\"method not allowed\"}'' (Some ''GET, HEAD'')
     else if route_path t = ''/api/echo''
     then r' = api_error_response 405 ''{\"error\":\"method not allowed\"}'' (Some ''POST'')
     else r' = api_error_response 404 ''{\"error\":\"not found\"}'' None)"
proof -
  note loop = dispatch_loop_routes [OF assms(1)]
  define res where "res = (case dispatch_loop request ROUTES None of
            Inl handler \<Rightarrow> call_handler handler ctx request r w
          | Inr (Some matched_path) \<Rightarrow>
              build_api_error r 405 ''{\"error\":\"method not allowed\"}''
                (Some (case build_allow_header matched_path 64 of None \<Rightarrow> [] | Some a \<Rightarrow> a)) w
          | Inr None \<Rightarrow> build_api_error r 404 ''{\"error\":\"not found\"}'' None w)"
  have res: "(rc, r', w') = (if fst res then ROUTER_HANDLED else ROUTER_ERROR, snd res)"
    unfolding assms(5) [symmetric] using assms(1) by (simp add: router_dispatch_def res_def split: prod.splits)
  have built: ?thesis if "res = build_with_type ''application/json'' r 200 (Some doc) w"
    "route_path t = ''/api/health'' \<and> rq_method request \<in> {HTTP_METHOD_GET, HTTP_METHOD_HEAD} \<and> doc = ''{\"status\":\"ok\"}''
     \<or> route_path t = ''/api/stats'' \<and> rq_method request \<in> {HTTP_METHOD_GET, HTTP_METHOD_HEAD}
         \<and> doc = stats_json (server_stats_snapshot s)" for doc
  proof -
    obtain ok r1 w1 where b: "build_with_type ''application/json'' r 200 (Some doc) w = (ok, r1, w1)" by (metis prod_cases3)
    note f = build_with_type_keeps [OF b]
    from that(1) b res f(2,3) assms(3) have "rc = ROUTER_HANDLED" "r' = text_response ''application/json'' 200 doc" by auto
    with that(2) show ?thesis by auto
  qed
  have err: "rc = ROUTER_HANDLED \<and> r' = api_error_response c doc allow" if "res = build_api_error r c doc allow w" for c doc allow
  proof -
    obtain ok r1 w1 where b: "build_api_error r c doc allow w = (ok, r1, w1)" by (metis prod_cases3)
    from that b res build_api_error_keeps(2,3) [OF b] assms(3) show ?thesis by auto
  qed
  consider (health) "route_path t = ''/api/health''" "rq_method request \<in> {HTTP_METHOD_GET, HTTP_METHOD_HEAD}"
    | (stats) "route_path t = ''/api/stats''" "rq_method request \<in> {HTTP_METHOD_GET, HTTP_METHOD_HEAD}"
    | (echo) "route_path t = ''/api/echo''" "rq_method request = HTTP_METHOD_POST"
    | (h405) "route_path t = ''/api/health''" "rq_method request \<notin> {HTTP_METHOD_GET, HTTP_METHOD_HEAD}"
    | (s405) "route_path t = ''/api/stats''" "rq_method request \<notin> {HTTP_METHOD_GET, HTTP_METHOD_HEAD}"
    | (e405) "route_path t = ''/api/echo''" "rq_method request \<noteq> HTTP_METHOD_POST"
    | (other) "route_path t \<notin> {''/api/health'', ''/api/stats'', ''/api/echo''}" by blast
  then show ?thesis
  proof cases
    case health
    then have "res = build_with_type ''application/json'' r 200 (Some ''{\"status\":\"ok\"}'') w"
      unfolding res_def loop by (simp add: handle_health_def http_response_build_json_def)
    with health show ?thesis by (intro built) auto
  next
    case stats
    then have "res = build_with_type ''application/json'' r 200 (Some (stats_json (server_stats_snapshot s))) w"
      unfolding res_def loop by (simp add: handle_stats_eq assms(4))
    with stats show ?thesis by (intro built) auto
  next
    case echo
    obtain ok r1 w1 where e: "handle_echo request r w = (ok, r1, w1)" by (metis prod_cases3)
    then have "res = (ok, r1, w1)" unfolding res_def loop using echo by simp
    with res handle_echo_keeps(2) [OF e assms(2,3)] handle_echo_keeps(3) [OF e assms(2), of "file_data w"] echo
    show ?thesis by auto
  next
    case h405
    then have "res = build_api_error r 405 ''{\"error\":\"method not allowed\"}'' (Some ''GET, HEAD'') w"
      unfolding res_def loop by (simp add: allow_headers)
    from err [OF this] h405 show ?thesis by auto
  next
    case s405
    then have "res = build_api_error r 405 ''{\"error\":\"method not allowed\"}'' (Some ''GET, HEAD'') w"
      unfolding res_def loop by (simp add: allow_headers)
    from err [OF this] s405 show ?thesis by auto
  next
    case e405
    then have "res = build_api_error r 405 ''{\"error\":\"method not allowed\"}'' (Some ''POST'') w"
      unfolding res_def loop by (simp add: allow_headers)
    from err [OF this] e405 show ?thesis by auto
  next
    case other
    then have "res = build_api_error r 404 ''{\"error\":\"not found\"}'' None w"
      unfolding res_def loop by simp
    from err [OF this] other show ?thesis by auto
  qed
qed

definition sample_ctx :: router_context_t where
  "sample_ctx = \<lparr>ctx_config = config_set_defaults, ctx_stats = Some sample_stats\<rparr>"

definition sample_echo :: http_request_t where
  "sample_echo = sample_post_request\<lparr>rq_target := Some ''/api/echo?x''\<rparr>"

theorem router_dispatch_table_witness:
  "\<exists>r' w'. router_dispatch sample_ctx sample_echo http_response_init sample_world = (ROUTER_HANDLED, r', w')
     \<and> rs_status_code r' = 200 \<and> response_body r' (file_data sample_world) = ''hi''"
proof -
  obtain rc r' w' where run: "router_dispatch sample_ctx sample_echo http_response_init sample_world = (rc, r', w')"
    by (metis prod_cases3)
  have t: "rq_target sample_echo = Some ''/api/echo?x''" and m: "rq_method sample_echo = HTTP_METHOD_POST"
    and b: "body_ok sample_echo" "rq_body sample_echo = Some ''hi''" "rq_body_length sample_echo = 2" by code_simp+
  have nf: "never_fails (mem sample_world)" by (simp add: sample_world_def never_fails_def)
  have c: "ctx_stats sample_ctx = Some sample_stats" by (simp add: sample_ctx_def)
  from router_dispatch_table [OF t b(1) nf c run] m b(2,3) run show ?thesis by simp
qed

text \<open>
  The reserved namespace is compared byte by byte, before percent-decoding: a target that
  spells \<open>/api\<close> with an escape is not an API request, but names the directory \<open>api\<close> for the
  static files.
\<close>

theorem router_api_namespace_is_lexical:
  "\<not> router_is_api_request (sample_get ''/%61pi/health'')
   \<and> target_segments ''/%61pi/health'' = Inr [''api'', ''health'']
   \<and> router_is_api_request (sample_get ''/api/health?x'')
   \<and> target_segments ''/api/health?x'' = Inr [''api'', ''health'']"
  by code_simp

end
