(* ===== verification/Client_Handler.thy ===== *)
theory Client_Handler
  imports Http_Reader Http_Connection Router
begin

text \<open>
  The handler of one connection, \<^verbatim>\<open>src/client_handler.c\<close>: read a request, parse it, route it or
  serve a file, announce the connection policy, send, and repeat.

  The state \<open>conn\<close> adds the receiving side of the socket, the counters and the socket option to
  the state of the file component. The local variables of one turn of the loop are a record. A
  function returns \<open>None\<close> when it waits for an event the scripts do not have. The counters are
  those this handler sees: what other threads add in between is left to the composition of the
  threads. Logging is not part of the model.
\<close>

section \<open>State\<close>

record conn = site +
  net :: conn_env
  stats :: server_stats_t
  sockopt_ok :: bool
  rcvtimeo :: "int option"

record turn_t =
  tn_raw :: "bytes option"
  tn_request :: http_request_t
  tn_response :: http_response_t
  tn_omit_body :: bool
  tn_status :: int
  tn_response_ready :: bool
  tn_keep_alive :: bool
  tn_force_close :: bool

definition turn_init :: "bytes option \<Rightarrow> turn_t" where
  "turn_init raw = \<lparr>tn_raw = raw, tn_request = http_request_init, tn_response = http_response_init,
     tn_omit_body = False, tn_status = -1, tn_response_ready = False, tn_keep_alive = False,
     tn_force_close = False\<rparr>"

section \<open>Status codes\<close>

fun status_for_read_result :: "http_read_result_t \<Rightarrow> int" where
  "status_for_read_result HTTP_READ_TOO_LARGE = 413"
| "status_for_read_result HTTP_READ_UNSUPPORTED_TRANSFER_ENCODING = 501"
| "status_for_read_result HTTP_READ_TIMEOUT = 408"
| "status_for_read_result HTTP_READ_INVALID_CONTENT_LENGTH = 400"
| "status_for_read_result HTTP_READ_BAD_REQUEST = 400"
| "status_for_read_result HTTP_READ_OUT_OF_MEMORY = 500"
| "status_for_read_result _ = 400"

fun status_for_parse_result :: "http_parse_result_t \<Rightarrow> int" where
  "status_for_parse_result HTTP_PARSE_OK = 200"
| "status_for_parse_result HTTP_PARSE_UNSUPPORTED_METHOD = 405"
| "status_for_parse_result HTTP_PARSE_UNSUPPORTED_VERSION = 505"
| "status_for_parse_result HTTP_PARSE_TOO_LARGE = 413"
| "status_for_parse_result HTTP_PARSE_TOO_MANY_HEADERS = 400"
| "status_for_parse_result HTTP_PARSE_INVALID_CONTENT_LENGTH = 400"
| "status_for_parse_result HTTP_PARSE_UNSUPPORTED_TRANSFER_ENCODING = 501"
| "status_for_parse_result HTTP_PARSE_OUT_OF_MEMORY = 500"
| "status_for_parse_result HTTP_PARSE_BAD_REQUEST = 400"

fun status_for_static_result :: "static_file_result_t \<Rightarrow> int" where
  "status_for_static_result STATIC_FILE_OK = 200"
| "status_for_static_result STATIC_FILE_NOT_FOUND = 404"
| "status_for_static_result STATIC_FILE_FORBIDDEN = 403"
| "status_for_static_result STATIC_FILE_BAD_TARGET = 400"
| "status_for_static_result STATIC_FILE_TOO_LARGE = 413"
| "status_for_static_result STATIC_FILE_OUT_OF_MEMORY = 500"
| "status_for_static_result STATIC_FILE_IO_ERROR = 500"

definition error_heading_for_status :: "int \<Rightarrow> string" where
  "error_heading_for_status status =
     (if status = 400 then ''Bad Request''
      else if status = 403 then ''Forbidden''
      else if status = 404 then ''Not Found''
      else if status = 405 then ''Method Not Allowed''
      else if status = 408 then ''Request Timeout''
      else if status = 413 then ''Payload Too Large''
      else if status = 501 then ''Not Implemented''
      else if status = 505 then ''HTTP Version Not Supported''
      else ''Internal Server Error'')"

definition status_requires_close :: "int \<Rightarrow> bool" where
  "status_requires_close status = (status \<in> {400, 408, 413, 501, 505, 500})"

section \<open>Responses\<close>

definition build_static_error_response ::
  "server_config_t \<Rightarrow> http_response_t \<Rightarrow> int \<Rightarrow> 'a site_scheme \<Rightarrow> int \<times> http_response_t \<times> 'a site_scheme" where
  "build_static_error_response config response status w =
     (case http_response_destroy response w of (_, w1) \<Rightarrow>
      (case (if status = 404
             then static_files_build_not_found (Some (document_root config)) http_response_init w1
             else static_files_build_error http_response_init status (error_heading_for_status status) w1) of
        (built, r, w2) \<Rightarrow>
         if built then (status, r, w2)
         else (case http_response_destroy r w2 of (r', w3) \<Rightarrow>
           (case http_response_build_text r' status (Some (error_heading_for_status status)) w3 of
             (ok, r'', w4) \<Rightarrow> (if \<not> ok then -1 else status, r'', w4)))))"

definition handle_static_get_head ::
  "server_config_t \<Rightarrow> http_request_t \<Rightarrow> http_response_t \<Rightarrow> bool \<Rightarrow> 'a site_scheme \<Rightarrow>
   int \<times> http_response_t \<times> 'a site_scheme" where
  "handle_static_get_head config request response load_body w =
     (case static_files_serve (Some (document_root config)) request response load_body w of
       (result, r, w1) \<Rightarrow>
         if result = STATIC_FILE_OK then (200, r, w1)
         else build_static_error_response config r (status_for_static_result result) w1)"

definition set_recv_timeout :: "int \<Rightarrow> 'a conn_scheme \<Rightarrow> bool \<times> 'a conn_scheme" where
  "set_recv_timeout timeout_sec w =
     (if sockopt_ok w then (True, w\<lparr>rcvtimeo := Some timeout_sec\<rparr>) else (False, w))"

section \<open>One turn of the loop\<close>

text \<open>A read that failed in a way the client is told about.\<close>

definition handle_read_error ::
  "server_config_t \<Rightarrow> int \<Rightarrow> turn_t \<Rightarrow> 'a conn_scheme \<Rightarrow> turn_t \<times> 'a conn_scheme" where
  "handle_read_error config status t w =
     (case build_static_error_response config (tn_response t) status w of (st, r, w') \<Rightarrow>
       (if 0 \<le> st
        then t\<lparr>tn_response := r, tn_status := st, tn_response_ready := True, tn_force_close := True\<rparr>
        else t\<lparr>tn_response := r, tn_status := st\<rparr>, w'))"

text \<open>A request that parsed: the router, the files, or 405.\<close>

definition route_request ::
  "server_config_t \<Rightarrow> turn_t \<Rightarrow> 'a conn_scheme \<Rightarrow> turn_t \<times> 'a conn_scheme" where
  "route_request config t w =
     (let request = tn_request t in
      if router_is_api_request request then
        (case router_dispatch \<lparr>ctx_config = config, ctx_stats = Some (stats w)\<rparr> request (tn_response t) w of
          (routed, r, w1) \<Rightarrow>
            if routed \<noteq> ROUTER_HANDLED then
              (case build_static_error_response config r 500 w1 of (st, r', w2) \<Rightarrow>
                (t\<lparr>tn_response := r', tn_status := (if 0 \<le> st then st else -1),
                   tn_response_ready := (tn_response_ready t \<or> 0 \<le> st), tn_force_close := True\<rparr>, w2))
            else (t\<lparr>tn_response := r, tn_status := rs_status_code r, tn_response_ready := True\<rparr>, w1))
      else if rq_method request = HTTP_METHOD_GET \<or> rq_method request = HTTP_METHOD_HEAD then
        (case handle_static_get_head config request (tn_response t) (rq_method request = HTTP_METHOD_GET) w of
          (st, r, w1) \<Rightarrow>
            (t\<lparr>tn_response := r, tn_status := st, tn_response_ready := (tn_response_ready t \<or> 0 \<le> st)\<rparr>, w1))
      else
        (case build_static_error_response config (tn_response t) 405 w of (st, r, w1) \<Rightarrow>
          (t\<lparr>tn_response := r, tn_status := (if 0 \<le> st then st else -1),
             tn_response_ready := (tn_response_ready t \<or> 0 \<le> st)\<rparr>, w1)))"

text \<open>What the status forces on the connection.\<close>

definition close_on_status :: "turn_t \<Rightarrow> turn_t" where
  "close_on_status t =
     (if 0 \<le> tn_status t \<and> status_requires_close (tn_status t)
      then t\<lparr>tn_force_close := True, tn_keep_alive := False\<rparr> else t)"

definition handle_request ::
  "server_config_t \<Rightarrow> turn_t \<Rightarrow> 'a conn_scheme \<Rightarrow> turn_t \<times> 'a conn_scheme" where
  "handle_request config t w =
     (let t1 = t\<lparr>tn_omit_body := (rq_method (tn_request t) = HTTP_METHOD_HEAD),
                 tn_keep_alive := http_request_wants_keep_alive (tn_request t)\<rparr>
      in (case route_request config t1 w of (t2, w2) \<Rightarrow> (close_on_status t2, w2)))"

definition handle_message ::
  "server_config_t \<Rightarrow> turn_t \<Rightarrow> 'a conn_scheme \<Rightarrow> turn_t \<times> 'a conn_scheme" where
  "handle_message config t w =
     (let w1 = w\<lparr>stats := server_stats_request_received (stats w)\<rparr> in
      (case http_parse_request (case tn_raw t of None \<Rightarrow> [] | Some raw \<Rightarrow> raw) (mem w1) of
        (parse_result, request, h) \<Rightarrow>
         let t1 = t\<lparr>tn_request := request\<rparr>; w2 = w1\<lparr>mem := h\<rparr> in
         if parse_result \<noteq> HTTP_PARSE_OK then
           (case build_static_error_response config (tn_response t1) (status_for_parse_result parse_result) w2 of
             (st, r, w3) \<Rightarrow>
               (if 0 \<le> st
                then t1\<lparr>tn_response := r, tn_status := status_for_parse_result parse_result,
                        tn_response_ready := True, tn_force_close := True\<rparr>
                else t1\<lparr>tn_response := r, tn_status := -1, tn_force_close := True\<rparr>, w3))
         else handle_request config t1 w2))"

text \<open>The end of a turn: the response, the request and the message are released.\<close>

definition finish_turn :: "turn_t \<Rightarrow> 'a conn_scheme \<Rightarrow> 'a conn_scheme" where
  "finish_turn t w =
     (case http_response_destroy (tn_response t) w of (_, w1) \<Rightarrow>
      (case http_request_destroy (tn_request t) (mem w1) of (_, h) \<Rightarrow>
        w1\<lparr>mem := c_free (tn_raw t) h\<rparr>))"

text \<open>The policy, and the second attempt to announce a close when the first failed.\<close>

definition announce ::
  "turn_t \<Rightarrow> 'a conn_scheme \<Rightarrow> turn_t \<times> 'a conn_scheme" where
  "announce t w =
     (case http_response_apply_connection_policy (tn_response t) (tn_keep_alive t \<and> \<not> tn_force_close t)
         (rq_version (tn_request t)) (mem w) of (ok, r, h) \<Rightarrow>
       if ok then (t\<lparr>tn_response := r\<rparr>, w\<lparr>mem := h\<rparr>)
       else (case http_response_apply_connection_policy r False (rq_version (tn_request t)) h of (_, r', h') \<Rightarrow>
         (t\<lparr>tn_response := r', tn_force_close := True\<rparr>, w\<lparr>mem := h'\<rparr>)))"

definition count_request :: "nat \<Rightarrow> turn_t \<Rightarrow> turn_t" where
  "count_request requests_on_connection t =
     (if HTTP_MAX_REQUESTS_PER_CONNECTION \<le> requests_on_connection + 1
      then t\<lparr>tn_force_close := True, tn_keep_alive := False\<rparr> else t)"

text \<open>\<open>send_one\<close> with the number of requests so far; the result says whether the loop goes on.\<close>

definition send_one :: "nat \<Rightarrow> turn_t \<Rightarrow> 'a conn_scheme \<Rightarrow> (bool \<times> 'a conn_scheme) option" where
  "send_one requests_on_connection t w =
     (let t1 = count_request requests_on_connection t in
      if tn_response_ready t1 \<and> 0 \<le> tn_status t1 then
        (case announce t1 w of (t2, w1) \<Rightarrow>
         (case http_response_send (tn_response t2) (tn_omit_body t2) w1 of
            None \<Rightarrow> None
          | Some (sent_ok, w2) \<Rightarrow>
            let t3 = (if \<not> sent_ok then t2\<lparr>tn_force_close := True\<rparr> else t2);
                w3 = (if \<not> sent_ok then w2
                      else w2\<lparr>stats := server_stats_response_sent (stats w2) (tn_status t2)\<rparr>)
            in Some (\<not> (tn_force_close t3 \<or> \<not> tn_keep_alive t3), finish_turn t3 w3)))
      else Some (False, finish_turn t1 w))"

definition client_turn ::
  "server_config_t \<Rightarrow> http_reader_t \<Rightarrow> nat \<Rightarrow> 'a conn_scheme \<Rightarrow> (bool \<times> http_reader_t \<times> 'a conn_scheme) option" where
  "client_turn config reader requests_on_connection w =
     (case http_reader_next_request (keep_alive_timeout_sec config) (request_timeout_sec config)
         reader (net w) (mem w) of
        None \<Rightarrow> None
      | Some ((read_result, raw), reader', env, h) \<Rightarrow>
        let w1 = w\<lparr>net := env, mem := h\<rparr>; t = turn_init raw in
        if read_result = HTTP_READ_CLIENT_CLOSED then Some (False, reader', finish_turn t w1)
        else if read_result = HTTP_READ_TIMEOUT \<and> rd_bytes reader = [] \<and> rd_bytes reader' = []
        then Some (False, reader', finish_turn t w1)
        else if read_result = HTTP_READ_IO_ERROR then Some (False, reader', finish_turn t w1)
        else
          (case (if read_result = HTTP_READ_TIMEOUT then handle_read_error config 408 t w1
                 else if read_result \<noteq> HTTP_READ_OK
                 then handle_read_error config (status_for_read_result read_result) t w1
                 else handle_message config t w1) of (t2, w2) \<Rightarrow>
            map_option (\<lambda>(go_on, w3). (go_on, reader', w3)) (send_one requests_on_connection t2 w2)))"

section \<open>The connection\<close>

lemma announce_turn:
  assumes "announce t w = (t', w')"
  shows "t' = t\<lparr>tn_response := tn_response t', tn_force_close := tn_force_close t'\<rparr>"
    and "tn_force_close t \<Longrightarrow> tn_force_close t'"
proof -
  obtain ok r h where a: "http_response_apply_connection_policy (tn_response t) (tn_keep_alive t \<and> \<not> tn_force_close t)
      (rq_version (tn_request t)) (mem w) = (ok, r, h)" by (metis prod_cases3)
  obtain ok' r' h' where b: "http_response_apply_connection_policy r False (rq_version (tn_request t)) h = (ok', r', h')"
    by (metis prod_cases3)
  have "t' = (if ok then t\<lparr>tn_response := r\<rparr> else t\<lparr>tn_response := r', tn_force_close := True\<rparr>)"
    using assms by (simp add: announce_def a b split: if_splits)
  then show "t' = t\<lparr>tn_response := tn_response t', tn_force_close := tn_force_close t'\<rparr>"
    and "tn_force_close t \<Longrightarrow> tn_force_close t'" by (cases ok; simp)+
qed

lemma finish_turn_force [simp]: "finish_turn (t\<lparr>tn_force_close := b\<rparr>) w = finish_turn t w"
  by (simp add: finish_turn_def)

lemma send_one_cases:
  assumes "send_one n t w = Some (go_on, w')"
  obtains (skip) "\<not> (tn_response_ready t \<and> 0 \<le> tn_status t)" "\<not> go_on" "w' = finish_turn (count_request n t) w"
  | (sent) t2 w1 ok w2 where "tn_response_ready t" "0 \<le> tn_status t" "announce (count_request n t) w = (t2, w1)"
      "http_response_send (tn_response t2) (tn_omit_body t2) w1 = Some (ok, w2)"
      "go_on = (ok \<and> \<not> tn_force_close t2 \<and> tn_keep_alive t2)"
      "w' = finish_turn t2 (if ok then w2\<lparr>stats := server_stats_response_sent (stats w2) (tn_status t2)\<rparr> else w2)"
proof -
  define t1 where "t1 = count_request n t"
  have t1: "tn_response_ready t1 = tn_response_ready t" "tn_status t1 = tn_status t"
    by (simp_all add: t1_def count_request_def)
  note run = assms [unfolded send_one_def t1_def [symmetric] Let_def]
  show thesis
  proof (cases "tn_response_ready t1 \<and> 0 \<le> tn_status t1")
    case False
    have "Some (False, finish_turn t1 w) = Some (go_on, w')" using run unfolding if_not_P [OF False] .
    with False t1 show thesis by (intro skip) (auto simp: t1_def)
  next
    case True
    obtain t2 w1 where a: "announce t1 w = (t2, w1)" by fastforce
    note run = run [unfolded if_P [OF True] a prod.case]
    then obtain ok w2 where b: "http_response_send (tn_response t2) (tn_omit_body t2) w1 = Some (ok, w2)"
      by (cases "http_response_send (tn_response t2) (tn_omit_body t2) w1") auto
    show thesis
      by (rule sent [of t2 w1 ok w2]) (use run True t1 a b in \<open>cases ok; auto simp: t1_def\<close>)+
  qed
qed

lemma send_one_continues:
  assumes "send_one n t w = Some (True, w')"
  shows "n + 1 < HTTP_MAX_REQUESTS_PER_CONNECTION"
  using assms
proof (cases rule: send_one_cases)
  case (sent t2 w1 ok w2)
  then have "\<not> tn_force_close (count_request n t)" using announce_turn(2) by metis
  then show ?thesis by (simp add: count_request_def split: if_splits)
qed simp

lemma client_turn_continues:
  "client_turn config reader n w = Some (True, reader', w') \<Longrightarrow> n + 1 < HTTP_MAX_REQUESTS_PER_CONNECTION"
  using send_one_continues [of n]
  by (auto simp: client_turn_def Let_def split: option.splits prod.splits if_splits)

function client_loop ::
  "server_config_t \<Rightarrow> http_reader_t \<Rightarrow> nat \<Rightarrow> 'a conn_scheme \<Rightarrow> (http_reader_t \<times> 'a conn_scheme) option" where
  "client_loop config reader requests_on_connection w =
     (case client_turn config reader requests_on_connection w of
        None \<Rightarrow> None
      | Some (go_on, reader', w') \<Rightarrow>
        if \<not> go_on then Some (reader', w')
        else client_loop config reader' (requests_on_connection + 1) w')"
  by pat_completeness auto
termination
  by (relation "measure (\<lambda>(_, _, n, _). HTTP_MAX_REQUESTS_PER_CONNECTION - n)")
    (auto dest: client_turn_continues)

declare client_loop.simps [simp del]

definition client_handle :: "server_config_t \<Rightarrow> int \<Rightarrow> 'a conn_scheme \<Rightarrow> 'a conn_scheme option" where
  "client_handle config client_fd w =
     (let backstop = (if keep_alive_timeout_sec config < request_timeout_sec config
                      then request_timeout_sec config else keep_alive_timeout_sec config);
          w1 = snd (set_recv_timeout backstop w)
      in (case client_loop config http_reader_init 0 w1 of
            None \<Rightarrow> None
          | Some (reader, w2) \<Rightarrow>
            (case http_reader_destroy reader (mem w2) of (_, h) \<Rightarrow>
              let w3 = os_close client_fd (w2\<lparr>mem := h\<rparr>)
              in Some (w3\<lparr>stats := server_stats_connection_finished (stats w3)\<rparr>))))"

end
