(* ===== verification/Client_Handler_Properties.thy ===== *)
theory Client_Handler_Properties
  imports Client_Handler
begin

text \<open>
  The properties of a connection: every block is released and every descriptor closed once, the
  bytes on the wire are whole responses with at most a cut-off last one, the counters match them,
  and the announced policy is what the handler does.
\<close>

section \<open>The books of a turn\<close>

lemma site_frame_conn:
  assumes "site_frame w w'"
  shows "net w' = net w" and "stats w' = stats w" and "rcvtimeo w' = rcvtimeo w" and "sockopt_ok w' = sockopt_ok w"
  using site_frame_keeps(8) [OF assms] by (cases w; cases w'; simp)+

lemma books_trans:
  assumes "books r w fds r1 w1" and "books r1 w1 fds' r2 w2"
  shows "books r w (fds @ fds') r2 w2"
  using assms by (simp add: books_def)

text \<open>What building a response may do: files are opened, memory and descriptors are accounted for.\<close>

definition built ::
  "http_response_t \<Rightarrow> 'a site_scheme \<Rightarrow> http_response_t \<Rightarrow> 'a site_scheme \<Rightarrow> bool" where
  "built r w r' w' = (site_frame w w'
     \<and> (\<exists>new. opened w' = opened w @ new \<and> books r w (map snd new) r' w')
     \<and> (response_ok r \<longrightarrow> response_ok r'))"

lemma built_trans:
  assumes "built r w r1 w1" and "built r1 w1 r2 w2"
  shows "built r w r2 w2"
proof -
  from assms obtain new new' where n: "opened w1 = opened w @ new" "books r w (map snd new) r1 w1"
    "opened w2 = opened w1 @ new'" "books r1 w1 (map snd new') r2 w2" by (auto simp: built_def)
  then have "opened w2 = opened w @ (new @ new') \<and> books r w (map snd (new @ new')) r2 w2"
    using books_trans [OF n(2,4)] by simp
  then show ?thesis using assms site_frame_trans unfolding built_def by blast
qed

lemma keeps_built:
  assumes "keeps r (w :: 'a site_scheme) r' w'"
  shows "built r w r' w'"
proof -
  have f: "w' = w\<lparr>mem := mem w', closed := closed w'\<rparr>" using assms by (simp add: keeps_def)
  have "books r w (map snd []) r' w'" using assms balanced_books by (auto simp: keeps_def)
  with resp_site_frame [OF f] assms show ?thesis
    unfolding built_def keeps_def by (metis append_Nil2)
qed

lemma serve_built:
  assumes "static_files_serve (Some root) request r lb w = (rc, r', w')"
  shows "built r w r' w'" and "rc = STATIC_FILE_OK \<Longrightarrow> rs_status_code r' = 200"
proof -
  have "built r w r' w' \<and> (rc = STATIC_FILE_OK \<longrightarrow> rs_status_code r' = 200)"
  proof (cases "rq_target request")
    case None
    with assms have "r' = r" "w' = w" "rc \<noteq> STATIC_FILE_OK" by (auto simp: static_files_serve_def)
    then show ?thesis by (auto simp: built_def balanced_books [OF balanced_refl] intro!: exI [of _ "[]"])
  next
    case (Some t)
    note f = serve_facts [OF assms Some]
    then obtain new where "opened w' = opened w @ new" "balanced r w (map snd new) r' w'" by blast
    moreover have "response_ok r'" "rc = STATIC_FILE_OK \<longrightarrow> rs_status_code r' = 200"
      using f by (auto split: if_splits)
    ultimately show ?thesis using f balanced_books unfolding built_def by blast
  qed
  then show "built r w r' w'" and "rc = STATIC_FILE_OK \<Longrightarrow> rs_status_code r' = 200" by simp_all
qed

lemma build_error_built:
  assumes "static_files_build_error r c heading (w :: 'a site_scheme) = (ok, r', w')"
  shows "built r w r' w'"
proof -
  note f = build_error_facts [OF assms]
  have "books r w (map snd []) r' w'" using balanced_books [OF f(1)] by simp
  with resp_site_frame [OF f(2)] f(3) show ?thesis unfolding built_def by (metis append_Nil2)
qed

lemma build_not_found_built:
  assumes "static_files_build_not_found (Some root) r w = (ok, r', w')"
  shows "built r w r' w'"
  using build_not_found_facts [OF assms] unfolding built_def by blast

lemma static_error_built:
  assumes "build_static_error_response config r status w = (st, r', w')"
  shows "built r w r' w'" and "response_ok r'" and "st = -1 \<or> st = status \<and> rs_status_code r' = status"
proof -
  obtain r0 w1 where d: "http_response_destroy r w = (r0, w1)" by fastforce
  obtain b r2 w2 where e: "(if status = 404
      then static_files_build_not_found (Some (document_root config)) http_response_init w1
      else static_files_build_error http_response_init status (error_heading_for_status status) w1) = (b, r2, w2)"
    by (metis prod_cases3)
  have bd: "built r w http_response_init w1"
    using keeps_built [OF destroy_keeps [OF d]] destroy_facts(1) [OF d] by simp
  have be: "built http_response_init w1 r2 w2"
    using e build_not_found_built build_error_built by (auto split: if_splits)
  have st2: "b \<Longrightarrow> rs_status_code r2 = status"
    using e build_not_found_facts [of "document_root config" http_response_init w1 b r2 w2]
      build_error_facts(4) [of http_response_init status "error_heading_for_status status" w1 b r2 w2]
    by (auto split: if_splits)
  have ok2: "response_ok r2" using be by (simp add: built_def)
  note b2 = built_trans [OF bd be]
  have "built r w r' w' \<and> response_ok r' \<and> (st = -1 \<or> st = status \<and> rs_status_code r' = status)"
  proof (cases b)
    case True
    with assms d e have "st = status" "r' = r2" "w' = w2" by (auto simp: build_static_error_response_def)
    with True b2 st2 ok2 show ?thesis by simp
  next
    case False
    obtain r3 w3 where d3: "http_response_destroy r2 w2 = (r3, w3)" by fastforce
    obtain ok r4 w4 where t: "build_with_type ''text/plain; charset=utf-8'' r3 status (Some (error_heading_for_status status)) w3 = (ok, r4, w4)"
      by (metis prod_cases3)
    have run: "st = (if ok then status else -1)" "r' = r4" "w' = w4"
      using assms d e False d3 t by (auto simp: build_static_error_response_def http_response_build_text_def)
    note k = build_with_type_keeps [OF t]
    have "built r w r4 w4"
      using built_trans [OF b2 built_trans [OF keeps_built [OF destroy_keeps [OF d3]] keeps_built [OF k(1)]]] .
    moreover have "response_ok r4" using response_ok_build [OF t] .
    moreover have "ok \<Longrightarrow> rs_status_code r4 = status" using k(3) by (simp add: text_response_def)
    ultimately show ?thesis using run by simp
  qed
  then show "built r w r' w'" and "response_ok r'" and "st = -1 \<or> st = status \<and> rs_status_code r' = status" by simp_all
qed

lemma handle_static_built:
  assumes "handle_static_get_head config request r lb w = (st, r', w')" and "response_ok r"
  shows "built r w r' w'" and "response_ok r'" and "st = -1 \<or> rs_status_code r' = st"
proof -
  obtain rc r1 w1 where s: "static_files_serve (Some (document_root config)) request r lb w = (rc, r1, w1)"
    by (metis prod_cases3)
  note sb = serve_built [OF s]
  have "built r w r' w' \<and> response_ok r' \<and> (st = -1 \<or> rs_status_code r' = st)"
  proof (cases "rc = STATIC_FILE_OK")
    case True
    with assms s have "st = 200" "r' = r1" "w' = w1" by (auto simp: handle_static_get_head_def)
    with sb True assms(2) show ?thesis by (auto simp: built_def)
  next
    case False
    with assms s have e: "build_static_error_response config r1 (status_for_static_result rc) w1 = (st, r', w')"
      by (simp add: handle_static_get_head_def)
    from static_error_built [OF e] built_trans [OF sb(1)] show ?thesis by auto
  qed
  then show "built r w r' w'" and "response_ok r'" and "st = -1 \<or> rs_status_code r' = st" by simp_all
qed

section \<open>Handling a turn\<close>

definition turn_blocks :: "turn_t \<Rightarrow> int" where
  "turn_blocks t = blocks (tn_raw t) + request_blocks (tn_request t) + response_blocks (tn_response t)"

text \<open>The books between two points of a turn, and what of the state it leaves alone.\<close>

definition handled :: "turn_t \<Rightarrow> 'a conn_scheme \<Rightarrow> turn_t \<Rightarrow> 'a conn_scheme \<Rightarrow> bool" where
  "handled t w t' w' = (live (mem w') - turn_blocks t' = live (mem w) - turn_blocks t
     \<and> (\<exists>new. opened w' = opened w @ new
          \<and> mset (closed w') + mset (response_fds (tn_response t'))
            = mset (closed w) + mset (response_fds (tn_response t)) + mset (map snd new))
     \<and> sent w' = sent w \<and> file_data w' = file_data w \<and> net w' = net w
     \<and> response_ok (tn_response t') \<and> tn_raw t' = tn_raw t)"

lemma built_handled:
  assumes "built (tn_response t) w r' w'" and "response_ok r'"
    and "tn_response t' = r'" "tn_raw t' = tn_raw t" "tn_request t' = tn_request t"
  shows "handled t w t' w'" and "stats w' = stats w"
proof -
  have f: "site_frame w w'" using assms(1) by (simp add: built_def)
  from assms(1) obtain new where "opened w' = opened w @ new" "books (tn_response t) w (map snd new) r' w'"
    by (auto simp: built_def)
  then show "handled t w t' w'"
    using assms site_frame_keeps [OF f] site_frame_conn [OF f]
    by (auto simp: handled_def books_def turn_blocks_def)
  show "stats w' = stats w" using site_frame_conn [OF f] by simp
qed

text \<open>A response that is ready has the status the handler counts.\<close>

definition ready :: "turn_t \<Rightarrow> bool" where
  "ready t = (tn_response_ready t \<and> 0 \<le> tn_status t)"

definition status_agrees :: "turn_t \<Rightarrow> bool" where
  "status_agrees t = (ready t \<longrightarrow> rs_status_code (tn_response t) = tn_status t)"

lemma handle_read_error_facts:
  assumes "handle_read_error config status (turn_init raw) w = (t, w')"
  shows "handled (turn_init raw) w t w'" and "stats w' = stats w" and "status_agrees t"
    and "ready t \<Longrightarrow> tn_force_close t \<and> tn_status t = status" and "\<not> tn_keep_alive t" and "\<not> tn_omit_body t"
proof -
  let ?i = "turn_init raw"
  obtain st r w1 where e: "build_static_error_response config (tn_response ?i) status w = (st, r, w1)"
    by (metis prod_cases3)
  have t: "t = (if 0 \<le> st
        then ?i\<lparr>tn_response := r, tn_status := st, tn_response_ready := True, tn_force_close := True\<rparr>
        else ?i\<lparr>tn_response := r, tn_status := st\<rparr>)" and w': "w' = w1"
    using assms e by (auto simp: handle_read_error_def)
  note b = static_error_built [OF e]
  have "tn_response t = r" "tn_raw t = tn_raw ?i" "tn_request t = tn_request ?i" by (simp_all add: t)
  from built_handled [OF b(1,2) this] show "handled ?i w t w'" and "stats w' = stats w" by (simp_all add: w')
  show "status_agrees t" and "ready t \<Longrightarrow> tn_force_close t \<and> tn_status t = status"
    using b(3) by (auto simp: t status_agrees_def ready_def)
  show "\<not> tn_keep_alive t" and "\<not> tn_omit_body t" by (auto simp: t turn_init_def)
qed

lemma route_request_facts:
  assumes "route_request config t w = (t', w')" and "body_ok (tn_request t)" and "response_ok (tn_response t)"
    and "\<not> tn_response_ready t"
  shows "handled t w t' w' \<and> stats w' = stats w \<and> status_agrees t' \<and> tn_omit_body t' = tn_omit_body t
    \<and> tn_keep_alive t' = tn_keep_alive t \<and> tn_request t' = tn_request t"
proof -
  let ?q = "tn_request t"
  have goal: ?thesis
    if "built (tn_response t) w r w'" "response_ok r"
      "t' = t\<lparr>tn_response := r, tn_status := tn_status t', tn_response_ready := tn_response_ready t',
         tn_force_close := tn_force_close t'\<rparr>"
      "ready t' \<Longrightarrow> rs_status_code r = tn_status t'" for r
  proof -
    have f: "tn_response t' = r" "tn_raw t' = tn_raw t" "tn_request t' = tn_request t"
      "tn_omit_body t' = tn_omit_body t" "tn_keep_alive t' = tn_keep_alive t" by (subst that(3), simp)+
    from built_handled [OF that(1,2) f(1-3)] f that(4) show ?thesis by (simp add: status_agrees_def)
  qed
  consider (api) "router_is_api_request ?q"
    | (served) "\<not> router_is_api_request ?q" "rq_method ?q = HTTP_METHOD_GET \<or> rq_method ?q = HTTP_METHOD_HEAD"
    | (other) "\<not> router_is_api_request ?q" "\<not> (rq_method ?q = HTTP_METHOD_GET \<or> rq_method ?q = HTTP_METHOD_HEAD)"
    by blast
  then show ?thesis
  proof cases
    case api
    obtain rc r1 w1 where d: "router_dispatch \<lparr>ctx_config = config, ctx_stats = Some (stats w)\<rparr> ?q (tn_response t) w = (rc, r1, w1)"
      by (metis prod_cases3)
    have k: "built (tn_response t) w r1 w1" using keeps_built [OF router_dispatch_keeps [OF d assms(2)]] .
    obtain st r2 w2 where e: "build_static_error_response config r1 500 w1 = (st, r2, w2)" by (metis prod_cases3)
    note run = assms(1) [unfolded route_request_def Let_def if_P [OF api] d e prod.case]
    show ?thesis
    proof (cases "rc = ROUTER_HANDLED")
      case True
      with run have "w' = w1" "t' = t\<lparr>tn_response := r1, tn_status := rs_status_code r1, tn_response_ready := True, tn_force_close := tn_force_close t\<rparr>"
        by auto
      with k assms(3) show ?thesis by (intro goal [of r1]) (auto simp: built_def ready_def)
    next
      case False
      with run have "w' = w2" "t' = t\<lparr>tn_response := r2, tn_status := (if 0 \<le> st then st else -1),
          tn_response_ready := (tn_response_ready t \<or> 0 \<le> st), tn_force_close := True\<rparr>" by auto
      with static_error_built [OF e] built_trans [OF k] assms(4) show ?thesis by (intro goal [of r2]) (auto simp: ready_def)
    qed
  next
    case served
    obtain st r1 w1 where e: "handle_static_get_head config ?q (tn_response t) (rq_method ?q = HTTP_METHOD_GET) w = (st, r1, w1)"
      by (metis prod_cases3)
    note run = assms(1) [unfolded route_request_def Let_def if_not_P [OF served(1)] if_P [OF served(2)] e prod.case]
    then have "w' = w1" "t' = t\<lparr>tn_response := r1, tn_status := st, tn_response_ready := (tn_response_ready t \<or> 0 \<le> st),
        tn_force_close := tn_force_close t\<rparr>" by auto
    with handle_static_built [OF e assms(3)] assms(4) show ?thesis by (intro goal [of r1]) (auto simp: ready_def)
  next
    case other
    obtain st r1 w1 where e: "build_static_error_response config (tn_response t) 405 w = (st, r1, w1)" by (metis prod_cases3)
    note run = assms(1) [unfolded route_request_def Let_def if_not_P [OF other(1)] if_not_P [OF other(2)] e prod.case]
    then have "w' = w1" "t' = t\<lparr>tn_response := r1, tn_status := (if 0 \<le> st then st else -1),
        tn_response_ready := (tn_response_ready t \<or> 0 \<le> st), tn_force_close := tn_force_close t\<rparr>" by auto
    with static_error_built [OF e] assms(4) show ?thesis by (intro goal [of r1]) (auto simp: ready_def)
  qed
qed

lemma handle_request_facts:
  assumes "handle_request config t w = (t', w')" and "body_ok (tn_request t)" and "response_ok (tn_response t)"
    and "\<not> tn_response_ready t"
  shows "handled t w t' w' \<and> stats w' = stats w \<and> status_agrees t'
    \<and> tn_omit_body t' = (rq_method (tn_request t) = HTTP_METHOD_HEAD)
    \<and> (tn_keep_alive t' \<longrightarrow> http_request_wants_keep_alive (tn_request t)) \<and> tn_request t' = tn_request t"
proof -
  define t1 where "t1 = t\<lparr>tn_omit_body := (rq_method (tn_request t) = HTTP_METHOD_HEAD),
                 tn_keep_alive := http_request_wants_keep_alive (tn_request t)\<rparr>"
  obtain t2 w2 where r: "route_request config t1 w = (t2, w2)" by fastforce
  have t': "t' = close_on_status t2" "w' = w2"
    using assms(1) r by (simp_all add: handle_request_def t1_def)
  have "body_ok (tn_request t1)" "response_ok (tn_response t1)" "\<not> tn_response_ready t1"
    using assms by (simp_all add: t1_def)
  from route_request_facts [OF r this] show ?thesis
    by (auto simp: t' t1_def close_on_status_def handled_def turn_blocks_def status_agrees_def ready_def)
qed

lemma handled_trans:
  assumes "handled t w t1 w1" and "handled t1 w1 t2 w2"
  shows "handled t w t2 w2"
proof -
  from assms obtain new new' where "opened w1 = opened w @ new" "opened w2 = opened w1 @ new'"
    "mset (closed w1) + mset (response_fds (tn_response t1))
       = mset (closed w) + mset (response_fds (tn_response t)) + mset (map snd new)"
    "mset (closed w2) + mset (response_fds (tn_response t2))
       = mset (closed w1) + mset (response_fds (tn_response t1)) + mset (map snd new')"
    by (auto simp: handled_def)
  then have "opened w2 = opened w @ new @ new' \<and> mset (closed w2) + mset (response_fds (tn_response t2))
       = mset (closed w) + mset (response_fds (tn_response t)) + mset (map snd (new @ new'))" by simp
  with assms show ?thesis unfolding handled_def by auto
qed

lemma turn_init_simps [simp]:
  "tn_raw (turn_init raw) = raw" "tn_request (turn_init raw) = http_request_init"
  "tn_response (turn_init raw) = http_response_init" "tn_omit_body (turn_init raw) = False"
  "tn_response_ready (turn_init raw) = False" "tn_keep_alive (turn_init raw) = False"
  by (simp_all add: turn_init_def)

lemma turn_init_blocks [simp]: "turn_blocks (turn_init raw) = blocks raw"
  by (simp add: turn_blocks_def http_request_init_def request_blocks_def header_blocks_def blocks_def)

lemma parse_body_ok:
  assumes "http_parse_request data h = (HTTP_PARSE_OK, r, h')"
  shows "body_ok r"
proof -
  obtain lines where "request_ok r" by (rule http_parse_request_OK [OF assms]) blast
  then show ?thesis by (auto simp: request_ok_def body_ok_def split: option.splits)
qed

text \<open>What a turn knows of the message \<open>m\<close> it answers.\<close>

definition turn_answers :: "bytes \<Rightarrow> turn_t \<Rightarrow> bool" where
  "turn_answers m t = (\<exists>h res req h'. http_parse_request m h = (res, req, h')
     \<and> (if res = HTTP_PARSE_OK
        then tn_omit_body t = (rq_method req = HTTP_METHOD_HEAD)
          \<and> (tn_keep_alive t \<longrightarrow> http_request_wants_keep_alive req)
        else \<not> tn_omit_body t \<and> \<not> tn_keep_alive t
          \<and> (ready t \<longrightarrow> rs_status_code (tn_response t) = status_for_parse_result res)))"

lemma handle_message_facts:
  assumes "handle_message config (turn_init (Some m)) w = (t, w')"
  shows "handled (turn_init (Some m)) w t w' \<and> stats w' = server_stats_request_received (stats w)
    \<and> status_agrees t \<and> turn_answers m t"
proof -
  define w1 where "w1 = w\<lparr>stats := server_stats_request_received (stats w)\<rparr>"
  obtain res req h where p: "http_parse_request m (mem w1) = (res, req, h)" by (metis prod_cases3)
  define t1 where "t1 = (turn_init (Some m))\<lparr>tn_request := req\<rparr>"
  define w2 where "w2 = w1\<lparr>mem := h\<rparr>"
  have h: "handled (turn_init (Some m)) w t1 w2" "tn_response t1 = http_response_init" "\<not> tn_response_ready t1"
    using http_parse_request_live [OF p]
    by (auto simp: handled_def t1_def w1_def w2_def turn_blocks_def request_blocks_def http_request_init_def
        header_blocks_def blocks_def)
  show ?thesis
  proof (cases "res = HTTP_PARSE_OK")
    case True
    have "handle_request config t1 w2 = (t, w')"
      using assms p True by (simp add: handle_message_def w1_def [symmetric] t1_def w2_def)
    moreover have "body_ok (tn_request t1)" using parse_body_ok p True by (auto simp: t1_def)
    ultimately have f: "handled t1 w2 t w' \<and> stats w' = stats w2 \<and> status_agrees t
      \<and> tn_omit_body t = (rq_method req = HTTP_METHOD_HEAD)
      \<and> (tn_keep_alive t \<longrightarrow> http_request_wants_keep_alive req)"
      using handle_request_facts [of config t1 w2 t w'] h by (auto simp: t1_def)
    moreover have "turn_answers m t" unfolding turn_answers_def using p True f by auto
    ultimately show ?thesis using handled_trans [OF h(1)] by (simp add: w2_def w1_def)
  next
    case False
    obtain st r w3 where e: "build_static_error_response config (tn_response t1) (status_for_parse_result res) w2 = (st, r, w3)"
      by (metis prod_cases3)
    have t: "t = (if 0 \<le> st then t1\<lparr>tn_response := r, tn_status := status_for_parse_result res,
        tn_response_ready := True, tn_force_close := True\<rparr>
        else t1\<lparr>tn_response := r, tn_status := -1, tn_force_close := True\<rparr>)" and w': "w' = w3"
      using assms p False e by (auto simp: handle_message_def w1_def [symmetric] t1_def w2_def Let_def)
    note b = static_error_built [OF e]
    have f: "tn_response t = r" "tn_raw t = tn_raw t1" "tn_request t = tn_request t1" by (simp_all add: t)
    have s: "ready t \<Longrightarrow> tn_status t = status_for_parse_result res \<and> rs_status_code r = status_for_parse_result res"
      using b(3) h(3) by (auto simp: t ready_def)
    have "turn_answers m t" unfolding turn_answers_def using p False s f(1) by (auto simp: t t1_def)
    with built_handled [OF b(1,2) f] handled_trans [OF h(1)] s f(1) show ?thesis
      by (simp add: w' w2_def w1_def status_agrees_def)
  qed
qed

section \<open>Announcing, sending and releasing\<close>

lemma finish_turn_facts:
  "live (mem (finish_turn t w)) = live (mem w) - turn_blocks t"
  "closed (finish_turn t w) = closed w @ response_fds (tn_response t)"
  "opened (finish_turn t w) = opened w" "sent (finish_turn t w) = sent w" "stats (finish_turn t w) = stats w"
  "file_data (finish_turn t w) = file_data w" "net (finish_turn t w) = net w"
proof -
  obtain r0 w1 where d: "http_response_destroy (tn_response t) w = (r0, w1)" by fastforce
  obtain q0 h where q: "http_request_destroy (tn_request t) (mem w1) = (q0, h)" by fastforce
  have f: "finish_turn t w = w1\<lparr>mem := c_free (tn_raw t) h\<rparr>" by (simp add: finish_turn_def d q)
  note fr = destroy_frame [OF d]
  have "opened w1 = opened w" "sent w1 = sent w" "stats w1 = stats w" "file_data w1 = file_data w" "net w1 = net w"
    by (subst fr, simp)+
  then show "live (mem (finish_turn t w)) = live (mem w) - turn_blocks t"
    "closed (finish_turn t w) = closed w @ response_fds (tn_response t)"
    "opened (finish_turn t w) = opened w" "sent (finish_turn t w) = sent w" "stats (finish_turn t w) = stats w"
    "file_data (finish_turn t w) = file_data w" "net (finish_turn t w) = net w"
    using destroy_facts [OF d] http_request_destroy_live [OF q]
    by (simp_all add: f turn_blocks_def)
qed

text \<open>A response tells the client that the connection stays open.\<close>

definition persistent :: "http_response_t \<Rightarrow> bool" where
  "persistent r = (''close'' \<notin> set (map hd_value
     (filter (\<lambda>x. header_name_equal_response (hd_name x) ''Connection'') (response_fields r))))"

lemma announce_facts:
  assumes "announce t w = (t', w')" and "response_ok (tn_response t)"
  shows "handled t w t' w'" and "stats w' = stats w" and "rs_status_code (tn_response t') = rs_status_code (tn_response t)"
    and "persistent (tn_response t') = (tn_keep_alive t' \<and> \<not> tn_force_close t')"
proof -
  define ka where "ka = (tn_keep_alive t \<and> \<not> tn_force_close t)"
  define v where "v = rq_version (tn_request t)"
  obtain ok r h where a: "http_response_apply_connection_policy (tn_response t) ka v (mem w) = (ok, r, h)"
    by (metis prod_cases3)
  obtain ok' r' h' where b: "http_response_apply_connection_policy r False v h = (ok', r', h')" by (metis prod_cases3)
  have t': "t' = (if ok then t\<lparr>tn_response := r\<rparr> else t\<lparr>tn_response := r', tn_force_close := True\<rparr>)"
    and w': "w' = (if ok then w\<lparr>mem := h\<rparr> else w\<lparr>mem := h'\<rparr>)"
    using assms(1) a b by (auto simp: announce_def ka_def [symmetric] v_def [symmetric])
  have ba: "balanced (tn_response t) w [] r (w\<lparr>mem := h\<rparr>)" using policy_balanced [OF a] .
  have "balanced r (w\<lparr>mem := h\<rparr>) [] r' (w\<lparr>mem := h\<rparr>\<lparr>mem := h'\<rparr>)" using policy_balanced [of r False v "w\<lparr>mem := h\<rparr>"] b by simp
  with ba have bb: "balanced (tn_response t) w [] r' (w\<lparr>mem := h'\<rparr>)" using balanced_trans by fastforce
  note ra = policy_response_ok [OF a assms(2)]
  note rb = policy_response_ok [OF b ra]
  have "built (tn_response t) w (tn_response t') w'"
    using balanced_books [OF ba] balanced_books [OF bb] ra rb unfolding built_def t' w'
    by (cases ok) (auto intro!: exI [of _ "[]"])
  moreover have "response_ok (tn_response t')" using ra rb by (simp add: t')
  ultimately show "handled t w t' w'" and "stats w' = stats w"
    using built_handled [of t w "tn_response t'" w' t'] by (simp_all add: t')
  show "rs_status_code (tn_response t') = rs_status_code (tn_response t)"
    using policy_facts(1) [OF a] policy_facts(1) [OF b] by (auto simp: t')
  have "persistent r = (ka \<and> (v \<noteq> Some ''HTTP/1.0'' \<or> ok))" "\<not> persistent r'"
    unfolding persistent_def policy_announces [OF a] policy_announces [OF b] by auto
  then show "persistent (tn_response t') = (tn_keep_alive t' \<and> \<not> tn_force_close t')"
    using policy_facts(4) [OF a] by (auto simp: t' ka_def)
qed

section \<open>Conversations\<close>

text \<open>
  What a client may observe, as an abstract machine: it sends a stream of bytes and receives
  responses, \<open>n\<close> counts the requests so far, the events are what the server counts. A response is
  paired with the flag that its body is left out.
\<close>

definition wire :: "(int \<Rightarrow> bytes) \<Rightarrow> http_response_t \<times> bool \<Rightarrow> bytes" where
  "wire files x = (case x of (r, omit) \<Rightarrow> response_head r @ (if omit then [] else response_body r files))"

definition whole :: "(int \<Rightarrow> bytes) \<Rightarrow> http_response_t \<times> bool \<Rightarrow> bool" where
  "whole files x = (case x of (r, omit) \<Rightarrow>
     response_ok r \<and> (omit \<or> length (response_body r files) = rs_body_length r))"

definition answers :: "bytes \<Rightarrow> http_response_t \<times> bool \<Rightarrow> bool" where
  "answers m x = (case x of (r, omit) \<Rightarrow> (\<exists>h res req h'. http_parse_request m h = (res, req, h')
     \<and> (if res = HTTP_PARSE_OK
        then omit = (rq_method req = HTTP_METHOD_HEAD) \<and> (persistent r \<longrightarrow> http_request_wants_keep_alive req)
        else \<not> omit \<and> \<not> persistent r \<and> rs_status_code r = status_for_parse_result res)))"

inductive conversation :: "(int \<Rightarrow> bytes) \<Rightarrow> nat \<Rightarrow> bytes \<Rightarrow> bytes \<Rightarrow> stats_event list \<Rightarrow> bool" for files where
  over: "conversation files n input [] []"
| cut: "prefix out (wire files x) \<Longrightarrow> response_ok (fst x) \<Longrightarrow> k \<le> 1 \<Longrightarrow> conversation files n input out (replicate k REQUEST_RECEIVED)"
| refused: "whole files (r, False) \<Longrightarrow> \<not> persistent r \<Longrightarrow> rs_status_code r \<in> {400, 408, 413, 500, 501} \<Longrightarrow>
    conversation files n input (wire files (r, False)) [RESPONSE_SENT (rs_status_code r)]"
| final: "message_verdict m = Complete (length m) \<Longrightarrow> answers m x \<Longrightarrow> whole files x \<Longrightarrow> \<not> persistent (fst x) \<Longrightarrow>
    conversation files n (m @ input) (wire files x) [REQUEST_RECEIVED, RESPONSE_SENT (rs_status_code (fst x))]"
| more: "message_verdict m = Complete (length m) \<Longrightarrow> answers m x \<Longrightarrow> whole files x \<Longrightarrow> persistent (fst x) \<Longrightarrow>
    n + 1 < HTTP_MAX_REQUESTS_PER_CONNECTION \<Longrightarrow> conversation files (n + 1) input out es \<Longrightarrow>
    conversation files n (m @ input) (wire files x @ out)
      (REQUEST_RECEIVED # RESPONSE_SENT (rs_status_code (fst x)) # es)"

section \<open>One turn\<close>

lemma count_request_same [simp]:
  "tn_response (count_request n t) = tn_response t" "tn_raw (count_request n t) = tn_raw t"
  "tn_request (count_request n t) = tn_request t" "tn_status (count_request n t) = tn_status t"
  "tn_omit_body (count_request n t) = tn_omit_body t" "turn_blocks (count_request n t) = turn_blocks t"
  by (simp_all add: count_request_def turn_blocks_def)

lemma handled_count [simp]: "handled t0 w0 (count_request n t) w = handled t0 w0 t w"
  by (simp add: handled_def)

text \<open>What a turn leaves of memory and descriptors: everything is released.\<close>

definition settled :: "int \<Rightarrow> 'a conn_scheme \<Rightarrow> 'a conn_scheme \<Rightarrow> bool" where
  "settled b w w' = (live (mem w') = live (mem w) - b \<and> file_data w' = file_data w
     \<and> (\<exists>new. opened w' = opened w @ new \<and> mset (closed w') = mset (closed w) + mset (map snd new)))"

lemma finish_settled:
  assumes "handled (turn_init raw) w t w1" and "live (mem w2) = live (mem w1)" "closed w2 = closed w1"
    "opened w2 = opened w1" "file_data w2 = file_data w1"
  shows "settled (blocks raw) w (finish_turn t w2)"
proof -
  obtain new where "opened w1 = opened w @ new"
    "mset (closed w1) + mset (response_fds (tn_response t)) = mset (closed w) + mset (map snd new)"
    using assms(1) by (auto simp: handled_def response_fds_def http_response_init_def)
  then show ?thesis using assms by (auto simp: settled_def finish_turn_facts handled_def)
qed

lemma send_one_facts:
  assumes "send_one n t w = Some (go_on, w')" and h: "handled (turn_init raw) w0 t w" and "status_agrees t"
  shows "settled (blocks raw) w0 w' \<and> net w' = net w0 \<and>
      ((\<exists>r. sent w' = sent w @ wire (file_data w) (r, tn_omit_body t) \<and> whole (file_data w) (r, tn_omit_body t)
        \<and> go_on = persistent r \<and> (persistent r \<longrightarrow> tn_keep_alive t \<and> \<not> tn_force_close t)
        \<and> ready t \<and> rs_status_code r = tn_status t
        \<and> stats w' = server_stats_response_sent (stats w) (rs_status_code r))
      \<or> \<not> go_on \<and> stats w' = stats w \<and> (\<exists>out x. sent w' = sent w @ out \<and> prefix out (wire (file_data w) x)
            \<and> response_ok (fst x)))"
  using assms(1)
proof (cases rule: send_one_cases)
  case skip
  have "\<exists>out x. sent w' = sent w @ out \<and> prefix out (wire (file_data w) x) \<and> response_ok (fst x)"
    by (rule exI [of _ "[]"], rule exI [of _ "(http_response_init, True)"]) (simp add: skip finish_turn_facts)
  with skip h finish_settled [of raw w0 "count_request n t" w w] show ?thesis
    by (simp add: finish_turn_facts handled_def)
next
  case (sent t2 w1 ok w2)
  have ok1: "response_ok (tn_response (count_request n t))" using h by (simp add: handled_def)
  note a = announce_facts [OF sent(3) ok1]
  note at = announce_turn [OF sent(3)]
  have h2: "handled (turn_init raw) w0 t2 w1" using handled_trans [OF _ a(1)] h by simp
  then have ok2: "response_ok (tn_response t2)" by (simp add: handled_def)
  note f = response_send_facts [OF sent(4) ok2]
  define w3 where "w3 = (if ok then w2\<lparr>stats := server_stats_response_sent (stats w2) (tn_status t2)\<rparr> else w2)"
  have w2: "opened w2 = opened w1" "net w2 = net w1" "stats w2 = stats w1"
    using f(5) by (cases w1; cases w2; simp)+
  have w3: "live (mem w3) = live (mem w1)" "closed w3 = closed w1" "opened w3 = opened w1"
    "file_data w3 = file_data w1" "net w3 = net w1" "sent w3 = sent w2"
    using f w2 by (simp_all add: w3_def)
  have w': "w' = finish_turn t2 w3" using sent(6) by (simp add: w3_def)
  have w1: "sent w1 = sent w" "file_data w1 = file_data w" "net w1 = net w" using a(1) by (simp_all add: handled_def)
  have t2: "tn_omit_body t2 = tn_omit_body t" "tn_status t2 = tn_status t"
    "tn_keep_alive t2 = tn_keep_alive (count_request n t)" by (subst at(1), simp)+
  have ka: "tn_keep_alive t2 \<and> \<not> tn_force_close t2 \<longrightarrow> tn_keep_alive t \<and> \<not> tn_force_close t"
    using at(2) t2(3) by (auto simp: count_request_def split: if_splits)
  have code: "rs_status_code (tn_response t2) = tn_status t" "ready t"
    using a(3) assms(3) sent(1,2) by (simp_all add: status_agrees_def ready_def)
  show ?thesis
  proof (cases ok)
    case True
    with f(1) have out: "sent w2 = sent w @ wire (file_data w) (tn_response t2, tn_omit_body t)"
      "whole (file_data w) (tn_response t2, tn_omit_body t)"
      using ok2 by (auto simp: wire_def whole_def w1 t2)
    have "stats w' = server_stats_response_sent (stats w) (rs_status_code (tn_response t2))"
      using True by (simp add: w' finish_turn_facts w3_def w2 a(2) t2 code)
    moreover have "go_on = persistent (tn_response t2)" using sent(5) a(4) True by blast
    moreover have "persistent (tn_response t2) \<longrightarrow> tn_keep_alive t \<and> \<not> tn_force_close t" using a(4) ka by simp
    ultimately show ?thesis
      using out code finish_settled [OF h2 w3(1-4)] w3 w1 h unfolding w'
      by (auto simp: finish_turn_facts handled_def)
  next
    case False
    have "\<exists>out. sent w2 = sent w @ out \<and> prefix out (wire (file_data w) (tn_response t2, tn_omit_body t2))"
      using f(1) by (auto simp: wire_def w1)
    then have "\<exists>out x. sent w2 = sent w @ out \<and> prefix out (wire (file_data w) x) \<and> response_ok (fst x)"
      using ok2 by (metis fst_conv)
    moreover have "stats w' = stats w" using False by (simp add: w' finish_turn_facts w3_def w2 a(2))
    ultimately show ?thesis
      using finish_settled [OF h2 w3(1-4)] w3 w1 h False sent(5) unfolding w'
      by (auto simp: finish_turn_facts handled_def)
  qed
qed

lemma turn_answers_response:
  assumes "turn_answers m t" and "ready t" "status_agrees t" "rs_status_code r = tn_status t"
    and "persistent r \<longrightarrow> tn_keep_alive t"
  shows "answers m (r, tn_omit_body t)"
  using assms unfolding turn_answers_def answers_def status_agrees_def prod.case
  by (elim exE conjE) (rule exI, rule exI, rule exI, rule exI, rule conjI, assumption, auto split: if_splits)

text \<open>The outcome of one turn: the conversation ends here, or it goes on after a full exchange.\<close>

definition turn_outcome ::
  "nat \<Rightarrow> bool \<Rightarrow> bytes \<Rightarrow> bytes \<Rightarrow> 'a conn_scheme \<Rightarrow> 'a conn_scheme \<Rightarrow> bool" where
  "turn_outcome n go_on input input' w w' = (\<exists>out es. sent w' = sent w @ out \<and> stats w' = stats_run es (stats w)
     \<and> (if go_on then \<exists>m x. message_verdict m = Complete (length m) \<and> answers m x \<and> whole (file_data w) x
            \<and> persistent (fst x) \<and> out = wire (file_data w) x \<and> input = m @ input'
            \<and> es = [REQUEST_RECEIVED, RESPONSE_SENT (rs_status_code (fst x))]
        else conversation (file_data w) n input out es))"

lemma refused_outcome:
  assumes "handle_read_error config status (turn_init None) w = (t, w1)" "send_one n t w1 = Some (go_on, w')"
    and "status \<in> {400, 408, 413, 500, 501}"
  shows "settled 0 w w' \<and> net w' = net w \<and> turn_outcome n go_on input input' w w'"
proof -
  note e = handle_read_error_facts [OF assms(1)]
  note s = send_one_facts [OF assms(2) e(1,3)]
  have w1: "sent w1 = sent w" "file_data w1 = file_data w" "stats w1 = stats w"
    using e(1,2) by (simp_all add: handled_def)
  have stop: "\<not> go_on" using s e(5) by auto
  from s consider (full) r where "sent w' = sent w @ wire (file_data w) (r, False)" "whole (file_data w) (r, False)"
      "\<not> persistent r" "rs_status_code r = status" "stats w' = stats_run [RESPONSE_SENT (rs_status_code r)] (stats w)"
    | (part) out x where "stats w' = stats w" "sent w' = sent w @ out" "prefix out (wire (file_data w) x)" "response_ok (fst x)"
    using e(4-6) w1 stop by (auto simp: stats_run_def)
  then have "turn_outcome n go_on input input' w w'"
  proof cases
    case full
    with assms(3) stop conversation.refused [OF full(2,3), of n input] show ?thesis
      by (auto simp: turn_outcome_def)
  next
    case part
    from conversation.cut [OF part(3,4), of 0 n input] part(1,2) stop show ?thesis
      by (auto simp: turn_outcome_def intro!: exI [of _ "[]"])
  qed
  with s show ?thesis by (simp add: blocks_def)
qed

lemma message_outcome:
  assumes "handle_message config (turn_init (Some m)) w = (t, w1)" "send_one n t w1 = Some (go_on, w')"
    and "message_verdict m = Complete (length m)" "input = m @ input'"
  shows "settled 1 w w' \<and> net w' = net w \<and> turn_outcome n go_on input input' w w'"
proof -
  note e = handle_message_facts [OF assms(1)]
  from e have h: "handled (turn_init (Some m)) w t w1" "status_agrees t" "turn_answers m t"
    "stats w1 = server_stats_request_received (stats w)" by simp_all
  note s = send_one_facts [OF assms(2) h(1,2)]
  have w1: "sent w1 = sent w" "file_data w1 = file_data w" using h(1) by (simp_all add: handled_def)
  from s consider (full) r where "sent w' = sent w @ wire (file_data w) (r, tn_omit_body t)"
      "whole (file_data w) (r, tn_omit_body t)" "go_on = persistent r" "answers m (r, tn_omit_body t)"
      "stats w' = stats_run [REQUEST_RECEIVED, RESPONSE_SENT (rs_status_code r)] (stats w)"
    | (part) out x where "\<not> go_on" "stats w' = stats_run [REQUEST_RECEIVED] (stats w)" "sent w' = sent w @ out"
      "prefix out (wire (file_data w) x)" "response_ok (fst x)"
    using w1 h(4) turn_answers_response [OF h(3) _ h(2)] by (fastforce simp: stats_run_def)
  then have "turn_outcome n go_on input input' w w'"
  proof cases
    case full
    show ?thesis
    proof (cases go_on)
      case True
      with full assms(3,4) show ?thesis unfolding turn_outcome_def
        by (intro exI [of _ "wire (file_data w) (r, tn_omit_body t)"]
            exI [of _ "[REQUEST_RECEIVED, RESPONSE_SENT (rs_status_code r)]"]) (auto intro!: exI [of _ m])
    next
      case False
      with full conversation.final [OF assms(3) full(4,2), of n input'] assms(4) show ?thesis
        by (auto simp: turn_outcome_def)
    qed
  next
    case part
    from conversation.cut [OF part(4,5), of 1 n input] part(1-3) show ?thesis
      by (auto simp: turn_outcome_def)
  qed
  with s show ?thesis by (simp add: blocks_def)
qed

lemma silent_outcome:
  assumes "w' = finish_turn (turn_init raw) w"
  shows "settled (blocks raw) w w' \<and> net w' = net w \<and> turn_outcome n False input input' w w'"
proof -
  have "handled (turn_init raw) w (turn_init raw) w" by (simp add: handled_def)
  from finish_settled [OF this] assms have "settled (blocks raw) w w'" by simp
  moreover have "turn_outcome n False input input' w w'"
    unfolding turn_outcome_def assms finish_turn_facts
    by (intro exI [of _ "[]"]) (simp add: conversation.over)
  ultimately show ?thesis by (simp add: assms finish_turn_facts)
qed

lemma client_turn_facts:
  assumes "client_turn config reader n w = Some (go_on, reader', w')" and "reader_ok reader"
  shows "reader_ok reader' \<and> settled (blocks (rd_data reader) - blocks (rd_data reader')) w w'
    \<and> turn_outcome n go_on (stream reader (net w)) (stream reader' (net w')) w w'"
proof -
  obtain res raw rd env h where rd: "http_reader_next_request (keep_alive_timeout_sec config) (request_timeout_sec config)
      reader (net w) (mem w) = Some ((res, raw), rd, env, h)"
    using assms(1) by (auto simp: client_turn_def split: option.splits)
  define w1 where "w1 = w\<lparr>net := env, mem := h\<rparr>"
  note f = next_request_facts [OF rd assms(2)]
  note run = assms(1) [unfolded client_turn_def rd option.case prod.case Let_def w1_def [symmetric]]
  have w1: "live (mem w1) = live (mem w) + blocks (rd_data rd) - blocks (rd_data reader) + blocks raw"
    "sent w1 = sent w" "stats w1 = stats w" "file_data w1 = file_data w" "opened w1 = opened w" "closed w1 = closed w"
    "net w1 = env" using f by (simp_all add: w1_def)
  have finish: ?thesis if "settled (blocks raw) w1 w' \<and> net w' = net w1
      \<and> turn_outcome n go_on (stream reader (net w)) (stream rd (net w1)) w1 w'" "reader' = rd"
  proof -
    have "turn_outcome n go_on i i' w1 w' = turn_outcome n go_on i i' w w'" for i i'
      by (simp only: turn_outcome_def w1)
    moreover have "settled (blocks (rd_data reader) - blocks (rd_data rd)) w w'"
      using that(1) w1 by (auto simp: settled_def)
    ultimately show ?thesis using that f by simp
  qed
  have none: "raw = None" if "res \<noteq> HTTP_READ_OK"
    using f that by (cases res) (auto simp: reader_outcome_def)
  show ?thesis
  proof (cases "res = HTTP_READ_CLIENT_CLOSED \<or> res = HTTP_READ_IO_ERROR
      \<or> res = HTTP_READ_TIMEOUT \<and> rd_bytes reader = [] \<and> rd_bytes rd = []")
    case True
    then have "\<not> go_on" "reader' = rd" "w' = finish_turn (turn_init raw) w1" using run by auto
    with silent_outcome [of w' raw w1 n] show ?thesis by (intro finish) auto
  next
    case stay: False
    show ?thesis
    proof (cases "res = HTTP_READ_OK")
      case True
      obtain t w2 where m: "handle_message config (turn_init raw) w1 = (t, w2)" by fastforce
      have s: "send_one n t w2 = Some (go_on, w')" "reader' = rd" using run True m by auto
      obtain msg where msg: "raw = Some msg" "message_verdict msg = Complete (length msg)"
        "stream reader (net w) = msg @ stream rd (net w1)"
        using f True w1 by (auto simp: reader_outcome_def split: option.splits)
      from message_outcome [OF m [unfolded msg(1)] s(1) msg(2,3)] msg(1) s(2) show ?thesis
        by (intro finish) (auto simp: blocks_def)
    next
      case False
      note raw = none [OF False]
      obtain t w2 where m: "handle_read_error config (status_for_read_result res) (turn_init None) w1 = (t, w2)" by fastforce
      have "(if res = HTTP_READ_TIMEOUT then handle_read_error config 408 (turn_init raw) w1
          else handle_read_error config (status_for_read_result res) (turn_init raw) w1) = (t, w2)"
        using m raw by auto
      with run stay False have s: "send_one n t w2 = Some (go_on, w')" "reader' = rd" by (auto split: if_splits)
      have "status_for_read_result res \<in> {400, 408, 413, 500, 501}" by (cases res) simp_all
      from refused_outcome [OF m s(1) this] raw s(2) show ?thesis by (intro finish) (auto simp: blocks_def)
    qed
  qed
qed

section \<open>The loop\<close>

lemma settled_trans: "settled b w w1 \<Longrightarrow> settled b' w1 w2 \<Longrightarrow> settled (b + b') w w2"
  unfolding settled_def by (elim conjE exE) (auto intro: exI)

lemma stats_run_append: "stats_run (es @ es') s = stats_run es' (stats_run es s)"
  by (simp add: stats_run_def)

lemma client_loop_facts:
  assumes "client_loop config reader n w = Some (reader', w')" and "reader_ok reader"
  shows "reader_ok reader' \<and> settled (blocks (rd_data reader) - blocks (rd_data reader')) w w'
    \<and> (\<exists>out es. sent w' = sent w @ out \<and> stats w' = stats_run es (stats w)
         \<and> conversation (file_data w) n (stream reader (net w)) out es)"
  using assms
proof (induction config reader n w rule: client_loop.induct)
  case (1 config reader n w)
  obtain go_on rd w1 where turn: "client_turn config reader n w = Some (go_on, rd, w1)"
    using "1.prems"(1) by (auto simp: client_loop.simps [of config reader n w] split: option.splits)
  note f = client_turn_facts [OF turn "1.prems"(2)]
  show ?case
  proof (cases go_on)
    case False
    then have "reader' = rd" "w' = w1" using "1.prems"(1) turn by (simp_all add: client_loop.simps [of config reader n w])
    with f False show ?thesis by (simp add: turn_outcome_def)
  next
    case True
    then have rest: "client_loop config rd (n + 1) w1 = Some (reader', w')"
      using "1.prems"(1) turn by (simp add: client_loop.simps [of config reader n w])
    from f True obtain m x where x: "message_verdict m = Complete (length m)" "answers m x" "whole (file_data w) x"
      "persistent (fst x)" "stream reader (net w) = m @ stream rd (net w1)" "sent w1 = sent w @ wire (file_data w) x"
      "stats w1 = stats_run [REQUEST_RECEIVED, RESPONSE_SENT (rs_status_code (fst x))] (stats w)"
      by (auto simp: turn_outcome_def)
    have files: "file_data w1 = file_data w" using f by (simp add: settled_def)
    from "1.IH" [OF turn refl refl _ rest] True f obtain out es where ih: "reader_ok reader'"
      "settled (blocks (rd_data rd) - blocks (rd_data reader')) w1 w'" "sent w' = sent w1 @ out"
      "stats w' = stats_run es (stats w1)" "conversation (file_data w) (n + 1) (stream rd (net w1)) out es"
      by (auto simp: files)
    have lt: "n + 1 < HTTP_MAX_REQUESTS_PER_CONNECTION" using client_turn_continues [of config reader n w rd w1] turn True by simp
    note c = conversation.more [OF x(1-4) lt ih(5)]
    have "settled (blocks (rd_data reader) - blocks (rd_data reader')) w w'"
      using settled_trans [OF conjunct1 [OF conjunct2 [OF f]] ih(2)] by simp
    moreover have "sent w' = sent w @ (wire (file_data w) x @ out)" using ih(3) x(6) by simp
    moreover have "stats w' = stats_run (REQUEST_RECEIVED # RESPONSE_SENT (rs_status_code (fst x)) # es) (stats w)"
      using ih(4) x(7) by (simp add: stats_run_def)
    ultimately show ?thesis using ih(1) c x(5) by metis
  qed
qed

lemma client_handle_facts:
  assumes "client_handle config client_fd w = Some w'"
  shows "live (mem w') = live (mem w)"
    and "\<exists>new. opened w' = opened w @ new \<and> mset (closed w') = mset (closed w) + mset (map snd new) + {#client_fd#}"
    and "\<exists>out es. sent w' = sent w @ out \<and> stats w' = stats_run (es @ [CONN_FINISHED]) (stats w)
      \<and> conversation (file_data w) 0 (stream http_reader_init (net w)) out es"
proof -
  define b where "b = (if keep_alive_timeout_sec config < request_timeout_sec config
                      then request_timeout_sec config else keep_alive_timeout_sec config)"
  define w1 where "w1 = snd (set_recv_timeout b w)"
  have w1: "mem w1 = mem w" "opened w1 = opened w" "closed w1 = closed w" "sent w1 = sent w" "stats w1 = stats w"
    "file_data w1 = file_data w" "net w1 = net w" by (simp_all add: w1_def set_recv_timeout_def)
  obtain reader w2 where loop: "client_loop config http_reader_init 0 w1 = Some (reader, w2)"
    and w': "w' = (os_close client_fd (w2\<lparr>mem := c_free (rd_data reader) (mem w2)\<rparr>))
       \<lparr>stats := server_stats_connection_finished (stats w2)\<rparr>"
    using assms
    by (auto simp: client_handle_def Let_def b_def [symmetric] w1_def [symmetric] http_reader_destroy_def os_close_def
        split: option.splits)
  have ok: "reader_ok http_reader_init" by (simp add: reader_ok_def http_reader_init_def)
  have z: "blocks (rd_data http_reader_init) = 0" by (simp add: http_reader_init_def blocks_def)
  note f = client_loop_facts [OF loop ok, unfolded w1 z]
  have p: "opened w' = opened w2" "sent w' = sent w2" "closed w' = closed w2 @ [client_fd]"
    "live (mem w') = live (mem w2) - blocks (rd_data reader)"
    "stats w' = stats_run [CONN_FINISHED] (stats w2)"
    by (simp_all add: w' os_close_def stats_run_def)
  show "live (mem w') = live (mem w)" using f w1 by (simp add: p settled_def)
  show "\<exists>new. opened w' = opened w @ new \<and> mset (closed w') = mset (closed w) + mset (map snd new) + {#client_fd#}"
    using f w1 by (auto simp: p settled_def)
  show "\<exists>out es. sent w' = sent w @ out \<and> stats w' = stats_run (es @ [CONN_FINISHED]) (stats w)
      \<and> conversation (file_data w) 0 (stream http_reader_init (net w)) out es"
    using f by (auto simp: p stats_run_append)
qed

text \<open>A conversation has at most as many exchanges as the limit leaves.\<close>

lemma conversation_limit:
  assumes "conversation files n input out es" and "n < HTTP_MAX_REQUESTS_PER_CONNECTION"
  shows "n + occ ((=) REQUEST_RECEIVED) es \<le> HTTP_MAX_REQUESTS_PER_CONNECTION
    \<and> n + occ (response_class 0 999) es \<le> HTTP_MAX_REQUESTS_PER_CONNECTION"
  using assms
proof (induction rule: conversation.induct)
  case (cut out x k n input)
  then show ?case by (cases k) (auto simp: response_class_def)
qed (auto simp: response_class_def)

section \<open>Properties\<close>

text \<open>One request for the health route, after which the client closes.\<close>

definition sample_conn :: conn where
  "sample_conn = \<lparr>mem = \<lparr>outcomes = [], live = 0\<rparr>, closed = [], sent = [],
     sends = replicate 6 (SENT 60), sendfiles = [], reads = [], seeks = [], file_data = (\<lambda>_. []),
     fs_at = (\<lambda>_. sample_fs), fs_calls = 0, opened = [],
     net = \<lparr>clocks = replicate 4 (Some \<lparr>tv_sec = 1, tv_nsec = 0\<rparr>), polls = replicate 4 (POLL_READY False True),
       recvs = [RECV_BYTES (''GET /api/health HTTP/1.1'' @ CRLF @ ''Host: x'' @ CRLF @ CRLF), RECV_BYTES []], waits = []\<rparr>,
     stats = sample_stats, sockopt_ok = True, rcvtimeo = None\<rparr>"

lemma sample_conn_run:
  obtains w' where "client_handle config_set_defaults 9 sample_conn = Some w'" and "closed w' = [9]"
    and "requests_total (stats w') = 1" and "take 12 (sent w') = ''HTTP/1.1 200''"
proof -
  have "map_option (\<lambda>w'. (closed w', requests_total (stats w'), take 12 (sent w')))
      (client_handle config_set_defaults 9 sample_conn) = Some ([9], 1, ''HTTP/1.1 200'')" by code_simp
  then show thesis by (auto intro: that)
qed

text \<open>
  C8. A connection that is over has given everything back, however it ended and wherever memory
  ran out: the allocated blocks are those of before, the socket was closed exactly once, and so
  was every file that was opened for it; no other descriptor was closed.
\<close>

theorem client_handle_resources:
  assumes "client_handle config client_fd w = Some w'"
  shows "live (mem w') = live (mem w)
    \<and> (\<exists>new. opened w' = opened w @ new \<and> mset (closed w') = mset (closed w) + mset (map snd new) + {#client_fd#})"
  using client_handle_facts(1,2) [OF assms] by blast

theorem client_handle_resources_witness:
  "\<exists>w'. client_handle config_set_defaults 9 sample_conn = Some w' \<and> live (mem w') = 0
     \<and> opened w' = [] \<and> closed w' = [9]"
proof -
  obtain w' where run: "client_handle config_set_defaults 9 sample_conn = Some w'" and c: "closed w' = [9]"
    by (rule sample_conn_run)
  have i: "live (mem sample_conn) = 0" "opened sample_conn = []" "closed sample_conn = []" by (simp_all add: sample_conn_def)
  from client_handle_resources [OF run, unfolded i] run c show ?thesis by auto
qed



text \<open>
  No client can hold a worker for more than the permitted number of requests: one connection
  adds at most \<open>HTTP_MAX_REQUESTS_PER_CONNECTION\<close> to the number of requests and to the number
  of successful responses.
\<close>

theorem client_handle_limit:
  assumes "client_handle config client_fd w = Some w'" and "stats_initialized (stats w)"
  shows "\<exists>k j. k \<le> HTTP_MAX_REQUESTS_PER_CONNECTION \<and> requests_total (stats w') = requests_total (stats w) + of_nat k
    \<and> j \<le> HTTP_MAX_REQUESTS_PER_CONNECTION \<and> responses_2xx (stats w') = responses_2xx (stats w) + of_nat j"
proof -
  obtain out es where e: "stats w' = stats_run (es @ [CONN_FINISHED]) (stats w)"
    "conversation (file_data w) 0 (stream http_reader_init (net w)) out es"
    using client_handle_facts(3) [OF assms(1)] by blast
  have l: "occ ((=) REQUEST_RECEIVED) es \<le> HTTP_MAX_REQUESTS_PER_CONNECTION"
    "occ (response_class 0 999) es \<le> HTTP_MAX_REQUESTS_PER_CONNECTION"
    using conversation_limit [OF e(2)] by (simp_all add: HTTP_MAX_REQUESTS_PER_CONNECTION_def)
  have "occ (response_class 200 299) es \<le> occ (response_class 0 999) es"
    by (induction es) (auto simp: response_class_def split: stats_event.splits)
  with l show ?thesis unfolding e(1) stats_run_counts(2,3) [OF assms(2)]
    by (intro exI [of _ "occ ((=) REQUEST_RECEIVED) es"] exI [of _ "occ (response_class 200 299) es"])
      (simp add: response_class_def)
qed

theorem client_handle_limit_witness:
  "\<exists>w' k. client_handle config_set_defaults 9 sample_conn = Some w' \<and> requests_total (stats w') = 1
     \<and> k \<le> HTTP_MAX_REQUESTS_PER_CONNECTION \<and> responses_2xx (stats w') = of_nat k"
proof -
  obtain w' where run: "client_handle config_set_defaults 9 sample_conn = Some w'" and c: "requests_total (stats w') = 1"
    by (rule sample_conn_run)
  have i: "stats_initialized (stats sample_conn)" "responses_2xx (stats sample_conn) = 0"
    by (simp_all add: sample_conn_def sample_stats_def server_stats_init_def)
  from client_handle_limit [OF run i(1)] run c i(2) show ?thesis by auto
qed

end
