(* ===== verification/Thread_Pool.thy ===== *)
theory Thread_Pool
  imports Connection_Queue Client_Handler_Properties
begin

text \<open>
  The worker pool, \<^verbatim>\<open>src/thread_pool.c\<close>. The handles are a list of worker numbers. The borrowed
  pointers to the queue, the configuration and the counters are not part of the record: the
  operations take the queue they act on. A new thread first releases the argument it was given;
  the model does so when the thread is created. Joining returns when the thread has ended, which
  is a guard of the steps of the server.
\<close>

record thread_pool_t =
  tp_threads :: "nat option list option"
  tp_worker_count :: nat
  tp_started_count :: nat

record worker_arg_t =
  wa_worker_id :: nat

definition pool_zero :: thread_pool_t where
  "pool_zero = \<lparr>tp_threads = None, tp_worker_count = 0, tp_started_count = 0\<rparr>"

definition thread_pool_init :: "thread_pool_t \<Rightarrow> nat \<Rightarrow> heap \<Rightarrow> bool \<times> thread_pool_t \<times> heap" where
  "thread_pool_init pool n h =
     (if n = 0 then (False, pool, h)
      else (case malloc h of (ok, h') \<Rightarrow>
        if \<not> ok then (False, pool_zero, h')
        else (True, \<lparr>tp_threads = Some (replicate n None), tp_worker_count = n,
                     tp_started_count = 0\<rparr>, h')))"

text \<open>The start of \<open>worker_main\<close>: the number of the worker, and its argument released.\<close>

definition worker_begin :: "worker_arg_t \<Rightarrow> heap \<Rightarrow> nat \<times> heap" where
  "worker_begin warg h = (wa_worker_id warg, c_free (Some warg) h)"

text \<open>
  The loop of \<open>worker_main\<close> over what its calls of \<open>connection_queue_pop\<close> return: a descriptor
  for each connection, with the change that puts its socket in place, until the queue is shut down.
\<close>

fun worker_loop ::
  "server_config_t \<Rightarrow> (int \<times> ('a conn_scheme \<Rightarrow> 'a conn_scheme)) list \<Rightarrow> 'a conn_scheme \<Rightarrow> 'a conn_scheme option" where
  "worker_loop config [] w = Some w"
| "worker_loop config ((client_fd, socket) # rest) w =
     (case client_handle config client_fd (socket w) of
        None \<Rightarrow> None
      | Some w' \<Rightarrow> worker_loop config rest w')"

text \<open>Shut the queue down and wait for the workers that exist.\<close>

definition start_failed :: "thread_pool_t \<Rightarrow> connection_queue_t \<Rightarrow> heap \<Rightarrow> bool \<times> thread_pool_t \<times> connection_queue_t \<times> heap" where
  "start_failed pool q h = (False, pool\<lparr>tp_started_count := 0\<rparr>, connection_queue_shutdown q, h)"

fun start_loop ::
  "(nat \<Rightarrow> bool) \<Rightarrow> nat list \<Rightarrow> thread_pool_t \<Rightarrow> connection_queue_t \<Rightarrow> heap \<Rightarrow>
   bool \<times> thread_pool_t \<times> connection_queue_t \<times> heap" where
  "start_loop create [] pool q h = (True, pool, q, h)"
| "start_loop create (i # is) pool q h =
     (case malloc h of (ok, h1) \<Rightarrow>
       if \<not> ok then start_failed pool q h1
       else let warg = \<lparr>wa_worker_id = i\<rparr> in
         if \<not> create i then start_failed pool q (c_free (Some warg) h1)
         else (case worker_begin warg h1 of (worker_id, h2) \<Rightarrow>
           start_loop create is
             (pool\<lparr>tp_threads := map_option (\<lambda>ts. ts[i := Some worker_id]) (tp_threads pool),
                   tp_started_count := tp_started_count pool + 1\<rparr>) q h2))"

definition thread_pool_start ::
  "(nat \<Rightarrow> bool) \<Rightarrow> thread_pool_t \<Rightarrow> connection_queue_t \<Rightarrow> heap \<Rightarrow>
   bool \<times> thread_pool_t \<times> connection_queue_t \<times> heap" where
  "thread_pool_start create pool q h =
     (if tp_threads pool = None then (False, pool, q, h)
      else start_loop create [0..<tp_worker_count pool] pool q h)"

definition thread_pool_join :: "thread_pool_t \<Rightarrow> thread_pool_t" where
  "thread_pool_join pool = (if tp_threads pool = None then pool else pool\<lparr>tp_started_count := 0\<rparr>)"

definition thread_pool_destroy :: "thread_pool_t \<Rightarrow> heap \<Rightarrow> thread_pool_t \<times> heap" where
  "thread_pool_destroy pool h =
     (pool\<lparr>tp_threads := None, tp_worker_count := 0\<rparr>, c_free (tp_threads pool) h)"

section \<open>Facts\<close>

text \<open>
  A worker that ends has closed every connection it took exactly once, and every file it opened,
  and holds no memory.
\<close>

lemma worker_loop_books:
  assumes "worker_loop config conns w = Some w'"
    and "\<forall>(fd, socket)\<in>set conns. \<forall>v. mem (socket v) = mem v \<and> closed (socket v) = closed v \<and> opened (socket v) = opened v"
  shows "live (mem w') = live (mem w) \<and> (\<exists>new. opened w' = opened w @ new
    \<and> mset (closed w') = mset (closed w) + mset (map snd new) + mset (map fst conns))"
  using assms
proof (induction config conns w rule: worker_loop.induct)
  case (2 config fd socket rest w)
  from "2.prems"(1) obtain w1 where h: "client_handle config fd (socket w) = Some w1" and run: "worker_loop config rest w1 = Some w'"
    by (auto split: option.splits)
  from client_handle_facts(1,2) [OF h] "2.prems"(2) obtain new where
    n: "live (mem w1) = live (mem w)" "opened w1 = opened w @ new" "mset (closed w1) = mset (closed w) + mset (map snd new) + {#fd#}"
    by auto
  from "2.IH" [OF h run] "2.prems"(2) obtain new' where "live (mem w') = live (mem w1)" "opened w' = opened w1 @ new'"
    "mset (closed w') = mset (closed w1) + mset (map snd new') + mset (map fst rest)" by auto
  with n have "live (mem w') = live (mem w) \<and> opened w' = opened w @ (new @ new')
    \<and> mset (closed w') = mset (closed w) + mset (map snd (new @ new')) + mset (map fst ((fd, socket) # rest))" by simp
  then show ?case by blast
qed simp

lemma start_loop_facts:
  assumes "start_loop create is pool q h = (ok, pool', q', h')" and "queue_ok q"
  shows "live h' = live h \<and> blocks (tp_threads pool') = blocks (tp_threads pool)
    \<and> tp_worker_count pool' = tp_worker_count pool
    \<and> (if ok then q' = q \<and> tp_started_count pool' = tp_started_count pool + length is
       else q' = connection_queue_shutdown q \<and> tp_started_count pool' = 0)"
  using assms(1)
proof (induction create "is" pool q h rule: start_loop.induct)
  case (2 create i "is" pool q h)
  obtain m h1 where m: "malloc h = (m, h1)" by fastforce
  from "2.IH" [OF m [symmetric] _ refl] "2.prems" m malloc_live [OF m] show ?case
    by (auto simp: start_failed_def worker_begin_def Let_def blocks_def split: if_splits option.splits)
qed auto

lemma pool_start_facts:
  assumes "thread_pool_init p0 n h = (True, pool, h1)" and "thread_pool_start create pool q h1 = (ok, pool', q', h2)"
    and "queue_ok q"
  shows "live h1 = live h + 1" and "live h2 = live h + 1" and "tp_threads pool' \<noteq> None" and "0 < n"
    and "if ok then q' = q \<and> tp_started_count pool' = n else q' = connection_queue_shutdown q \<and> tp_started_count pool' = 0"
proof -
  have p: "tp_threads pool = Some (replicate n None)" "tp_worker_count pool = n" "tp_started_count pool = 0" "live h1 = live h + 1" "0 < n"
    using assms(1) by (auto simp: thread_pool_init_def heap_simps split: if_splits prod.splits)
  then have "start_loop create [0..<n] pool q h1 = (ok, pool', q', h2)" using assms(2) by (simp add: thread_pool_start_def)
  note f = start_loop_facts [OF this assms(3)]
  show "live h1 = live h + 1" "live h2 = live h + 1" "tp_threads pool' \<noteq> None" "0 < n"
    using f p by (auto simp: blocks_def split: option.splits)
  show "if ok then q' = q \<and> tp_started_count pool' = n else q' = connection_queue_shutdown q \<and> tp_started_count pool' = 0"
    using f p by simp
qed

end
