(* ===== verification/Logger.thy ===== *)
theory Logger
  imports C_Library
begin

text \<open>
  The logger, \<^verbatim>\<open>src/logger.c\<close>. A call holds the mutex while it writes, so it is one step. The text
  that the format and its arguments give is an argument, beside the format itself.
\<close>

record logger_t =
  g_logger_ready :: bool
  err_output :: string

definition logger_init :: "logger_t \<Rightarrow> bool \<times> logger_t" where
  "logger_init lg = (True, lg\<lparr>g_logger_ready := True\<rparr>)"

definition logger_destroy :: "logger_t \<Rightarrow> logger_t" where
  "logger_destroy lg = lg\<lparr>g_logger_ready := False\<rparr>"

definition logger_log :: "string option \<Rightarrow> string \<Rightarrow> logger_t \<Rightarrow> logger_t" where
  "logger_log format formatted lg =
     (case format of None \<Rightarrow> lg
      | Some f \<Rightarrow>
        if \<not> g_logger_ready lg then lg
        else lg\<lparr>err_output := err_output lg @ formatted @ (if f = [] \<or> last f \<noteq> LF then [LF] else [])\<rparr>)"

definition logger_verbose :: "bool \<Rightarrow> string option \<Rightarrow> string \<Rightarrow> logger_t \<Rightarrow> logger_t" where
  "logger_verbose verbose format formatted lg =
     (case format of None \<Rightarrow> lg
      | Some f \<Rightarrow>
        if \<not> verbose \<or> \<not> g_logger_ready lg then lg
        else lg\<lparr>err_output := err_output lg @ ''[verbose] '' @ formatted
               @ (if f = [] \<or> last f \<noteq> LF then [LF] else [])\<rparr>)"

text \<open>
  A call either writes nothing or one piece that ends a line: if the format ends with a line feed,
  so does the text it formats. After \<open>logger_destroy\<close> nothing is written.
\<close>

lemma logger_log_line:
  assumes "f \<noteq> [] \<and> last f = LF \<Longrightarrow> formatted \<noteq> [] \<and> last formatted = LF"
  shows "\<exists>out. err_output (logger_log (Some f) formatted lg) = err_output lg @ out
    \<and> (out = [] \<longleftrightarrow> \<not> g_logger_ready lg) \<and> (out \<noteq> [] \<longrightarrow> last out = LF)"
  using assms by (auto simp: logger_log_def)

lemma logger_verbose_log:
  "logger_verbose True (Some f) formatted lg = logger_log (Some f) (''[verbose] '' @ formatted) lg"
  "logger_verbose False format formatted lg = lg"
  by (auto simp: logger_verbose_def logger_log_def split: option.splits)

lemma logger_destroyed_silent: "logger_log format formatted (logger_destroy lg) = logger_destroy lg"
  by (simp add: logger_log_def logger_destroy_def split: option.splits)

end
