(* ===== verification/Server.thy ===== *)
theory Server
  imports Thread_Pool Logger
begin

text \<open>
  The server, \<^verbatim>\<open>src/server.c\<close> and \<^verbatim>\<open>src/main.c\<close>: the listening socket, starting up and rolling back,
  the accepting thread, the workers, and shutting down.

  The threads run interleaved. A step is what one thread does between two points where another
  thread can see the difference: a test of the flag, a system call, an operation under a mutex.
  The phases of a thread are the points of the code between its steps. A worker that has taken a
  connection counts the events of a conversation, which is what \<open>client_handle\<close> does to the
  counters, closes the socket, and counts the end of the connection.
\<close>

section \<open>Signals and the listening socket\<close>

text \<open>How the process reacts to a signal; a handler comes with the flag \<open>SA_RESTART\<close>.\<close>

datatype signum = SIGINT | SIGTERM | SIGPIPE

datatype disposition = SIG_DFL | SIG_IGN | SHUTDOWN_HANDLER bool

text \<open>The first argument tells which calls of \<open>sigaction\<close> succeed; a failure is only reported.\<close>

definition server_install_signal_handlers ::
  "(signum \<Rightarrow> bool) \<Rightarrow> (signum \<Rightarrow> disposition) \<Rightarrow> signum \<Rightarrow> disposition" where
  "server_install_signal_handlers sigaction_ok d =
     (let d1 = (if sigaction_ok SIGINT then d(SIGINT := SHUTDOWN_HANDLER False) else d);
          d2 = (if sigaction_ok SIGTERM then d1(SIGTERM := SHUTDOWN_HANDLER False) else d1)
      in if sigaction_ok SIGPIPE then d2(SIGPIPE := SIG_IGN) else d2)"

definition SERVER_LISTEN_BACKLOG :: int where "SERVER_LISTEN_BACKLOG = 128"

text \<open>What the calls return, and the port and backlog that \<open>bind\<close> and \<open>listen\<close> are given.\<close>

record socket_env =
  se_socket :: int
  se_setsockopt :: bool
  se_bind :: bool
  se_listen :: bool
  se_port :: "16 word option"
  se_backlog :: "int option"
  se_sigaction :: "signum \<Rightarrow> bool"
  se_dispositions :: "signum \<Rightarrow> disposition"

definition server_create_listening_socket ::
  "server_config_t \<Rightarrow> socket_env \<Rightarrow> 'a world_scheme \<Rightarrow> int \<times> socket_env \<times> 'a world_scheme" where
  "server_create_listening_socket config env w =
     (let listen_fd = se_socket env in
      if listen_fd < 0 then (-1, env, w)
      else if \<not> se_setsockopt env then (-1, env, os_close listen_fd w)
      else if \<not> se_bind env then (-1, env\<lparr>se_port := Some (word_of_int (port config))\<rparr>, os_close listen_fd w)
      else let env1 = env\<lparr>se_port := Some (word_of_int (port config)), se_backlog := Some SERVER_LISTEN_BACKLOG\<rparr> in
        if \<not> se_listen env then (-1, env1, os_close listen_fd w)
        else (listen_fd, env1, w))"

definition server_close_listening_socket :: "int \<Rightarrow> 'a world_scheme \<Rightarrow> 'a world_scheme" where
  "server_close_listening_socket listen_fd w = (if 0 \<le> listen_fd then os_close listen_fd w else w)"

text \<open>\<open>main\<close> up to the call of \<open>server_run\<close>, and what it does with its result. The exit status is 0 or 1.\<close>

definition main_begin ::
  "string list \<Rightarrow> socket_env \<Rightarrow> 'a world_scheme \<Rightarrow> (int + server_config_t \<times> int) \<times> socket_env \<times> 'a world_scheme" where
  "main_begin args env w =
     (case config_parse_args config_set_defaults args of
        (CONFIG_PARSE_HELP, _) \<Rightarrow> (Inl 0, env, w)
      | (CONFIG_PARSE_ERROR, _) \<Rightarrow> (Inl 1, env, w)
      | (CONFIG_PARSE_OK, config) \<Rightarrow>
        let env1 = env\<lparr>se_dispositions := server_install_signal_handlers (se_sigaction env) (se_dispositions env)\<rparr> in
        (case server_create_listening_socket config env1 w of (listen_fd, env', w') \<Rightarrow>
          (if listen_fd < 0 then Inl 1 else Inr (config, listen_fd), env', w')))"

definition main_end :: "int \<Rightarrow> bool \<Rightarrow> 'a world_scheme \<Rightarrow> int \<times> 'a world_scheme" where
  "main_end listen_fd run_result w =
     (if run_result then 0 else 1, server_close_listening_socket listen_fd w)"

section \<open>Starting up\<close>

text \<open>The cast of an \<open>int\<close> to \<open>size_t\<close>.\<close>

definition size_t_of_int :: "int \<Rightarrow> nat" where
  "size_t_of_int i = nat (i mod 2 ^ 64)"

record startup_env =
  su_stats_mutex :: bool
  su_queue_mutex :: bool
  su_not_empty :: bool
  su_not_full :: bool
  su_create :: "nat \<Rightarrow> bool"

record run_t =
  logger_ready :: bool
  stats_ready :: bool
  queue_ready :: bool
  pool_ready :: bool
  workers_running :: bool
  rn_logger :: logger_t
  rn_stats :: server_stats_t
  rn_queue :: connection_queue_t
  rn_pool :: thread_pool_t

definition run_init :: "logger_t \<Rightarrow> run_t" where
  "run_init lg = \<lparr>logger_ready = False, stats_ready = False, queue_ready = False, pool_ready = False,
     workers_running = False, rn_logger = lg, rn_stats = snd (server_stats_init False), rn_queue = queue_zero,
     rn_pool = pool_zero\<rparr>"

text \<open>The result says whether the accept loop is reached.\<close>

definition server_startup ::
  "server_config_t \<Rightarrow> startup_env \<Rightarrow> logger_t \<Rightarrow> 'a world_scheme \<Rightarrow> bool \<times> run_t \<times> 'a world_scheme" where
  "server_startup config env lg w =
     (case logger_init lg of (logger_ok, lg1) \<Rightarrow>
      let r0 = (run_init lg)\<lparr>rn_logger := lg1\<rparr> in
      if \<not> logger_ok then (False, r0, w)
      else (case server_stats_init (su_stats_mutex env) of (stats_ok, st) \<Rightarrow>
        let r1 = r0\<lparr>logger_ready := True, rn_stats := st\<rparr> in
        if \<not> stats_ok then (False, r1, w)
        else (case connection_queue_init queue_zero (size_t_of_int (queue_capacity config)) (su_queue_mutex env)
                (su_not_empty env) (su_not_full env) w of (q_ok, q, w1) \<Rightarrow>
          let r2 = r1\<lparr>stats_ready := True, rn_queue := q\<rparr> in
          if \<not> q_ok then (False, r2, w1)
          else (case thread_pool_init pool_zero (size_t_of_int (worker_count config)) (mem w1) of (pool_ok, pool, h) \<Rightarrow>
            let r3 = r2\<lparr>queue_ready := True, rn_pool := pool\<rparr>; w2 = w1\<lparr>mem := h\<rparr> in
            if \<not> pool_ok then (False, r3, w2)
            else (case thread_pool_start (su_create env) pool q (mem w2) of (start_ok, pool', q', h') \<Rightarrow>
              let r4 = r3\<lparr>pool_ready := True, rn_pool := pool', rn_queue := q'\<rparr>; w3 = w2\<lparr>mem := h'\<rparr> in
              if \<not> start_ok then (False, r4, w3)
              else (True, r4\<lparr>workers_running := True\<rparr>, w3))))))"

text \<open>The code after the label \<open>cleanup\<close>; the workers have ended when the join is over.\<close>

definition server_cleanup :: "run_t \<Rightarrow> 'a world_scheme \<Rightarrow> run_t \<times> 'a world_scheme" where
  "server_cleanup r w =
     (let r1 = (if workers_running r \<or> pool_ready r \<and> queue_ready r then
                  let ra = (if queue_ready r then r\<lparr>rn_queue := connection_queue_shutdown (rn_queue r)\<rparr> else r) in
                  if pool_ready ra then ra\<lparr>rn_pool := thread_pool_join (rn_pool ra), workers_running := False\<rparr> else ra
                else r);
          (r2, w2) = (if pool_ready r1 then
                        (case thread_pool_destroy (rn_pool r1) (mem w) of (p, h) \<Rightarrow>
                          (r1\<lparr>rn_pool := p, pool_ready := False\<rparr>, w\<lparr>mem := h\<rparr>))
                      else (r1, w));
          (r3, w3) = (if queue_ready r2 then
                        (case connection_queue_destroy (rn_queue r2) w2 of (q, w') \<Rightarrow>
                          (r2\<lparr>rn_queue := q, queue_ready := False\<rparr>, w'))
                      else (r2, w2));
          r4 = (if stats_ready r3 then r3\<lparr>rn_stats := server_stats_destroy (rn_stats r3), stats_ready := False\<rparr> else r3);
          r5 = (if logger_ready r4 then r4\<lparr>rn_logger := logger_destroy (rn_logger r4), logger_ready := False\<rparr> else r4)
      in (r5, w3))"

section \<open>The running server\<close>

text \<open>
  The phases of the accepting thread: before the test of the flag, after it and before the call of
  \<open>accept\<close>, inside the call, with a connection that is not counted yet, before a section of
  \<open>connection_queue_push\<close>, in its timed wait, after a push that succeeded or that did not, and
  the three stages of leaving.
\<close>

datatype accept_phase =
  A_TEST | A_CALL | A_ACCEPT | A_ACCEPTED int | A_PUSH int | A_WAIT int | A_PUSHED
| A_REFUSED int connection_queue_status_t | A_CLEANUP | A_JOIN | A_DONE

text \<open>The phases of a worker: before a section of \<open>connection_queue_pop\<close>, in its wait, with a connection
  and the events still to be counted for it, after closing it, and ended.\<close>

datatype worker_phase =
  W_POP | W_WAIT | W_HANDLE int "stats_event list" | W_CLOSED | W_EXIT

text \<open>\<open>sv_accepted\<close>, \<open>sv_handled\<close> and \<open>sv_closed\<close> record the descriptors in the order of the events.\<close>

record server_t =
  g_shutdown_requested :: bool
  sv_queue :: connection_queue_t
  sv_stats :: server_stats_t
  sv_accept :: accept_phase
  sv_workers :: "worker_phase list"
  sv_accepted :: "int list"
  sv_handled :: "int list"
  sv_closed :: "int list"

definition handle_shutdown_signal :: "server_t \<Rightarrow> server_t" where
  "handle_shutdown_signal s = s\<lparr>g_shutdown_requested := True\<rparr>"

definition shutdown_was_requested :: "server_t \<Rightarrow> bool" where
  "shutdown_was_requested s = g_shutdown_requested s"

text \<open>The state in which the accept loop is entered.\<close>

definition server_initial :: "run_t \<Rightarrow> server_t" where
  "server_initial r = \<lparr>g_shutdown_requested = False, sv_queue = rn_queue r, sv_stats = rn_stats r, sv_accept = A_TEST,
     sv_workers = replicate (tp_started_count (rn_pool r)) W_POP, sv_accepted = [], sv_handled = [], sv_closed = []\<rparr>"

text \<open>A signal on \<open>not_empty\<close> wakes one of the waiting workers, if there is one; a broadcast wakes all.\<close>

definition signalled :: "worker_phase list \<Rightarrow> worker_phase list \<Rightarrow> bool" where
  "signalled ws ws' = (if W_WAIT \<in> set ws then \<exists>i<length ws. ws ! i = W_WAIT \<and> ws' = ws[i := W_POP] else ws' = ws)"

definition wake_all :: "worker_phase list \<Rightarrow> worker_phase list" where
  "wake_all ws = map (\<lambda>p. if p = W_WAIT then W_POP else p) ws"

text \<open>Who takes a step: the clients through the network, the user through a signal, or a thread.\<close>

datatype actor = Client | User | Acceptor | Worker nat

text \<open>
  A signal interrupts \<open>accept\<close> when it is delivered to the accepting thread inside the call;
  otherwise it only sets the flag.
\<close>

inductive server_step :: "actor \<Rightarrow> server_t \<Rightarrow> server_t \<Rightarrow> bool" where
  signal: "\<not> g_shutdown_requested s \<Longrightarrow> server_step User s (handle_shutdown_signal s)"
| interrupt: "\<not> g_shutdown_requested s \<Longrightarrow> sv_accept s = A_ACCEPT \<Longrightarrow>
    server_step User s ((handle_shutdown_signal s)\<lparr>sv_accept := A_TEST\<rparr>)"
| leave: "sv_accept s = A_TEST \<Longrightarrow> shutdown_was_requested s \<Longrightarrow> server_step Acceptor s (s\<lparr>sv_accept := A_CLEANUP\<rparr>)"
| stay: "sv_accept s = A_TEST \<Longrightarrow> \<not> shutdown_was_requested s \<Longrightarrow> server_step Acceptor s (s\<lparr>sv_accept := A_CALL\<rparr>)"
| call: "sv_accept s = A_CALL \<Longrightarrow> server_step Acceptor s (s\<lparr>sv_accept := A_ACCEPT\<rparr>)"
| accept_error: "sv_accept s = A_ACCEPT \<Longrightarrow> server_step Client s (s\<lparr>sv_accept := A_TEST\<rparr>)"
| accept_ok: "sv_accept s = A_ACCEPT \<Longrightarrow> 0 \<le> fd \<Longrightarrow>
    server_step Client s (s\<lparr>sv_accept := A_ACCEPTED fd, sv_accepted := sv_accepted s @ [fd]\<rparr>)"
| count: "sv_accept s = A_ACCEPTED fd \<Longrightarrow>
    server_step Acceptor s (s\<lparr>sv_accept := A_PUSH fd, sv_stats := server_stats_connection_accepted (sv_stats s)\<rparr>)"
| push_ok: "sv_accept s = A_PUSH fd \<Longrightarrow>
    push_section fd (g_shutdown_requested s) clock_ok (sv_queue s) = (Some CONNECTION_QUEUE_OK, q) \<Longrightarrow>
    signalled (sv_workers s) ws \<Longrightarrow>
    server_step Acceptor s (s\<lparr>sv_accept := A_PUSHED, sv_queue := q, sv_workers := ws\<rparr>)"
| push_refused: "sv_accept s = A_PUSH fd \<Longrightarrow>
    push_section fd (g_shutdown_requested s) clock_ok (sv_queue s) = (Some status, q) \<Longrightarrow> status \<noteq> CONNECTION_QUEUE_OK \<Longrightarrow>
    server_step Acceptor s (s\<lparr>sv_accept := A_REFUSED fd status, sv_queue := q\<rparr>)"
| push_wait: "sv_accept s = A_PUSH fd \<Longrightarrow>
    push_section fd (g_shutdown_requested s) clock_ok (sv_queue s) = (None, q) \<Longrightarrow>
    server_step Acceptor s (s\<lparr>sv_accept := A_WAIT fd, sv_queue := q\<rparr>)"
| push_wake: "sv_accept s = A_WAIT fd \<Longrightarrow> server_step Acceptor s (s\<lparr>sv_accept := A_PUSH fd\<rparr>)"
| push_error: "sv_accept s = A_PUSH fd \<or> sv_accept s = A_WAIT fd \<Longrightarrow>
    server_step Acceptor s (s\<lparr>sv_accept := A_REFUSED fd CONNECTION_QUEUE_ERROR\<rparr>)"
| refused: "sv_accept s = A_REFUSED fd status \<Longrightarrow>
    server_step Acceptor s (s\<lparr>sv_closed := sv_closed s @ [fd],
      sv_accept := (if status = CONNECTION_QUEUE_SHUTDOWN \<or> shutdown_was_requested s then A_CLEANUP else A_TEST)\<rparr>)"
| started: "sv_accept s = A_PUSHED \<Longrightarrow>
    server_step Acceptor s (s\<lparr>sv_accept := A_TEST, sv_stats := server_stats_connection_started (sv_stats s)\<rparr>)"
| shutdown: "sv_accept s = A_CLEANUP \<Longrightarrow>
    server_step Acceptor s (s\<lparr>sv_accept := A_JOIN, sv_queue := connection_queue_shutdown (sv_queue s),
      sv_workers := wake_all (sv_workers s)\<rparr>)"
| join: "sv_accept s = A_JOIN \<Longrightarrow> \<forall>p\<in>set (sv_workers s). p = W_EXIT \<Longrightarrow> server_step Acceptor s (s\<lparr>sv_accept := A_DONE\<rparr>)"
| pop_ok: "i < length (sv_workers s) \<Longrightarrow> sv_workers s ! i = W_POP \<Longrightarrow>
    pop_section (sv_queue s) = (Some (CONNECTION_QUEUE_OK, Some fd), q) \<Longrightarrow> conversation files 0 input out es \<Longrightarrow>
    server_step (Worker i) s (s\<lparr>sv_queue := q, sv_workers := (sv_workers s)[i := W_HANDLE fd es],
      sv_handled := sv_handled s @ [fd]\<rparr>)"
| pop_wait: "i < length (sv_workers s) \<Longrightarrow> sv_workers s ! i = W_POP \<Longrightarrow> pop_section (sv_queue s) = (None, q) \<Longrightarrow>
    server_step (Worker i) s (s\<lparr>sv_queue := q, sv_workers := (sv_workers s)[i := W_WAIT]\<rparr>)"
| pop_stop: "i < length (sv_workers s) \<Longrightarrow> sv_workers s ! i = W_POP \<Longrightarrow>
    pop_section (sv_queue s) = (Some (CONNECTION_QUEUE_SHUTDOWN, none), q) \<Longrightarrow>
    server_step (Worker i) s (s\<lparr>sv_queue := q, sv_workers := (sv_workers s)[i := W_EXIT]\<rparr>)"
| wake: "i < length (sv_workers s) \<Longrightarrow> sv_workers s ! i = W_WAIT \<Longrightarrow>
    server_step (Worker i) s (s\<lparr>sv_workers := (sv_workers s)[i := W_POP]\<rparr>)"
| handle_event: "i < length (sv_workers s) \<Longrightarrow> sv_workers s ! i = W_HANDLE fd (e # es) \<Longrightarrow>
    server_step (Worker i) s (s\<lparr>sv_workers := (sv_workers s)[i := W_HANDLE fd es], sv_stats := apply_event e (sv_stats s)\<rparr>)"
| handle_close: "i < length (sv_workers s) \<Longrightarrow> sv_workers s ! i = W_HANDLE fd [] \<Longrightarrow>
    server_step (Worker i) s (s\<lparr>sv_workers := (sv_workers s)[i := W_CLOSED], sv_closed := sv_closed s @ [fd]\<rparr>)"
| finished: "i < length (sv_workers s) \<Longrightarrow> sv_workers s ! i = W_CLOSED \<Longrightarrow>
    server_step (Worker i) s (s\<lparr>sv_workers := (sv_workers s)[i := W_POP],
      sv_stats := server_stats_connection_finished (sv_stats s)\<rparr>)"

inductive server_reachable :: "server_t \<Rightarrow> server_t \<Rightarrow> bool" for s0 where
  initial: "server_reachable s0 s0"
| step: "server_reachable s0 s \<Longrightarrow> server_step a s s' \<Longrightarrow> server_reachable s0 s'"

end
