(* ===== verification/Server_Properties.thy ===== *)
theory Server_Properties
  imports Server
begin

text \<open>
  The properties of the threads together: who owns a connection at any moment, that none is lost,
  that no worker sleeps while there is work, and that the server comes to an end when it is told to.
\<close>

section \<open>Ownership\<close>

fun acceptor_fds :: "accept_phase \<Rightarrow> int list" where
  "acceptor_fds (A_ACCEPTED fd) = [fd]"
| "acceptor_fds (A_PUSH fd) = [fd]"
| "acceptor_fds (A_WAIT fd) = [fd]"
| "acceptor_fds (A_REFUSED fd status) = [fd]"
| "acceptor_fds p = []"

fun worker_fds :: "worker_phase \<Rightarrow> int list" where
  "worker_fds (W_HANDLE fd es) = [fd]"
| "worker_fds p = []"

definition open_fds :: "server_t \<Rightarrow> int list" where
  "open_fds s = acceptor_fds (sv_accept s) @ contents (sv_queue s) @ concat (map worker_fds (sv_workers s))"

lemma workers_update:
  "i < length ws \<Longrightarrow> mset (concat (map worker_fds (ws[i := p]))) + mset (worker_fds (ws ! i))
     = mset (concat (map worker_fds ws)) + mset (worker_fds p)"
  by (induction ws arbitrary: i) (auto simp: nth_Cons split: nat.splits)

lemma workers_update_same:
  "i < length ws \<Longrightarrow> worker_fds (ws ! i) = worker_fds p \<Longrightarrow>
     concat (map worker_fds (ws[i := p])) = concat (map worker_fds ws)"
  by (induction ws arbitrary: i) (auto simp: nth_Cons split: nat.splits)

lemma signalled_fds:
  "signalled ws ws' \<Longrightarrow> concat (map worker_fds ws') = concat (map worker_fds ws) \<and> length ws' = length ws"
  by (auto simp: signalled_def workers_update_same split: if_splits)

lemma wake_all_fds: "concat (map worker_fds (wake_all ws)) = concat (map worker_fds ws)" "length (wake_all ws) = length ws"
  by (induction ws) (auto simp: wake_all_def)

text \<open>Every accepted descriptor is closed or has exactly one owner; the queue and the number of workers stay as they were set up.\<close>

definition owned :: "nat \<Rightarrow> nat \<Rightarrow> server_t \<Rightarrow> bool" where
  "owned capacity n s = (queue_ok (sv_queue s) \<and> q_capacity (sv_queue s) = capacity \<and> length (sv_workers s) = n
     \<and> mset (sv_accepted s) = mset (sv_closed s) + mset (open_fds s)
     \<and> subseq (sv_handled s @ contents (sv_queue s) @ acceptor_fds (sv_accept s)) (sv_accepted s))"

lemma shutdown_queue:
  "queue_ok q \<Longrightarrow> contents (connection_queue_shutdown q) = contents q \<and> queue_ok (connection_queue_shutdown q)
     \<and> q_capacity (connection_queue_shutdown q) = q_capacity q \<and> shutting_down (connection_queue_shutdown q)"
  using rb.shut_refines [of q] by simp

lemma owned_step:
  assumes "server_step a s s'" and "owned capacity n s"
  shows "owned capacity n s'"
  using assms
proof (induction rule: server_step.induct)
  case (accept_ok s fd)
  then have "subseq ((sv_handled s @ contents (sv_queue s)) @ [fd]) (sv_accepted s @ [fd])"
    by (intro list_emb_append_mono) (auto simp: owned_def)
  with accept_ok show ?case by (auto simp: owned_def open_fds_def)
next
  case (push_ok s fd c q ws)
  from push_ok(4) have ok: "queue_ok (sv_queue s)" by (simp add: owned_def)
  note f = push_section_facts [OF ok push_ok(2)]
  from f(4) f(1,2) signalled_fds [OF push_ok(3)] push_ok(1,4) show ?case
    by (auto simp: owned_def open_fds_def)
next
  case (push_refused s fd c status q)
  from push_refused(4) have ok: "queue_ok (sv_queue s)" by (simp add: owned_def)
  from push_section_facts(3) [OF ok push_refused(2)] push_refused(1,3,4) show ?case by (auto simp: owned_def open_fds_def)
next
  case (push_wait s fd c q)
  from push_wait(3) have ok: "queue_ok (sv_queue s)" by (simp add: owned_def)
  from push_section_facts(3) [OF ok push_wait(2)] push_wait(1,3) show ?case by (auto simp: owned_def open_fds_def)
next
  case (refused s fd status)
  have "subseq (sv_handled s @ contents (sv_queue s)) (sv_handled s @ contents (sv_queue s) @ [fd])"
    by (rule prefix_imp_subseq) simp
  with refused show ?case by (auto simp: owned_def open_fds_def intro: subseq_order.trans)
next
  case (shutdown s)
  then show ?case using shutdown_queue [of "sv_queue s"] wake_all_fds [of "sv_workers s"]
    by (auto simp: owned_def open_fds_def)
next
  case (pop_ok i s fd q files input out es)
  from pop_ok(5) have ok: "queue_ok (sv_queue s)" by (simp add: owned_def)
  note f = pop_section_facts [OF ok pop_ok(3)]
  from f(4) [OF refl] f(1,2) workers_update [OF pop_ok(1), of "W_HANDLE fd es"] pop_ok(2,5) show ?case
    by (auto simp: owned_def open_fds_def)
next
  case (pop_wait i s q)
  from pop_wait(4) have ok: "queue_ok (sv_queue s)" by (simp add: owned_def)
  from pop_section_facts(5) [OF ok pop_wait(3) refl] workers_update_same [OF pop_wait(1), of W_WAIT] pop_wait(2,4) show ?case
    by (auto simp: owned_def open_fds_def)
next
  case (pop_stop i s none q)
  from pop_stop(4) have ok: "queue_ok (sv_queue s)" by (simp add: owned_def)
  from pop_section_facts(6) [OF ok pop_stop(3)] workers_update_same [OF pop_stop(1), of W_EXIT] pop_stop(2,4) show ?case
    by (auto simp: owned_def open_fds_def)
next
  case (handle_close i s fd)
  from workers_update [OF handle_close(1), of W_CLOSED] handle_close(2,3) show ?case
    by (auto simp: owned_def open_fds_def)
qed (auto simp: owned_def open_fds_def handle_shutdown_signal_def workers_update_same)

section \<open>Phases\<close>

text \<open>The events a connection may still count.\<close>

definition request_events :: "stats_event list \<Rightarrow> bool" where
  "request_events es = (length es \<le> 2 * HTTP_MAX_REQUESTS_PER_CONNECTION
     \<and> (\<forall>e\<in>set es. e = REQUEST_RECEIVED \<or> (\<exists>status. e = RESPONSE_SENT status)))"

lemma request_events_Cons: "request_events (e # es) \<Longrightarrow> request_events es"
  by (simp add: request_events_def)

lemma conversation_events:
  assumes "conversation files 0 input out es"
  shows "request_events es"
proof -
  have "length es \<le> 2 * (HTTP_MAX_REQUESTS_PER_CONNECTION - k)"
    if "conversation files k input out es" "k < HTTP_MAX_REQUESTS_PER_CONNECTION" for k
    using that by (induction rule: conversation.induct) auto
  from this [OF assms] have "length es \<le> 2 * HTTP_MAX_REQUESTS_PER_CONNECTION"
    by (simp add: HTTP_MAX_REQUESTS_PER_CONNECTION_def)
  moreover have "\<forall>e\<in>set es. e = REQUEST_RECEIVED \<or> (\<exists>status. e = RESPONSE_SENT status)"
    using assms by (induction rule: conversation.induct) auto
  ultimately show ?thesis by (simp add: request_events_def)
qed

text \<open>
  The queue is shut down exactly while the acceptor joins; then no worker waits, and one has ended
  only if the queue is empty. Before, no worker has ended. A queue that holds connections has a
  worker that is awake.
\<close>

definition in_phase :: "server_t \<Rightarrow> bool" where
  "in_phase s = ((shutting_down (sv_queue s) \<longleftrightarrow> sv_accept s = A_JOIN \<or> sv_accept s = A_DONE)
     \<and> (sv_accept s \<in> {A_CLEANUP, A_JOIN, A_DONE} \<longrightarrow> g_shutdown_requested s)
     \<and> (\<forall>fd. sv_accept s = A_REFUSED fd CONNECTION_QUEUE_SHUTDOWN \<longrightarrow> g_shutdown_requested s)
     \<and> (shutting_down (sv_queue s) \<longrightarrow> W_WAIT \<notin> set (sv_workers s))
     \<and> (\<not> shutting_down (sv_queue s) \<longrightarrow> W_EXIT \<notin> set (sv_workers s))
     \<and> (W_EXIT \<in> set (sv_workers s) \<longrightarrow> contents (sv_queue s) = [])
     \<and> (sv_accept s = A_DONE \<longrightarrow> set (sv_workers s) \<subseteq> {W_EXIT})
     \<and> (\<forall>fd es. W_HANDLE fd es \<in> set (sv_workers s) \<longrightarrow> request_events es))"

definition awake :: "server_t \<Rightarrow> bool" where
  "awake s = (contents (sv_queue s) \<noteq> [] \<longrightarrow> (\<exists>p\<in>set (sv_workers s). p \<noteq> W_WAIT \<and> p \<noteq> W_EXIT))"

lemma signalled_set:
  assumes "signalled ws ws'"
  shows "set ws' \<subseteq> insert W_POP (set ws)" and "W_WAIT \<in> set ws \<Longrightarrow> W_POP \<in> set ws'"
    and "W_WAIT \<notin> set ws \<Longrightarrow> ws' = ws"
  using assms set_update_subset_insert [of ws] set_update_memI [of _ ws W_POP]
  by (auto simp: signalled_def split: if_splits)

lemma wake_all_set: "set (wake_all ws) \<subseteq> insert W_POP (set ws - {W_WAIT})" "(p \<in> set ws \<Longrightarrow> p \<noteq> W_WAIT \<Longrightarrow> p \<in> set (wake_all ws))"
  by (auto simp: wake_all_def)

text \<open>A worker that goes on to a phase in which it is awake.\<close>

lemma in_phase_worker:
  assumes "in_phase s" and "i < length (sv_workers s)" and "sv_workers s ! i \<noteq> W_EXIT"
    and "p \<noteq> W_WAIT" "p \<noteq> W_EXIT" "\<And>fd es. p = W_HANDLE fd es \<Longrightarrow> request_events es"
    and "sv_workers s' = (sv_workers s)[i := p]" "sv_accept s' = sv_accept s"
    "g_shutdown_requested s' = g_shutdown_requested s" "shutting_down (sv_queue s') = shutting_down (sv_queue s)"
    and "contents (sv_queue s) = [] \<Longrightarrow> contents (sv_queue s') = []"
  shows "in_phase s'"
proof -
  have sub: "set (sv_workers s') \<subseteq> insert p (set (sv_workers s))"
    using set_update_subset_insert [of "sv_workers s" i p] assms(7) by simp
  have nd: "sv_accept s \<noteq> A_DONE"
    using assms(1,2,3) nth_mem [OF assms(2)] unfolding in_phase_def by blast
  have h: "W_HANDLE fd es \<in> set (sv_workers s') \<Longrightarrow> request_events es" for fd es
    using sub assms(1,6) unfolding in_phase_def by (metis insertE subsetD)
  have "W_WAIT \<in> set (sv_workers s') \<Longrightarrow> W_WAIT \<in> set (sv_workers s)"
    "W_EXIT \<in> set (sv_workers s') \<Longrightarrow> W_EXIT \<in> set (sv_workers s)" using sub assms(4,5) by auto
  with assms(1,11) h nd show ?thesis unfolding in_phase_def assms(8-10) by blast
qed

lemma in_phase_step:
  assumes "server_step a s s'" and "in_phase s" and "queue_ok (sv_queue s)"
  shows "in_phase s'"
  using assms
proof (induction rule: server_step.induct)
  case (push_ok s fd c q ws)
  note f = push_section_facts [OF push_ok(5,2)]
  have d: "\<not> shutting_down (sv_queue s)" "\<not> shutting_down q" using f(4) by simp_all
  have "W_EXIT \<notin> set ws" "\<forall>x es. W_HANDLE x es \<in> set ws \<longrightarrow> request_events es"
    using signalled_set(1) [OF push_ok(3)] push_ok(4) d(1) unfolding in_phase_def by blast+
  with push_ok(4) d show ?case unfolding in_phase_def by simp
next
  case (push_refused s fd c status q)
  from push_section_facts(3) [OF push_refused(5,2)] push_refused(1-4) show ?case
    unfolding in_phase_def push_section_def by (simp split: if_splits)
next
  case (push_wait s fd c q)
  from push_section_facts(3) [OF push_wait(4,2)] push_wait(1,3) show ?case by (auto simp: in_phase_def)
next
  case (shutdown s)
  have d: "\<not> shutting_down (sv_queue s)" using shutdown(1,2) by (simp add: in_phase_def)
  have "W_EXIT \<notin> set (wake_all (sv_workers s))" "W_WAIT \<notin> set (wake_all (sv_workers s))"
    "\<forall>x es. W_HANDLE x es \<in> set (wake_all (sv_workers s)) \<longrightarrow> request_events es"
    using wake_all_set(1) [of "sv_workers s"] shutdown(2) d unfolding in_phase_def by blast+
  with shutdown d shutdown_queue [OF shutdown(3)] show ?case unfolding in_phase_def by simp
next
  case (pop_ok i s fd q files input out es)
  note f = pop_section_facts [OF pop_ok(6,3)]
  have e: "request_events es"
    using conversation_events [OF pop_ok(4)] .
  with f(3,4) pop_ok(2) show ?case by (intro in_phase_worker [OF pop_ok(5,1), of "W_HANDLE fd es"]) auto
next
  case (pop_wait i s q)
  note f = pop_section_facts(5) [OF pop_wait(5,3) refl]
  have "sv_accept s \<noteq> A_DONE" using f pop_wait(4) by (auto simp: in_phase_def)
  with pop_wait(4) f set_update_subset_insert [of "sv_workers s" i W_WAIT] show ?case
    unfolding in_phase_def by (simp del: subset_insert_iff) blast
next
  case (pop_stop i s none q)
  have f: "q = sv_queue s" "contents (sv_queue s) = []" "shutting_down (sv_queue s)"
    using pop_section_facts(6) [OF pop_stop(5,3)] by auto
  with pop_stop(4) set_update_subset_insert [of "sv_workers s" i W_EXIT] show ?case
    unfolding in_phase_def by (simp del: subset_insert_iff) blast
next
  case (wake i s)
  then show ?case by (intro in_phase_worker [OF wake(3,1), of W_POP]) auto
next
  case (handle_event i s fd e es)
  have "W_HANDLE fd (e # es) \<in> set (sv_workers s)" using handle_event(1,2) by (metis nth_mem)
  then have "request_events (e # es)" using handle_event(3) unfolding in_phase_def by blast
  with handle_event request_events_Cons show ?case
    by (intro in_phase_worker [OF handle_event(3,1), of "W_HANDLE fd es"]) auto
next
  case (handle_close i s fd)
  then show ?case by (intro in_phase_worker [OF handle_close(3,1), of W_CLOSED]) auto
next
  case (finished i s)
  then show ?case by (intro in_phase_worker [OF finished(3,1), of W_POP]) auto
qed (auto simp: in_phase_def handle_shutdown_signal_def shutdown_was_requested_def)

lemma awake_step:
  assumes "server_step a s s'" and "awake s" and "in_phase s" and "queue_ok (sv_queue s)" and "sv_workers s \<noteq> []"
  shows "awake s'"
  using assms
proof (induction rule: server_step.induct)
  case (push_ok s fd c q ws)
  have d: "\<not> shutting_down (sv_queue s)" using push_section_facts(4) [OF push_ok(6,2)] by simp
  have "\<exists>p\<in>set ws. p \<noteq> W_WAIT \<and> p \<noteq> W_EXIT"
  proof (cases "W_WAIT \<in> set (sv_workers s)")
    case True
    then have "W_POP \<in> set ws" using signalled_set(2) [OF push_ok(3)] by simp
    then show ?thesis by blast
  next
    case False
    moreover have "W_EXIT \<notin> set (sv_workers s)" using d push_ok(5) by (simp add: in_phase_def)
    ultimately show ?thesis
      using signalled_set(3) [OF push_ok(3)] push_ok(7) by (metis last_in_set)
  qed
  then show ?case by (simp add: awake_def)
next
  case (push_refused s fd c status q)
  with push_section_facts(3) [OF push_refused(6,2)] show ?case by (auto simp: awake_def)
next
  case (push_wait s fd c q)
  with push_section_facts(3) [OF push_wait(5,2)] show ?case by (auto simp: awake_def)
next
  case (shutdown s)
  then show ?case using shutdown_queue [of "sv_queue s"] wake_all_set(2) [of _ "sv_workers s"]
    by (auto simp: awake_def)
next
  case (pop_ok i s fd q files input out es)
  then have "W_HANDLE fd es \<in> set ((sv_workers s)[i := W_HANDLE fd es])" by (simp add: set_update_memI)
  then show ?case by (auto simp: awake_def)
next
  case (pop_wait i s q)
  from pop_section_facts(5) [OF pop_wait(6,3) refl] show ?case by (simp add: awake_def)
next
  case (pop_stop i s none q)
  from pop_section_facts(6) [OF pop_stop(6,3)] show ?case by (simp add: awake_def)
next
  case (wake i s)
  then have "W_POP \<in> set ((sv_workers s)[i := W_POP])" by (simp add: set_update_memI)
  then show ?case by (auto simp: awake_def)
next
  case (handle_event i s fd e es)
  then have "W_HANDLE fd es \<in> set ((sv_workers s)[i := W_HANDLE fd es])" by (simp add: set_update_memI)
  then show ?case by (auto simp: awake_def)
next
  case (handle_close i s fd)
  then have "W_CLOSED \<in> set ((sv_workers s)[i := W_CLOSED])" by (simp add: set_update_memI)
  then show ?case by (auto simp: awake_def)
next
  case (finished i s)
  then have "W_POP \<in> set ((sv_workers s)[i := W_POP])" by (simp add: set_update_memI)
  then show ?case by (auto simp: awake_def)
qed (simp_all add: awake_def handle_shutdown_signal_def)

text \<open>The counter of accepted connections runs behind by the one that is not counted yet.\<close>

definition counted :: "server_t \<Rightarrow> bool" where
  "counted s = (stats_initialized (sv_stats s)
     \<and> connections_accepted (sv_stats s) + (case sv_accept s of A_ACCEPTED _ \<Rightarrow> 1 | _ \<Rightarrow> 0) = of_nat (length (sv_accepted s)))"

lemma counted_step:
  assumes "server_step a s s'" and "counted s" and "in_phase s"
  shows "counted s'"
  using assms
proof (induction rule: server_step.induct)
  case (handle_event i s fd e es)
  have "W_HANDLE fd (e # es) \<in> set (sv_workers s)" using handle_event(1,2) by (metis nth_mem)
  then have "request_events (e # es)" using handle_event(4) unfolding in_phase_def by blast
  with handle_event(3) show ?case by (auto simp: counted_def request_events_def stats_op_defs)
qed (auto simp: counted_def handle_shutdown_signal_def stats_op_defs split: accept_phase.splits)

section \<open>Starting up\<close>

lemma startup_facts:
  assumes "server_startup config env lg w = (True, r, w')"
  shows "queue_ok (rn_queue r) \<and> contents (rn_queue r) = [] \<and> \<not> shutting_down (rn_queue r)
      \<and> q_capacity (rn_queue r) = size_t_of_int (queue_capacity config)"
    and "tp_started_count (rn_pool r) = size_t_of_int (worker_count config)" "0 < size_t_of_int (worker_count config)"
      "tp_threads (rn_pool r) \<noteq> None"
    and "rn_stats r = snd (server_stats_init True)"
    and "logger_ready r \<and> stats_ready r \<and> queue_ready r \<and> pool_ready r \<and> workers_running r"
    and "live (mem w') = live (mem w) + 2" "closed w' = closed w"
proof -
  obtain b1 q w1 where q: "connection_queue_init queue_zero (size_t_of_int (queue_capacity config)) (su_queue_mutex env)
      (su_not_empty env) (su_not_full env) w = (b1, q, w1)" by (metis prod_cases3)
  obtain b2 pool h where p: "thread_pool_init pool_zero (size_t_of_int (worker_count config)) (mem w1) = (b2, pool, h)"
    by (metis prod_cases3)
  obtain b3 pool' q' h' where t: "thread_pool_start (su_create env) pool q h = (b3, pool', q', h')" by (metis prod_cases4)
  have run: "su_stats_mutex env \<and> b1 \<and> b2 \<and> b3 \<and> r = \<lparr>logger_ready = True, stats_ready = True, queue_ready = True,
      pool_ready = True, workers_running = True, rn_logger = lg\<lparr>g_logger_ready := True\<rparr>,
      rn_stats = snd (server_stats_init True), rn_queue = q', rn_pool = pool'\<rparr> \<and> w' = w1\<lparr>mem := h'\<rparr>"
    using assms by (auto simp: server_startup_def logger_init_def Let_def q p t run_init_def server_stats_init_def
        split: if_splits)
  then have b: "b1" "b2" "b3" by simp_all
  note fq = init_queue_facts(1) [OF q b(1)] init_queue_facts(3) [OF q]
  have ok: "queue_ok q" using fq by simp
  note fp = pool_start_facts [OF p [unfolded eqTrueI [OF b(2)]] t ok]
  show "queue_ok (rn_queue r) \<and> contents (rn_queue r) = [] \<and> \<not> shutting_down (rn_queue r)
      \<and> q_capacity (rn_queue r) = size_t_of_int (queue_capacity config)"
    using run fq fp b by simp
  show "tp_started_count (rn_pool r) = size_t_of_int (worker_count config)" "0 < size_t_of_int (worker_count config)"
    "tp_threads (rn_pool r) \<noteq> None" "rn_stats r = snd (server_stats_init True)"
    "logger_ready r \<and> stats_ready r \<and> queue_ready r \<and> pool_ready r \<and> workers_running r"
    "live (mem w') = live (mem w) + 2" "closed w' = closed w"
    using run fq fp b by simp_all
qed

definition server_inv :: "server_config_t \<Rightarrow> server_t \<Rightarrow> bool" where
  "server_inv config s = (owned (size_t_of_int (queue_capacity config)) (size_t_of_int (worker_count config)) s
     \<and> in_phase s \<and> awake s \<and> counted s \<and> sv_workers s \<noteq> [])"

lemma server_inv_step:
  assumes "server_step a s s'" and "server_inv config s"
  shows "server_inv config s'"
proof -
  have q: "queue_ok (sv_queue s)" using assms(2) by (simp add: server_inv_def owned_def)
  have "owned (size_t_of_int (queue_capacity config)) (size_t_of_int (worker_count config)) s'"
    using owned_step [OF assms(1)] assms(2) by (simp add: server_inv_def)
  moreover from this have "sv_workers s' \<noteq> []" using assms(2) by (auto simp: server_inv_def owned_def)
  ultimately show ?thesis
    using in_phase_step [OF assms(1) _ q] awake_step [OF assms(1) _ _ q] counted_step [OF assms(1)] assms(2)
    by (simp add: server_inv_def)
qed

lemma server_inv_reachable:
  assumes "server_startup config env lg w = (True, r, w')" and "server_reachable (server_initial r) s"
  shows "server_inv config s"
  using assms(2)
proof (induction rule: server_reachable.induct)
  case initial
  note f = startup_facts [OF assms(1)]
  have "map worker_fds (replicate n W_POP) = replicate n []" for n by simp
  then show ?case using f
    by (auto simp: server_inv_def owned_def in_phase_def awake_def counted_def server_initial_def open_fds_def
        server_stats_init_def)
qed (rule server_inv_step)

text \<open>The descriptors held by the acceptor and the workers.\<close>

lemma open_fds_bound:
  assumes "owned capacity n s"
  shows "length (open_fds s) \<le> capacity + n + 1"
proof -
  have "length (concat (map worker_fds ws)) \<le> length ws" for ws
  proof (induction ws)
    case (Cons p ws)
    then show ?case by (cases p) auto
  qed simp
  from this [of "sv_workers s"] have "length (concat (map worker_fds (sv_workers s))) \<le> n" using assms by (simp add: owned_def)
  moreover have "length (acceptor_fds p) \<le> 1" for p by (cases p) auto
  from this [of "sv_accept s"] have "length (acceptor_fds (sv_accept s)) \<le> 1" .
  moreover have "length (contents (sv_queue s)) \<le> capacity"
    using assms length_contents by (auto simp: owned_def queue_ok_def)
  ultimately show ?thesis by (simp add: open_fds_def)
qed

section \<open>Coming to an end\<close>

fun worker_weight :: "worker_phase \<Rightarrow> nat" where
  "worker_weight W_EXIT = 0"
| "worker_weight W_POP = 1"
| "worker_weight W_WAIT = 2"
| "worker_weight W_CLOSED = 2"
| "worker_weight (W_HANDLE fd es) = 3 + length es"

text \<open>A bound on the steps that are left once the queue is shut down.\<close>

definition drain_bound :: "server_t \<Rightarrow> nat" where
  "drain_bound s = (2 * HTTP_MAX_REQUESTS_PER_CONNECTION + 3) * length (contents (sv_queue s))
     + sum_list (map worker_weight (sv_workers s)) + (if sv_accept s = A_JOIN then 1 else 0)"

lemma weight_update:
  "i < length ws \<Longrightarrow> sum_list (map worker_weight (ws[i := p])) + worker_weight (ws ! i)
     = sum_list (map worker_weight ws) + worker_weight p"
  by (induction ws arbitrary: i) (auto simp: nth_Cons split: nat.splits)

lemma drain_step:
  assumes "server_step a s s'" and "in_phase s" and "queue_ok (sv_queue s)" and "sv_accept s = A_JOIN \<or> sv_accept s = A_DONE"
  shows "drain_bound s' < drain_bound s \<and> (sv_accept s' = A_JOIN \<or> sv_accept s' = A_DONE)"
proof -
  have p: "g_shutdown_requested s" "shutting_down (sv_queue s)" "W_WAIT \<notin> set (sv_workers s)"
    using assms(2,4) by (auto simp: in_phase_def)
  have lt: "sum_list (map worker_weight ((sv_workers s)[i := x])) < sum_list (map worker_weight (sv_workers s))"
    if "i < length (sv_workers s)" "worker_weight x < worker_weight (sv_workers s ! i)" for i x
    using weight_update [OF that(1), of x] that(2) by linarith
  show ?thesis
    using assms(1)
  proof (cases rule: server_step.cases)
    case (pop_ok i fd q files input out es)
    from pop_section_facts(4) [OF assms(3) pop_ok(5) refl] have "contents (sv_queue s) = fd # contents q" by auto
    moreover have "length es \<le> 2 * HTTP_MAX_REQUESTS_PER_CONNECTION"
      using conversation_events [OF pop_ok(6)] by (simp add: request_events_def)
    ultimately show ?thesis using weight_update [OF pop_ok(3), of "W_HANDLE fd es"] pop_ok(2,4) assms(4)
      by (auto simp: drain_bound_def)
  next
    case (pop_wait i q)
    with pop_section_facts(5) [OF assms(3)] p show ?thesis by auto
  next
    case (pop_stop i none q)
    from pop_section_facts(6) [OF assms(3) pop_stop(5)] have "q = sv_queue s" by auto
    with lt [OF pop_stop(3), of W_EXIT] pop_stop assms(4) show ?thesis by (auto simp: drain_bound_def)
  next
    case (wake i)
    with p(3) show ?thesis by (metis nth_mem)
  next
    case (handle_event i fd e es)
    with lt [OF handle_event(3), of "W_HANDLE fd es"] assms(4) show ?thesis by (auto simp: drain_bound_def)
  next
    case (handle_close i fd)
    with lt [OF handle_close(3), of W_CLOSED] assms(4) show ?thesis by (auto simp: drain_bound_def)
  next
    case (finished i)
    with lt [OF finished(3), of W_POP] assms(4) show ?thesis by (auto simp: drain_bound_def)
  qed (use p assms(4) in \<open>auto simp: drain_bound_def shutdown_was_requested_def\<close>)
qed

text \<open>No deadlock: while the acceptor joins, some thread can take a step.\<close>

lemma join_progress:
  assumes "in_phase s" and "queue_ok (sv_queue s)" and "sv_accept s = A_JOIN"
  shows "\<exists>a s'. server_step a s s'"
proof (cases "\<forall>p\<in>set (sv_workers s). p = W_EXIT")
  case True
  with assms(3) show ?thesis using server_step.join by blast
next
  case False
  then obtain i where i: "i < length (sv_workers s)" "sv_workers s ! i \<noteq> W_EXIT" by (metis in_set_conv_nth)
  have d: "shutting_down (sv_queue s)" "W_WAIT \<notin> set (sv_workers s)" using assms by (auto simp: in_phase_def)
  show ?thesis
  proof (cases "sv_workers s ! i")
    case W_POP
    obtain r q where p: "pop_section (sv_queue s) = (r, q)" by fastforce
    have "r \<noteq> None" using pop_section_facts(5) [OF assms(2) p] d(1) by blast
    from pop_section_facts(6) [OF assms(2) p this] p show ?thesis
      using server_step.pop_ok [OF i(1) W_POP _ conversation.over] server_step.pop_stop [OF i(1) W_POP] by blast
  next
    case W_WAIT
    with d(2) i(1) show ?thesis by (metis nth_mem)
  next
    case (W_HANDLE fd es)
    then show ?thesis
      using server_step.handle_event [OF i(1)] server_step.handle_close [OF i(1)] by (cases es) blast+
  next
    case W_CLOSED
    then show ?thesis using server_step.finished [OF i(1)] by blast
  qed (use i in simp)
qed

lemma drain_steps:
  assumes "((\<lambda>x y. \<exists>a. server_step a x y) ^^ k) s s'" and "server_inv config s" and "sv_accept s = A_JOIN \<or> sv_accept s = A_DONE"
  shows "k + drain_bound s' \<le> drain_bound s \<and> server_inv config s' \<and> (sv_accept s' = A_JOIN \<or> sv_accept s' = A_DONE)"
  using assms(1)
proof (induction k arbitrary: s')
  case 0
  with assms show ?case by simp
next
  case (Suc k)
  then obtain y a where y: "((\<lambda>x y. \<exists>a. server_step a x y) ^^ k) s y" "server_step a y s'" by auto
  note ih = Suc.IH [OF y(1)]
  then have "in_phase y" "queue_ok (sv_queue y)" by (simp_all add: server_inv_def owned_def)
  from drain_step [OF y(2) this] server_inv_step [OF y(2)] ih show ?case by force
qed

text \<open>How far the acceptor is from its end once the flag is set.\<close>

fun stop_rank :: "accept_phase \<Rightarrow> nat" where
  "stop_rank A_DONE = 0"
| "stop_rank A_JOIN = 1"
| "stop_rank A_CLEANUP = 2"
| "stop_rank A_TEST = 3"
| "stop_rank A_PUSHED = 4"
| "stop_rank (A_REFUSED fd status) = 5"
| "stop_rank (A_PUSH fd) = 6"
| "stop_rank (A_WAIT fd) = 7"
| "stop_rank (A_ACCEPTED fd) = 8"
| "stop_rank A_ACCEPT = 9"
| "stop_rank A_CALL = 10"

lemma stop_rank_step:
  assumes "server_step a s s'" and "g_shutdown_requested s" and "queue_ok (sv_queue s)"
  shows "g_shutdown_requested s' \<and> (case a of Worker i \<Rightarrow> sv_accept s' = sv_accept s
    | _ \<Rightarrow> stop_rank (sv_accept s') < stop_rank (sv_accept s))"
  using assms(1)
proof (cases rule: server_step.cases)
  case (push_wait fd c q)
  with push_section_facts(5) [OF assms(3) push_wait(4) refl] assms(2) show ?thesis by simp
qed (use assms(2) in \<open>auto simp: shutdown_was_requested_def\<close>)

section \<open>Cleaning up\<close>

text \<open>What the flags of \<open>server_run\<close> promise.\<close>

definition flags_ok :: "run_t \<Rightarrow> bool" where
  "flags_ok r = ((queue_ready r \<longrightarrow> queue_ok (rn_queue r) \<and> contents (rn_queue r) = [])
     \<and> (pool_ready r \<longrightarrow> queue_ready r \<and> tp_threads (rn_pool r) \<noteq> None) \<and> (workers_running r \<longrightarrow> pool_ready r)
     \<and> (\<not> queue_ready r \<longrightarrow> \<not> mutex_initialized (rn_queue r)) \<and> (\<not> stats_ready r \<longrightarrow> \<not> stats_initialized (rn_stats r))
     \<and> (\<not> pool_ready r \<longrightarrow> tp_started_count (rn_pool r) = 0) \<and> logger_ready r)"

definition held_blocks :: "run_t \<Rightarrow> int" where
  "held_blocks r = (if pool_ready r then 1 else 0) + (if queue_ready r then 1 else 0)"

lemma cleanup_facts:
  assumes "server_cleanup r w = (r', w')" and "flags_ok r"
  shows "live (mem w') = live (mem w) - held_blocks r \<and> closed w' = closed w \<and> tp_started_count (rn_pool r') = 0
    \<and> \<not> g_logger_ready (rn_logger r')
    \<and> \<not> stats_initialized (rn_stats r') \<and> \<not> mutex_initialized (rn_queue r')"
proof -
  let ?q = "connection_queue_shutdown (rn_queue r)"
  have dq: "\<exists>x. connection_queue_destroy q v = (queue_zero, x) \<and> closed x = closed v \<and> live (mem x) = live (mem v) - 1"
    if "queue_ok q" "contents q = []" for q and v :: "'a world_scheme"
  proof -
    obtain q' x where d: "connection_queue_destroy q v = (q', x)" by fastforce
    from destroy_queue_facts [OF d that(1)] that(2) d show ?thesis by simp
  qed
  have z: "\<not> mutex_initialized queue_zero" by (simp add: queue_zero_def)
  show ?thesis
  proof (cases "queue_ready r")
    case False
    with assms show ?thesis
      by (auto simp: server_cleanup_def flags_ok_def held_blocks_def Let_def logger_destroy_def server_stats_destroy_def
          split: if_splits prod.splits)
  next
    case True
    then have q: "queue_ok (rn_queue r)" "contents (rn_queue r) = []" "queue_ok ?q" "contents ?q = []"
      using assms(2) shutdown_queue [of "rn_queue r"] by (auto simp: flags_ok_def)
    show ?thesis
    proof (cases "pool_ready r")
      case False
      then have nr: "\<not> workers_running r" using assms(2) by (auto simp: flags_ok_def)
      from dq [OF q(1,2), of w] obtain x where x: "connection_queue_destroy (rn_queue r) w = (queue_zero, x)"
        "closed x = closed w" "live (mem x) = live (mem w) - 1" by blast
      with assms True False nr z show ?thesis
        by (auto simp: server_cleanup_def flags_ok_def held_blocks_def Let_def logger_destroy_def server_stats_destroy_def
            split: if_splits)
    next
      case pr: True
      have b: "blocks (tp_threads (rn_pool r)) = 1" using assms(2) pr by (auto simp: flags_ok_def blocks_def)
      have j: "tp_threads (thread_pool_join (rn_pool r)) = tp_threads (rn_pool r)" "tp_started_count (thread_pool_join (rn_pool r)) = 0"
        using assms(2) pr by (auto simp: thread_pool_join_def flags_ok_def)
      define v where "v = w\<lparr>mem := c_free (tp_threads (rn_pool r)) (mem w)\<rparr>"
      from dq [OF q(3,4), of v] obtain x where x: "connection_queue_destroy ?q v = (queue_zero, x)"
        "closed x = closed w" "live (mem x) = live (mem w) - 2" using b by (auto simp: v_def)
      with assms True pr z j show ?thesis
        by (auto simp: server_cleanup_def flags_ok_def held_blocks_def Let_def logger_destroy_def server_stats_destroy_def
            thread_pool_destroy_def v_def [symmetric] split: if_splits)
    qed
  qed
qed

lemma startup_flags:
  assumes "server_startup config env lg w = (ok, r, w')"
  shows "flags_ok r \<and> live (mem w') = live (mem w) + held_blocks r \<and> closed w' = closed w
    \<and> (ok = (workers_running r))"
proof -
  obtain b1 q w1 where q: "connection_queue_init queue_zero (size_t_of_int (queue_capacity config)) (su_queue_mutex env)
      (su_not_empty env) (su_not_full env) w = (b1, q, w1)" by (metis prod_cases3)
  obtain b2 pool h where p: "thread_pool_init pool_zero (size_t_of_int (worker_count config)) (mem w1) = (b2, pool, h)"
    by (metis prod_cases3)
  obtain b3 pool' q' h' where t: "thread_pool_start (su_create env) pool q h = (b3, pool', q', h')" by (metis prod_cases4)
  note fq = init_queue_facts(1-3) [OF q]
  have mi: "\<not> b1 \<Longrightarrow> \<not> mutex_initialized q"
    using q by (auto simp: connection_queue_init_def connection_queue_destroy_def queue_zero_def Let_def split: if_splits prod.splits)
  have fh: "\<not> b2 \<Longrightarrow> live h = live (mem w1)"
    using p by (auto simp: thread_pool_init_def heap_simps split: if_splits prod.splits)
  have fs: "\<not> b2 \<Longrightarrow> tp_started_count pool = 0"
    using p by (auto simp: thread_pool_init_def pool_zero_def split: if_splits prod.splits)
  have fp: "live h' = live (mem w1) + 1" "tp_threads pool' \<noteq> None"
    "if b3 then q' = q else q' = connection_queue_shutdown q" if b1 b2
    using pool_start_facts [OF p [unfolded eqTrueI [OF that(2)]] t] fq(1) [OF that(1)] by auto
  have sq: "b1 \<Longrightarrow> queue_ok (connection_queue_shutdown q) \<and> contents (connection_queue_shutdown q) = []"
    using fq(1) shutdown_queue [of q] by auto
  define r1 where "r1 = (run_init lg)\<lparr>rn_logger := lg\<lparr>g_logger_ready := True\<rparr>, logger_ready := True,
    rn_stats := snd (server_stats_init (su_stats_mutex env))\<rparr>"
  have run: "(ok, r, w') = (if \<not> su_stats_mutex env then (False, r1, w)
     else if \<not> b1 then (False, r1\<lparr>stats_ready := True, rn_queue := q\<rparr>, w1)
     else if \<not> b2 then (False, r1\<lparr>stats_ready := True, rn_queue := q, queue_ready := True, rn_pool := pool\<rparr>, w1\<lparr>mem := h\<rparr>)
     else (b3, r1\<lparr>stats_ready := True, queue_ready := True, rn_pool := pool', pool_ready := True, rn_queue := q',
        workers_running := b3\<rparr>, w1\<lparr>mem := h'\<rparr>))"
    unfolding assms [symmetric]
    by (simp add: server_startup_def logger_init_def q p t Let_def r1_def run_init_def server_stats_init_def)
  have r1: "flags_ok r1 \<or> su_stats_mutex env" "\<not> queue_ready r1" "\<not> pool_ready r1" "\<not> workers_running r1"
    "logger_ready r1" "\<not> stats_ready r1" "rn_queue r1 = queue_zero" "tp_started_count (rn_pool r1) = 0"
    by (auto simp: r1_def run_init_def flags_ok_def server_stats_init_def queue_zero_def pool_zero_def)
  consider "\<not> su_stats_mutex env" | "su_stats_mutex env" "\<not> b1" | "su_stats_mutex env" b1 "\<not> b2"
    | "su_stats_mutex env" b1 b2 by blast
  then show ?thesis
  proof cases
    case 1
    with run r1 show ?thesis by (simp add: held_blocks_def)
  next
    case 2
    with run r1 fq(2,3) mi show ?thesis by (auto simp: held_blocks_def flags_ok_def)
  next
    case 3
    with run r1 fq(1,3) fh fs show ?thesis by (auto simp: held_blocks_def flags_ok_def)
  next
    case 4
    with run r1 fq(1,3) fp sq show ?thesis by (cases b3) (auto simp: held_blocks_def flags_ok_def)
  qed
qed

section \<open>Two runs\<close>

text \<open>
  A connection that is taken, served and closed by a worker before the acceptor counts its start.
\<close>

lemma overtaking_run:
  assumes "server_startup config env lg w = (True, r, w')"
  obtains s where "server_reachable (server_initial r) s" "sv_accept s = A_TEST" "open_fds s = []" "sv_accepted s = [5]"
    "active_connections (sv_stats s) = 1" "\<not> g_shutdown_requested s"
proof -
  note f = startup_facts [OF assms]
  define s0 where "s0 = server_initial r"
  have s0: "sv_accept s0 = A_TEST" "\<not> g_shutdown_requested s0" "sv_workers s0 = replicate (size_t_of_int (worker_count config)) W_POP"
    "sv_queue s0 = rn_queue r" "sv_stats s0 = snd (server_stats_init True)" "sv_accepted s0 = []"
    using f by (simp_all add: s0_def server_initial_def)
  have w0: "0 < length (sv_workers s0)" "sv_workers s0 ! 0 = W_POP" "W_WAIT \<notin> set (sv_workers s0)"
    using f(3) by (simp_all add: s0)
  have ok: "queue_ok (sv_queue s0)" "contents (sv_queue s0) = []" "\<not> shutting_down (sv_queue s0)" using f(1) by (simp_all add: s0)
  then have "\<not> queue_full (sv_queue s0)" using length_contents [OF ok(1)] by (auto simp: queue_full_def queue_ok_def)
  then have p: "push_section 5 (g_shutdown_requested s0) True (sv_queue s0) = (Some CONNECTION_QUEUE_OK, enqueue 5 (sv_queue s0))"
    using ok by (simp add: push_section_def)
  note e = push_section_facts [OF ok(1) p]
  obtain x q where x: "pop_section (enqueue 5 (sv_queue s0)) = (x, q)" by fastforce
  have "x \<noteq> None" using pop_section_facts(5) [OF e(1) x] e(4) [OF refl] by (metis snoc_eq_iff_butlast)
  from pop_section_facts(6) [OF e(1) x this] e(4) [OF refl] ok(2)
  have pop: "pop_section (enqueue 5 (sv_queue s0)) = (Some (CONNECTION_QUEUE_OK, Some 5), q)" and q: "contents q = []"
    using x by auto
  define s1 where "s1 = s0\<lparr>sv_accept := A_CALL\<rparr>"
  define s2 where "s2 = s1\<lparr>sv_accept := A_ACCEPT\<rparr>"
  define s3 where "s3 = s2\<lparr>sv_accept := A_ACCEPTED 5, sv_accepted := sv_accepted s2 @ [5]\<rparr>"
  define s4 where "s4 = s3\<lparr>sv_accept := A_PUSH 5, sv_stats := server_stats_connection_accepted (sv_stats s3)\<rparr>"
  define s5 where "s5 = s4\<lparr>sv_accept := A_PUSHED, sv_queue := enqueue 5 (sv_queue s0), sv_workers := sv_workers s0\<rparr>"
  define s6 where "s6 = s5\<lparr>sv_queue := q, sv_workers := (sv_workers s5)[0 := W_HANDLE 5 []], sv_handled := sv_handled s5 @ [5]\<rparr>"
  define s7 where "s7 = s6\<lparr>sv_workers := (sv_workers s6)[0 := W_CLOSED], sv_closed := sv_closed s6 @ [5]\<rparr>"
  define s8 where "s8 = s7\<lparr>sv_workers := (sv_workers s7)[0 := W_POP], sv_stats := server_stats_connection_finished (sv_stats s7)\<rparr>"
  define s9 where "s9 = s8\<lparr>sv_accept := A_TEST, sv_stats := server_stats_connection_started (sv_stats s8)\<rparr>"
  have st1: "server_step Acceptor s0 s1" unfolding s1_def using s0 by (intro server_step.stay) (simp_all add: shutdown_was_requested_def)
  note server_reachable.step [OF server_reachable.initial [of s0] st1]
  moreover have "server_step Acceptor s1 s2" unfolding s2_def by (rule server_step.call) (simp add: s1_def)
  moreover have "server_step Client s2 s3" unfolding s3_def by (rule server_step.accept_ok) (simp_all add: s2_def)
  moreover have "server_step Acceptor s3 s4" unfolding s4_def by (rule server_step.count) (simp add: s3_def)
  moreover have "server_step Acceptor s4 s5" unfolding s5_def
    by (rule server_step.push_ok [where fd = 5 and clock_ok = True])
      (use p w0 in \<open>simp_all add: s4_def s3_def s2_def s1_def signalled_def\<close>)
  moreover have "server_step (Worker 0) s5 s6" unfolding s6_def
    by (rule server_step.pop_ok [where files = "\<lambda>_. []" and input = "[]" and out = "[]"])
      (use pop w0 in \<open>simp_all add: s5_def conversation.over\<close>)
  moreover have "server_step (Worker 0) s6 s7" unfolding s7_def
    by (rule server_step.handle_close) (use w0 in \<open>simp_all add: s6_def s5_def\<close>)
  moreover have "server_step (Worker 0) s7 s8" unfolding s8_def
    by (rule server_step.finished) (use w0 in \<open>simp_all add: s7_def s6_def s5_def\<close>)
  moreover have "server_step Acceptor s8 s9" unfolding s9_def
    by (rule server_step.started) (simp add: s8_def s7_def s6_def s5_def)
  ultimately have "server_reachable s0 s9" by (meson server_reachable.step)
  moreover have "sv_workers s9 = sv_workers s0"
    using w0(2) list_update_id [of "sv_workers s0" 0] by (simp add: s9_def s8_def s7_def s6_def s5_def)
  moreover have "sv_queue s9 = q" by (simp add: s9_def s8_def s7_def s6_def)
  ultimately show thesis
    by (intro that [of s9])
      (simp_all add: s0_def [symmetric] q open_fds_def s0(3), simp_all add: s9_def s8_def s7_def s6_def s5_def s4_def s3_def s2_def s1_def s0
        stats_op_defs server_stats_init_def)
qed

text \<open>From a state in which the acceptor tests the flag, the server can be stopped.\<close>

lemma stopping_run:
  assumes "server_reachable s0 s" and "sv_accept s = A_TEST" and "\<not> g_shutdown_requested s"
  obtains s' where "server_reachable s0 s'" "sv_accept s' = A_JOIN" "sv_accepted s' = sv_accepted s"
proof -
  define s1 where "s1 = handle_shutdown_signal s"
  define s2 where "s2 = s1\<lparr>sv_accept := A_CLEANUP\<rparr>"
  define s3 where "s3 = s2\<lparr>sv_accept := A_JOIN, sv_queue := connection_queue_shutdown (sv_queue s2),
      sv_workers := wake_all (sv_workers s2)\<rparr>"
  have "server_step User s s1" unfolding s1_def using assms(3) by (rule server_step.signal)
  moreover have "server_step Acceptor s1 s2" unfolding s2_def
    by (rule server_step.leave) (simp_all add: s1_def assms(2) handle_shutdown_signal_def shutdown_was_requested_def)
  moreover have "server_step Acceptor s2 s3" unfolding s3_def by (rule server_step.shutdown) (simp add: s2_def)
  ultimately have "server_reachable s0 s3" using assms(1) by (meson server_reachable.step)
  then show thesis by (rule that) (simp_all add: s3_def s2_def s1_def handle_shutdown_signal_def)
qed

lemma ending_run:
  assumes "server_reachable s0 s" and "server_inv config s" and "sv_accept s = A_JOIN \<or> sv_accept s = A_DONE"
  shows "\<exists>s'. server_reachable s0 s' \<and> sv_accept s' = A_DONE \<and> sv_accepted s' = sv_accepted s"
  using assms
proof (induction "drain_bound s" arbitrary: s rule: less_induct)
  case less
  have i: "in_phase s" "queue_ok (sv_queue s)" using less.prems(2) by (simp_all add: server_inv_def owned_def)
  show ?case
  proof (cases "sv_accept s = A_DONE")
    case False
    then have j: "sv_accept s = A_JOIN" using less.prems(3) by simp
    from join_progress [OF i j] obtain a s' where st: "server_step a s s'" by blast
    note d = drain_step [OF st i less.prems(3)]
    have "sv_accepted s' = sv_accepted s" using st j by (cases rule: server_step.cases) (auto simp: handle_shutdown_signal_def)
    with less.hyps [of s'] d server_reachable.step [OF less.prems(1) st] server_inv_step [OF st less.prems(2)]
    show ?thesis by auto
  qed (use less.prems in blast)
qed

text \<open>A signal between the test of the flag and the call of \<open>accept\<close>.\<close>

lemma missed_signal_run:
  assumes "sv_accept s0 = A_TEST" and "\<not> g_shutdown_requested s0"
  obtains s where "server_reachable s0 s" "sv_accept s = A_ACCEPT" "g_shutdown_requested s" "sv_workers s = sv_workers s0"
proof -
  define s1 where "s1 = s0\<lparr>sv_accept := A_CALL\<rparr>"
  define s2 where "s2 = handle_shutdown_signal s1"
  define s3 where "s3 = s2\<lparr>sv_accept := A_ACCEPT\<rparr>"
  have st1: "server_step Acceptor s0 s1" unfolding s1_def
    by (rule server_step.stay) (use assms in \<open>simp_all add: shutdown_was_requested_def\<close>)
  note server_reachable.step [OF server_reachable.initial [of s0] st1]
  moreover have "server_step User s1 s2" unfolding s2_def by (rule server_step.signal) (simp add: s1_def assms)
  moreover have "server_step Acceptor s2 s3" unfolding s3_def
    by (rule server_step.call) (simp add: s2_def s1_def handle_shutdown_signal_def)
  ultimately have "server_reachable s0 s3" by (meson server_reachable.step)
  then show thesis by (rule that) (simp_all add: s3_def s2_def s1_def handle_shutdown_signal_def)
qed

lemma blocked_in_accept:
  assumes "(\<lambda>x y. \<exists>a. a \<noteq> Client \<and> server_step a x y)\<^sup>*\<^sup>* s s'" and "sv_accept s = A_ACCEPT" and "g_shutdown_requested s"
  shows "sv_accept s' = A_ACCEPT \<and> g_shutdown_requested s'"
  using assms
proof (induction rule: rtranclp_induct)
  case (step y z)
  then obtain a where "a \<noteq> Client" "server_step a y z" by blast
  with step.IH [OF step.prems] show ?case by (auto elim!: server_step.cases)
qed simp

section \<open>Properties\<close>

definition sample_start :: startup_env where
  "sample_start = \<lparr>su_stats_mutex = True, su_queue_mutex = True, su_not_empty = True, su_not_full = True, su_create = (\<lambda>_. True)\<rparr>"

definition sample_logger :: logger_t where
  "sample_logger = \<lparr>g_logger_ready = True, err_output = []\<rparr>"

lemma sample_startup:
  obtains r w' where "server_startup config_set_defaults sample_start sample_logger sample_world = (True, r, w')"
proof -
  have "fst (server_startup config_set_defaults sample_start sample_logger sample_world)" by code_simp
  then show thesis by (metis that prod.collapse)
qed

text \<open>
  C4. No connection is lost, leaked or closed twice by the threads together: at any moment of any
  interleaving every descriptor that was accepted has been closed or is held by exactly one of the
  acceptor, the queue and the workers. At most the capacity of the queue plus one per worker plus
  one are open; connections are served in the order in which they were accepted; and while
  connections are waiting in the queue not all workers are asleep.
\<close>

theorem server_connections_owned:
  assumes "server_startup config env lg w = (True, r, w')" and "server_reachable (server_initial r) s"
  shows "mset (sv_accepted s) = mset (sv_closed s) + mset (open_fds s)
    \<and> length (open_fds s) \<le> size_t_of_int (queue_capacity config) + size_t_of_int (worker_count config) + 1
    \<and> subseq (sv_handled s) (sv_accepted s)
    \<and> (contents (sv_queue s) \<noteq> [] \<longrightarrow> (\<exists>p\<in>set (sv_workers s). p \<noteq> W_WAIT \<and> p \<noteq> W_EXIT))"
proof -
  note i = server_inv_reachable [OF assms]
  then have o: "owned (size_t_of_int (queue_capacity config)) (size_t_of_int (worker_count config)) s"
    and "awake s" by (simp_all add: server_inv_def)
  have "subseq (sv_handled s) (sv_handled s @ contents (sv_queue s) @ acceptor_fds (sv_accept s))"
    by (rule prefix_imp_subseq) simp
  with o \<open>awake s\<close> open_fds_bound [OF o] show ?thesis
    by (auto simp: owned_def awake_def intro: subseq_order.trans)
qed

theorem server_connections_owned_witness:
  "\<exists>r w' s. server_startup config_set_defaults sample_start sample_logger sample_world = (True, r, w')
     \<and> server_reachable (server_initial r) s \<and> sv_accepted s = [5] \<and> sv_closed s = [5] \<and> open_fds s = []"
proof -
  obtain r w' where st: "server_startup config_set_defaults sample_start sample_logger sample_world = (True, r, w')"
    by (rule sample_startup)
  obtain s where s: "server_reachable (server_initial r) s" "open_fds s = []" "sv_accepted s = [5]"
    by (rule overtaking_run [OF st]) blast
  from server_connections_owned [OF st s(1)] s have "mset (sv_closed s) = {#5#}" by simp
  then have "sv_closed s = [5]" by (metis mset.simps mset_eq_length mset_single_iff size_mset)
  with st s show ?thesis by blast
qed

text \<open>
  C5. The shutdown terminates. Once the flag is set, every step of the accepting thread brings it
  nearer to its end and no other thread takes it back. Once the queue is shut down, every
  interleaving is over after at most \<open>drain_bound\<close> steps of all threads together, and it cannot
  stop before the acceptor is done: some thread can always take a step.
\<close>

theorem server_shutdown_terminates:
  assumes "server_startup config env lg w = (True, r, w')" and "server_reachable (server_initial r) s"
  shows "(g_shutdown_requested s \<longrightarrow> (\<forall>a s'. server_step a s s' \<longrightarrow> g_shutdown_requested s'
        \<and> (case a of Worker i \<Rightarrow> sv_accept s' = sv_accept s | _ \<Rightarrow> stop_rank (sv_accept s') < stop_rank (sv_accept s))))
    \<and> (sv_accept s = A_JOIN \<longrightarrow> (\<forall>k s'. ((\<lambda>x y. \<exists>a. server_step a x y) ^^ k) s s' \<longrightarrow>
        k \<le> drain_bound s \<and> (sv_accept s' = A_DONE \<or> (\<exists>a s''. server_step a s' s''))))"
proof (intro conjI impI allI)
  note i = server_inv_reachable [OF assms]
  then have q: "queue_ok (sv_queue s)" by (simp add: server_inv_def owned_def)
  fix a s'
  assume "g_shutdown_requested s" "server_step a s s'"
  with stop_rank_step [OF _ _ q] show "g_shutdown_requested s'"
    and "case a of Worker i \<Rightarrow> sv_accept s' = sv_accept s | _ \<Rightarrow> stop_rank (sv_accept s') < stop_rank (sv_accept s)"
    by blast+
next
  note i = server_inv_reachable [OF assms]
  fix k s'
  assume j: "sv_accept s = A_JOIN" and "((\<lambda>x y. \<exists>a. server_step a x y) ^^ k) s s'"
  with drain_steps [OF this(2) i] have d: "k + drain_bound s' \<le> drain_bound s" "server_inv config s'"
    "sv_accept s' = A_JOIN \<or> sv_accept s' = A_DONE" by simp_all
  then show "k \<le> drain_bound s" by simp
  show "sv_accept s' = A_DONE \<or> (\<exists>a s''. server_step a s' s'')"
    using d(2,3) join_progress [of s'] by (auto simp: server_inv_def owned_def)
qed

theorem server_shutdown_terminates_witness:
  "\<exists>r w' s. server_startup config_set_defaults sample_start sample_logger sample_world = (True, r, w')
     \<and> server_reachable (server_initial r) s \<and> sv_accept s = A_JOIN \<and> sv_accepted s = [5]
     \<and> (\<exists>a s'. server_step a s s') \<and> \<not> ((\<lambda>x y. \<exists>a. server_step a x y) ^^ Suc (drain_bound s)) s s"
proof -
  obtain r w' where st: "server_startup config_set_defaults sample_start sample_logger sample_world = (True, r, w')"
    by (rule sample_startup)
  obtain s0 where s0: "server_reachable (server_initial r) s0" "sv_accept s0 = A_TEST" "\<not> g_shutdown_requested s0" "sv_accepted s0 = [5]"
    by (rule overtaking_run [OF st]) blast
  obtain s where s: "server_reachable (server_initial r) s" "sv_accept s = A_JOIN" "sv_accepted s = [5]"
    by (rule stopping_run [OF s0(1-3)]) (use s0(4) in auto)
  note t = server_shutdown_terminates [OF st s(1)]
  from t s(2) have "k \<le> drain_bound s" "sv_accept s' = A_DONE \<or> (\<exists>a s''. server_step a s' s'')"
    if "((\<lambda>x y. \<exists>a. server_step a x y) ^^ k) s s'" for k s' using that by blast+
  from this(1) [of "Suc (drain_bound s)" s] this(2) [of 0 s] s(2) have "\<exists>a s'. server_step a s s'"
    "\<not> ((\<lambda>x y. \<exists>a. server_step a x y) ^^ Suc (drain_bound s)) s s" by (simp, linarith)
  with st s show ?thesis by blast
qed

text \<open>
  C12. A server that has ended has finished its work: every accepted connection was closed exactly
  once, all of them were counted, the queue is empty, and cleaning up releases all memory that was
  taken at the start and closes nothing a second time.
\<close>

theorem server_run_complete:
  assumes "server_startup config env lg w = (True, r, w')" and "server_reachable (server_initial r) s"
    and "sv_accept s = A_DONE"
    and "server_cleanup (r\<lparr>rn_queue := sv_queue s, rn_stats := sv_stats s\<rparr>) w' = (r', w'')"
  shows "mset (sv_closed s) = mset (sv_accepted s) \<and> connections_accepted (sv_stats s) = of_nat (length (sv_accepted s))
    \<and> contents (sv_queue s) = [] \<and> live (mem w'') = live (mem w) \<and> closed w'' = closed w"
proof -
  have i: "owned (size_t_of_int (queue_capacity config)) (size_t_of_int (worker_count config)) s" "in_phase s" "counted s"
    "sv_workers s \<noteq> []" using server_inv_reachable [OF assms(1,2)] by (simp_all add: server_inv_def)
  have ex: "set (sv_workers s) \<subseteq> {W_EXIT}" using i(2) assms(3) by (simp add: in_phase_def)
  moreover have "W_EXIT \<in> set (sv_workers s)" using ex i(4) by (metis last_in_set singletonD subsetD)
  ultimately have c: "contents (sv_queue s) = []" "concat (map worker_fds (sv_workers s)) = []"
    using i(2) by (auto simp: in_phase_def)
  have "flags_ok r" "live (mem w') = live (mem w) + held_blocks r" "closed w' = closed w"
    using startup_flags [OF assms(1)] by simp_all
  moreover have "flags_ok (r\<lparr>rn_queue := sv_queue s, rn_stats := sv_stats s\<rparr>)" "held_blocks (r\<lparr>rn_queue := sv_queue s, rn_stats := sv_stats s\<rparr>) = held_blocks r"
    using \<open>flags_ok r\<close> startup_facts(6) [OF assms(1)] c(1) i(1) by (auto simp: flags_ok_def held_blocks_def owned_def)
  ultimately show ?thesis
    using cleanup_facts [OF assms(4)] i(1,3) c assms(3) by (simp add: owned_def open_fds_def counted_def)
qed

theorem server_run_complete_witness:
  "\<exists>r w' s r' w''. server_startup config_set_defaults sample_start sample_logger sample_world = (True, r, w')
     \<and> server_reachable (server_initial r) s \<and> sv_accept s = A_DONE \<and> sv_accepted s = [5]
     \<and> server_cleanup (r\<lparr>rn_queue := sv_queue s, rn_stats := sv_stats s\<rparr>) w' = (r', w'')
     \<and> mset (sv_closed s) = {#5#} \<and> live (mem w'') = live (mem sample_world)"
proof -
  obtain r w' where st: "server_startup config_set_defaults sample_start sample_logger sample_world = (True, r, w')"
    by (rule sample_startup)
  obtain s0 where s0: "server_reachable (server_initial r) s0" "sv_accept s0 = A_TEST" "\<not> g_shutdown_requested s0" "sv_accepted s0 = [5]"
    by (rule overtaking_run [OF st]) blast
  obtain s1 where s1: "server_reachable (server_initial r) s1" "sv_accept s1 = A_JOIN" "sv_accepted s1 = [5]"
    by (rule stopping_run [OF s0(1-3)]) (use s0(4) in auto)
  obtain s where s: "server_reachable (server_initial r) s" "sv_accept s = A_DONE" "sv_accepted s = [5]"
    using ending_run [OF s1(1) server_inv_reachable [OF st s1(1)]] s1(2,3) by auto
  obtain r' w'' where c: "server_cleanup (r\<lparr>rn_queue := sv_queue s, rn_stats := sv_stats s\<rparr>) w' = (r', w'')" by fastforce
  from server_run_complete [OF st s(1,2) c] s(3) have "mset (sv_closed s) = {#5#}" "live (mem w'') = live (mem sample_world)"
    by simp_all
  with st s c show ?thesis by blast
qed









end
