(* ===== verification/Spec2Isabelle.thy ===== *)
theory Spec2Isabelle
  imports Http_Intake Server_Properties
begin

text \<open>
  CinderHTTP is an HTTP/1.x server in C for static files and three small API routes. One thread
  accepts connections and puts their descriptors into a bounded queue; a fixed pool of worker
  threads takes them out. A worker reads requests from its connection, parses them, routes them
  to an API handler or to the static files, sends the responses and keeps or closes the connection.
  A signal makes the acceptor leave its loop, the workers drain the queue, and the program ends.
  This library models the server, function by function, and proves what makes it correct.

  \<^bold>\<open>Conventions.\<close> A byte is a \<open>char\<close>, a C string or buffer a list of them, a pointer that may be
  NULL an option. A return value 0 or -1 is \<open>True\<close> or \<open>False\<close>; output parameters are part of the
  result. The allocator is a record \<open>heap\<close>: a script of outcomes (used up, it grants every
  request) and the number of live blocks; every \<open>malloc\<close>, \<open>realloc\<close> and \<open>free\<close> of the source
  acts on it, so each path with a failed allocation is a path of the model, and a leak or a double
  release is a wrong number. System calls take their results from scripts in the order of the
  calls; a function that makes a call whose script has run out returns \<open>None\<close>, it is still waiting.
  The counters are 64-bit words. Sizes are natural numbers: they are bounded far below
  \<open>SIZE_MAX\<close> by the limits of \<^verbatim>\<open>include/http_limits.h\<close>.

  \<^bold>\<open>Foundations.\<close>
  \<^item> \<open>Prelude\<close>: collections of theorems, lemmas on lists, splitting and joining.
  \<^item> \<open>C_Library\<close>: what the program uses of the C library (character classes, \<open>strtoull\<close>,
    \<open>strtol\<close>, the conversions of \<open>printf\<close>, the allocator).
  \<^item> \<open>Http_Limits\<close>: the constants of \<^verbatim>\<open>include/http_limits.h\<close>.
  \<^item> \<open>Os_World\<close>: sockets, descriptors and files as seen by the sending side, and \<open>send_all\<close> of
    \<^verbatim>\<open>src/utils.c\<close>.

  \<^bold>\<open>Requests.\<close>
  \<^item> \<open>Http_Request\<close> (\<^verbatim>\<open>src/http_request.c\<close>): the request, its release, header lookup. The locale
    \<open>ascii_ci\<close> states what a case-insensitive comparison promises; the five comparisons of the
    program are interpretations of it.
  \<^item> \<open>Http_Parser\<close> (\<^verbatim>\<open>src/http_parser.c\<close>): the parser and the inspection of the framing.
    \<open>Http_Parser_Language\<close> proves that it accepts exactly the messages of a declarative grammar
    within the limits, agrees with the framing, is prefix-free and leaks nothing.
  \<^item> \<open>Http_Reader\<close> (\<^verbatim>\<open>src/http_reader.c\<close>): the buffer and the receive loop with its deadlines. The
    locale \<open>stable_framer\<close> says that the verdict on a message does not change when more bytes
    arrive; it is interpreted on the framing of the parser. \<open>Http_Intake\<close> proves that the reader
    returns the first message of the byte stream whatever the segmentation, waits a bounded time,
    and returns every message the parser accepts.

  \<^bold>\<open>Responses.\<close>
  \<^item> \<open>Mime\<close> (\<^verbatim>\<open>src/mime.c\<close>): the table of types.
  \<^item> \<open>Http_Response\<close> (\<^verbatim>\<open>src/http_response.c\<close>): ownership of headers, bodies and file descriptors,
    serialisation, transmission with \<open>sendfile\<close> and its fallback. \<open>Http_Response_Properties\<close>: every
    sequence of operations balances memory and descriptors, a successful send delivers exactly the
    response and a failed one a prefix, the header section cannot be split, the announced length
    is the length of the body.
  \<^item> \<open>Http_Connection\<close> (\<^verbatim>\<open>src/http_connection.c\<close>): the list of tokens, the decision to keep a
    connection, and its announcement.
  \<^item> \<open>Static_Files\<close> (\<^verbatim>\<open>src/static_files.c\<close>): decoding, normalisation, resolution under the document
    root, index and error pages. The file system is a function of the number of calls made so far,
    so it may change between any two calls. \<open>Static_Files_Properties\<close>: only files under the root
    are opened, files that are there are served, memory and descriptors balance.

  \<^bold>\<open>The program.\<close>
  \<^item> \<open>Server_Stats\<close> (\<^verbatim>\<open>src/server_stats.c\<close>): the counters, one atomic step per operation.
  \<^item> \<open>Config\<close> (\<^verbatim>\<open>src/config.c\<close>): defaults, bounds and the command line.
  \<^item> \<open>Router\<close> (\<^verbatim>\<open>src/router.c\<close>): the route table and its handlers.
  \<^item> \<open>Client_Handler\<close> (\<^verbatim>\<open>src/client_handler.c\<close>): one connection; a turn of its loop is split at the
    labels of the code, and the loop ends because of the limit on requests.
    \<open>Client_Handler_Properties\<close> defines the abstract machine \<open>conversation\<close> and proves that a
    connection is one of its runs, and that everything it took is given back.
  \<^item> \<open>Connection_Queue\<close> (\<^verbatim>\<open>src/connection_queue.c\<close>): the ring buffer. The locale \<open>bounded_queue\<close> is the
    contract of a bounded FIFO queue with shutdown; the sections of the ring buffer between taking
    and releasing the mutex are an interpretation of it.
  \<^item> \<open>Thread_Pool\<close> (\<^verbatim>\<open>src/thread_pool.c\<close>) and \<open>Logger\<close> (\<^verbatim>\<open>src/logger.c\<close>).
  \<^item> \<open>Server\<close> (\<^verbatim>\<open>src/server.c\<close>, \<^verbatim>\<open>src/main.c\<close>): the listening socket, starting and rolling back as
    functions, and the running server as a step relation over the acceptor, the workers, the
    clients and the signal. \<open>Server_Properties\<close>: ownership of every connection under all
    interleavings, no sleeping pool with work in the queue, termination of the shutdown, complete
    clean-up; and two runs in which the code does not do what it means to.

  \<^bold>\<open>Bounds.\<close> No model has fuel. Loops that wait are recursive in the length of the scripts they
  consume; the loop of a connection in the requests left to the limit; the measure
  \<open>drain_bound\<close> bounds the steps of a shutdown, with 203 steps for a queued connection because
  a conversation counts at most two events for each of its 100 requests.

  \<^bold>\<open>What the composition leaves out.\<close> In the step relation a worker counts the events of an
  arbitrary conversation, which is what \<open>client_handle\<close> was proved to do; its reads and writes
  are not interleaved one by one, since they touch only its own connection. The counters that the
  statistics route reports are those its own connection has seen. An open file is identified by its
  descriptor, whose content does not change while it is sent. Workers do not fail to lock the
  queue or to wait on it, which POSIX excludes for primitives that are initialised. A second signal
  changes nothing and is not a step.

  \<^bold>\<open>Not modelled.\<close> Texts written to the terminal: \<open>config_print_usage\<close>, \<open>perror\<close> and the
  messages of \<open>main\<close>, \<open>log_request_if_verbose\<close> and \<open>log_connection_if_verbose\<close>; the logger itself
  is modelled, its callers' messages are not. The tests, benchmarks and scripts of the repository are
  not part of the server. The mutexes themselves are not modelled: every critical section of the
  source is a single step.
\<close>

end
